(* ===== verification/Prelude.thy ===== *)
theory Prelude
  imports Main "HOL-Library.Word" "HOL-Library.Code_Target_Nat"
begin

text \<open>
  Shared vocabulary of the development: bytes, the C++ error values, unsigned 64-bit
  arithmetic with its wrap-around written out, the two list operations that model
  \<open>memcpy\<close> into and out of a byte buffer (\<open>blit\<close> and \<open>peek\<close>), and the memory images of integers, with the lemmas the
  component theories share.
\<close>

unbundle bit_operations_syntax

named_theorems buf_simps \<open>reading and writing byte buffers\<close>
named_theorems u64_simps \<open>unsigned 64-bit arithmetic that does not wrap\<close>

section \<open>Types\<close>

type_synonym byte = "8 word"
type_synonym bytes = "byte list"

text \<open>
  The exceptions the C++ code throws, by the class the handlers distinguish, with the
  message where a handler forwards it. \<open>UndefinedBehaviour\<close> is no exception: it marks
  the executions the C++ standard gives no meaning (an out-of-range \<open>operator[]\<close>, an
  out-of-bounds \<open>memcpy\<close>), so that their absence can be stated and proved; likewise
  \<open>Nontermination\<close> marks a call that never returns. A \<open>catch\<close> clause catches neither.
\<close>

datatype cpp_error =
    InvalidArgument string
  | OutOfRange string
  | RuntimeError string
  | PermissionDeniedError
  | BadAlloc
  | UndefinedBehaviour
  | Nontermination

definition is_exception :: "cpp_error \<Rightarrow> bool" where
  "is_exception e \<longleftrightarrow> e \<noteq> UndefinedBehaviour \<and> e \<noteq> Nontermination"

section \<open>Unsigned 64-bit arithmetic\<close>

text \<open>\<open>size_t\<close> and \<open>uint64_t\<close> values are naturals below \<open>W64\<close>; sums and differences
  that the code does not guard are taken modulo \<open>W64\<close>.\<close>

definition W64 :: nat where
  "W64 = 2 ^ 64"

definition SIZE_MAX :: nat where
  "SIZE_MAX = W64 - 1"

definition u64_add :: "nat \<Rightarrow> nat \<Rightarrow> nat" where
  "u64_add a b = (a + b) mod W64"

definition u64_sub :: "nat \<Rightarrow> nat \<Rightarrow> nat" where
  "u64_sub a b = (a + W64 - b) mod W64"

definition u64_mul :: "nat \<Rightarrow> nat \<Rightarrow> nat" where
  "u64_mul a b = (a * b) mod W64"

lemma W64_pos [simp]: "0 < W64"
  by (simp add: W64_def)

lemma one_less_W64 [simp]: "Suc 0 < W64"
  by (simp add: W64_def)

lemma u64_add_less [simp]: "u64_add a b < W64"
  by (simp add: u64_add_def)

lemma u64_sub_less [simp]: "u64_sub a b < W64"
  by (simp add: u64_sub_def)

lemma u64_mul_less [simp]: "u64_mul a b < W64"
  by (simp add: u64_mul_def)

lemma u64_add_exact [u64_simps]: "a + b < W64 \<Longrightarrow> u64_add a b = a + b"
  by (simp add: u64_add_def)

lemma u64_sub_exact [u64_simps]: "b \<le> a \<Longrightarrow> a < W64 \<Longrightarrow> u64_sub a b = a - b"
proof -
  assume a: "b \<le> a" "a < W64"
  then have "(a + W64 - b) mod W64 = ((a - b) + W64) mod W64" by (simp only: Nat.diff_add_assoc2)
  also have "\<dots> = a - b" using a by (simp only: mod_add_self2 mod_less less_imp_diff_less)
  finally show ?thesis by (simp only: u64_sub_def)
qed

lemma u64_mul_exact [u64_simps]: "a * b < W64 \<Longrightarrow> u64_mul a b = a * b"
  by (simp add: u64_mul_def)

lemma SIZE_MAX_less: "SIZE_MAX < W64"
  by (simp add: SIZE_MAX_def)

lemma le_SIZE_MAX_iff: "n \<le> SIZE_MAX \<longleftrightarrow> n < W64"
  using W64_pos unfolding SIZE_MAX_def by linarith

section \<open>Byte buffers\<close>

text \<open>\<open>peek off n buf\<close> is what \<open>memcpy\<close> reads from \<open>buf + off\<close>; \<open>blit off xs buf\<close> is
  \<open>buf\<close> after \<open>memcpy(buf + off, xs)\<close>. Both are used within bounds only.\<close>

definition peek :: "nat \<Rightarrow> nat \<Rightarrow> 'a list \<Rightarrow> 'a list" where
  "peek off n xs = take n (drop off xs)"

definition blit :: "nat \<Rightarrow> 'a list \<Rightarrow> 'a list \<Rightarrow> 'a list" where
  "blit off ys xs = take off xs @ ys @ drop (off + length ys) xs"

lemma length_peek [simp]: "length (peek off n xs) = min n (length xs - off)"
  by (simp add: peek_def)

lemma peek_0 [simp]: "peek off 0 xs = []"
  by (simp add: peek_def)

lemma length_blit [simp]:
  "off + length ys \<le> length xs \<Longrightarrow> length (blit off ys xs) = length xs"
  by (simp add: blit_def)

lemma blit_Nil [simp]: "blit off [] xs = xs"
  by (simp add: blit_def)

lemma nth_peek [buf_simps]:
  "i < n \<Longrightarrow> off + i < length xs \<Longrightarrow> peek off n xs ! i = xs ! (off + i)"
  by (simp add: peek_def)

lemma nth_blit [buf_simps]:
  assumes "off + length ys \<le> length xs" and "i < length xs"
  shows "blit off ys xs ! i =
    (if off \<le> i \<and> i < off + length ys then ys ! (i - off) else xs ! i)"
  using assms by (auto simp: blit_def nth_append min_def)

lemma peek_blit_same [buf_simps]:
  "off + length ys \<le> length xs \<Longrightarrow> peek off (length ys) (blit off ys xs) = ys"
  by (simp add: peek_def blit_def)

lemma peek_blit_disjoint:
  assumes "off + length ys \<le> length xs" "o2 + n \<le> length xs"
    and "o2 + n \<le> off \<or> off + length ys \<le> o2"
  shows "peek o2 n (blit off ys xs) = peek o2 n xs"
  using assms by (intro nth_equalityI) (auto simp: nth_peek nth_blit)

lemma take_blit:
  assumes "off + length ys \<le> n" "n \<le> length xs"
  shows "take n (blit off ys xs) = blit off ys (take n xs)"
  using assms by (intro nth_equalityI) (auto simp: nth_blit)

lemma peek_take: "off + n \<le> m \<Longrightarrow> peek off n (take m xs) = peek off n xs"
  by (simp add: peek_def drop_take min_def)

lemma blit_blit_adjacent:
  assumes "off + length ys + length zs \<le> length xs"
  shows "blit (off + length ys) zs (blit off ys xs) = blit off (ys @ zs) xs"
  using assms by (intro nth_equalityI) (auto simp: nth_blit nth_append)

lemma peek_append:
  "peek off m xs @ peek (off + m) n xs = peek off (m + n) xs"
  by (simp add: peek_def take_add add.commute)

lemma peek_all [simp]: "peek 0 (length xs) xs = xs"
  by (simp add: peek_def)

lemma blit_all: "length ys = length xs \<Longrightarrow> blit 0 ys xs = ys"
  by (simp add: blit_def)

subsection \<open>Equal-sized blocks laid out one after the other\<close>

lemma length_concat_blocks:
  "\<forall>x \<in> set xss. length x = n \<Longrightarrow> length (concat xss) = n * length xss"
  by (induction xss) auto

lemma nth_concat_blocks:
  assumes "\<forall>x \<in> set xss. length x = n" "i < n * length xss"
  shows "concat xss ! i = xss ! (i div n) ! (i mod n)"
  using assms
proof (induction xss arbitrary: i)
  case Nil
  then show ?case by simp
next
  case (Cons x xss)
  have n: "0 < n" using Cons.prems(2) by (cases n) auto
  show ?case
  proof (cases "i < n")
    case True
    then show ?thesis using Cons.prems by (simp add: nth_append)
  next
    case False
    then have "concat xss ! (i - n) = xss ! ((i - n) div n) ! ((i - n) mod n)"
      using Cons.prems by (intro Cons.IH) auto
    moreover have "i div n = Suc ((i - n) div n)" "i mod n = (i - n) mod n"
      using False n by (auto simp: le_div_geq le_mod_geq)
    ultimately show ?thesis using False Cons.prems(1) by (simp add: nth_append)
  qed
qed

lemma blit_concat_block:
  assumes len: "\<forall>x \<in> set xss. length x = n" and k: "k < length xss"
    and fit: "off + length ys \<le> n"
  shows "concat (xss[k := blit off ys (xss ! k)]) = blit (k * n + off) ys (concat xss)"
proof (cases "ys = []")
  case True
  then show ?thesis by simp
next
  case False
  let ?ys = "xss[k := blit off ys (xss ! k)]"
  have len': "\<forall>x \<in> set ?ys. length x = n"
    using len k fit by (metis in_set_conv_nth length_list_update length_blit nth_list_update nth_mem)
  have tot: "k * n + off + length ys \<le> n * length xss"
  proof -
    have "k * n + n \<le> n * length xss"
      using k by (metis Suc_leI mult.commute mult_Suc_right mult_le_mono2 add.commute)
    then show ?thesis using fit by simp
  qed
  have n0: "0 < n" using False fit by (cases ys) auto
  have lc: "length (concat xss) = n * length xss" using len by (rule length_concat_blocks)
  have lc': "length (concat ?ys) = n * length xss"
    using length_concat_blocks [OF len'] by simp
  show ?thesis
  proof (rule nth_equalityI)
    show "length (concat ?ys) = length (blit (k * n + off) ys (concat xss))"
      using lc lc' tot by simp
  next
    fix i assume "i < length (concat ?ys)"
    then have i: "i < n * length xss" using lc' by simp
    have q: "i div n < length xss" using i n0 by (simp add: less_mult_imp_div_less mult.commute)
    have i_eq: "i = i div n * n + i mod n" by simp
    have m: "i mod n < n" using n0 by simp
    have *: "concat ?ys ! i = ?ys ! (i div n) ! (i mod n)"
      using len' i by (intro nth_concat_blocks) auto
    have **: "concat xss ! i = xss ! (i div n) ! (i mod n)"
      using len i by (intro nth_concat_blocks) auto
    have rhs: "blit (k * n + off) ys (concat xss) ! i =
      (if k * n + off \<le> i \<and> i < k * n + off + length ys then ys ! (i - (k * n + off))
       else concat xss ! i)"
      using tot i lc by (intro nth_blit) auto
    show "concat ?ys ! i = blit (k * n + off) ys (concat xss) ! i"
    proof (cases "i div n = k")
      case True
      define r where "r = i mod n"
      have r: "i = k * n + r" "r < n" "i mod n = r"
        using i_eq m True by (simp_all only: r_def)
      moreover have "length (xss ! k) = n" using len k by simp
      ultimately show ?thesis using * ** rhs r fit k unfolding True r(3)
        by (auto simp: nth_blit)
    next
      case False
      have "\<not> (k * n + off \<le> i \<and> i < k * n + off + length ys)"
      proof
        assume "k * n + off \<le> i \<and> i < k * n + off + length ys"
        then have "k * n \<le> i" "i < Suc k * n" using fit by auto
        then have "i div n = k" using n0
          by (metis div_nat_eqI mult.commute)
        then show False using False by simp
      qed
      then have "blit (k * n + off) ys (concat xss) ! i = concat xss ! i"
        by (simp only: rhs if_False)
      then show ?thesis using * ** False by (simp only: nth_list_update_neq not_sym)
    qed
  qed
qed

lemma peek_concat_block:
  assumes len: "\<forall>x \<in> set xss. length x = n" and k: "k < length xss" and fit: "off + m \<le> n"
  shows "peek (k * n + off) m (concat xss) = peek off m (xss ! k)"
proof (rule nth_equalityI)
  have tot: "k * n + n \<le> n * length xss"
    using k by (metis Suc_leI mult.commute mult_Suc_right mult_le_mono2 add.commute)
  have lk: "length (xss ! k) = n" using len k by simp
  have lc: "length (concat xss) = n * length xss" using len by (rule length_concat_blocks)
  show "length (peek (k * n + off) m (concat xss)) = length (peek off m (xss ! k))"
    using tot fit lk lc by simp
  fix i assume "i < length (peek (k * n + off) m (concat xss))"
  then have i: "i < m" by simp
  then have r: "off + i < n" using fit by simp
  have "concat xss ! (k * n + (off + i)) =
      xss ! ((k * n + (off + i)) div n) ! ((k * n + (off + i)) mod n)"
    using len tot r by (intro nth_concat_blocks) auto
  moreover have "(k * n + (off + i)) div n = k" "(k * n + (off + i)) mod n = off + i"
    using r by simp_all
  ultimately show "peek (k * n + off) m (concat xss) ! i = peek off m (xss ! k) ! i"
    using i tot fit lc lk by (simp only: nth_peek add.assoc)
qed

lemma set_update_distinct_map:
  "distinct ps \<Longrightarrow> k < length ps \<Longrightarrow> (\<And>p. p \<in> set ps \<Longrightarrow> p \<noteq> ps ! k \<Longrightarrow> g p = f p) \<Longrightarrow>
   map g ps = (map f ps)[k := g (ps ! k)]"
  by (intro nth_equalityI) (auto simp: nth_list_update nth_eq_iff_index_eq)

section \<open>Maps\<close>

lemma ran_remove: "m k = Some v \<Longrightarrow> ran m = insert v (ran (m(k := None)))"
  by (auto simp: ran_def) (metis option.inject)

lemma ran_replace: "ran (m(k \<mapsto> v)) = insert v (ran (m(k := None)))"
  by (auto simp: ran_def)

section \<open>Packed fields\<close>

text \<open>The memory image of an unsigned field of \<open>n\<close> bytes, low byte first, and its value.\<close>

definition le_image :: "nat \<Rightarrow> 'a::len word \<Rightarrow> bytes" where
  "le_image n w = map (\<lambda>i. ucast (drop_bit (8 * i) w)) [0..<n]"

definition le_value :: "bytes \<Rightarrow> 'a::len word" where
  "le_value bs = foldr (\<lambda>b w. ucast b OR push_bit 8 w) bs 0"

lemma length_le_image [simp]: "length (le_image n w) = n"
  by (simp add: le_image_def)

lemma bit_le_value:
  "k < LENGTH('a) \<Longrightarrow> bit (le_value bs :: 'a::len word) k \<longleftrightarrow>
     k div 8 < length bs \<and> bit (bs ! (k div 8)) (k mod 8)"
proof (induction bs arbitrary: k)
  case Nil
  then show ?case by (simp add: le_value_def)
next
  case (Cons b bs)
  have step: "(le_value (b # bs) :: 'a word) = ucast b OR push_bit 8 (le_value bs)"
    by (simp add: le_value_def)
  show ?case
  proof (cases "k < 8")
    case True
    with Cons.prems show ?thesis by (simp add: step bit_simps)
  next
    case False
    then have "k div 8 = Suc ((k - 8) div 8)" "k mod 8 = (k - 8) mod 8"
      using le_div_geq [of 8 k] le_mod_geq [of 8 k] by simp_all
    moreover have "\<not> bit b k" using False bit_imp_le_length [of b k] by auto
    ultimately show ?thesis using Cons False by (simp add: step bit_simps)
  qed
qed

lemma le_value_image:
  assumes "8 * n = LENGTH('a)"
  shows "le_value (le_image n w) = (w :: 'a::len word)"
proof (rule bit_word_eqI)
  fix k assume k: "k < LENGTH('a)"
  then have "k div 8 < n" using assms by auto
  moreover have "8 * (k div 8) + k mod 8 = k" by simp
  ultimately show "bit (le_value (le_image n w) :: 'a word) k = bit w k"
    using k by (simp add: bit_le_value le_image_def bit_simps)
qed

end
