(* ===== verification/SlabAllocator.thy ===== *)
theory SlabAllocator
  imports Prelude
begin

text \<open>
  The slab allocator of the memory daemon (\<open>memoryd/src/slab_allocator.cpp\<close>): one flat
  buffer cut into equal pages, a state per page and a LIFO free list. The theory models
  the constructor and the five operations, proves that the representation invariant is
  kept and what each operation does to the pages, and states the contract its client
  relies on as the locale \<open>page_pool\<close>, interpreted at the end on the model.
  The page locks and the allocator mutex are not modelled: every operation is one step.
\<close>

section \<open>Data\<close>

datatype PageState = FREE | ALLOCATED

record SlabAllocator =
  page_size :: nat
  total_pages :: nat
  buffer :: bytes
  page_states :: "PageState list"
  free_list :: "nat list"

section \<open>Operations\<close>

text \<open>\<open>new_ok n\<close> says whether \<open>new uint8_t[n]\<close> succeeds, \<open>junk\<close> is the indeterminate
  content it returns. The free list is a vector used as a stack: \<open>back()\<close> is the last
  element, so the loop pushes the page numbers from the highest down.\<close>

definition SlabAllocator_new ::
  "(nat \<Rightarrow> bool) \<Rightarrow> (nat \<Rightarrow> byte) \<Rightarrow> nat \<Rightarrow> nat \<Rightarrow> cpp_error + SlabAllocator" where
  "SlabAllocator_new new_ok junk total_size psize =
    (if psize = 0 then Inl (InvalidArgument ''Page size cannot be 0'')
     else
       let total = total_size div psize in
       if total = 0 then Inl (InvalidArgument ''Total size must be at least one page size'')
       else if total > SIZE_MAX div psize
         then Inl (InvalidArgument ''Total size overflows addressable range'')
       else if \<not> new_ok (total * psize) then Inl BadAlloc
       else Inr \<lparr> page_size = psize, total_pages = total,
                  buffer = map junk [0..<total * psize],
                  page_states = replicate total FREE,
                  free_list = rev [0..<total] \<rparr>)"

text \<open>One turn of the loop of \<open>allocate_pages\<close>: pop, mark, clear.\<close>

definition take_page :: "SlabAllocator \<Rightarrow> nat \<Rightarrow> SlabAllocator" where
  "take_page s p = s \<lparr>
     free_list := butlast (free_list s),
     page_states := (page_states s)[p := ALLOCATED],
     buffer := blit (p * page_size s) (replicate (page_size s) 0) (buffer s) \<rparr>"

fun allocate_loop ::
  "nat \<Rightarrow> SlabAllocator \<Rightarrow> nat list \<Rightarrow> (cpp_error + nat list) \<times> SlabAllocator" where
  "allocate_loop 0 s pages = (Inr pages, s)"
| "allocate_loop (Suc n) s pages =
    (if free_list s = [] \<or> length (page_states s) \<le> last (free_list s) then (Inl UndefinedBehaviour, s)
     else let p = last (free_list s) in allocate_loop n (take_page s p) (pages @ [p]))"

definition allocate_pages :: "SlabAllocator \<Rightarrow> nat \<Rightarrow> (cpp_error + nat list) \<times> SlabAllocator" where
  "allocate_pages s count =
    (if length (free_list s) < count then (Inl BadAlloc, s) else allocate_loop count s [])"

text \<open>Pages out of range and pages that are already free are skipped.\<close>

definition free_page :: "nat \<Rightarrow> SlabAllocator \<Rightarrow> SlabAllocator" where
  "free_page p s =
    (if p < total_pages s \<and> page_states s ! p = ALLOCATED
     then s \<lparr> page_states := (page_states s)[p := FREE], free_list := free_list s @ [p] \<rparr>
     else s)"

definition free_pages :: "SlabAllocator \<Rightarrow> nat list \<Rightarrow> SlabAllocator" where
  "free_pages s pages = fold free_page pages s"

definition page_range_bad :: "SlabAllocator \<Rightarrow> nat \<Rightarrow> nat \<Rightarrow> nat \<Rightarrow> bool" where
  "page_range_bad s page_idx page_offset sz \<longleftrightarrow>
    total_pages s \<le> page_idx \<or> page_size s < page_offset \<or> page_size s - page_offset < sz"

text \<open>The argument \<open>data\<close> is the \<open>size\<close> bytes behind the pointer.\<close>

definition write_page ::
  "SlabAllocator \<Rightarrow> nat \<Rightarrow> nat \<Rightarrow> bytes \<Rightarrow> (cpp_error + unit) \<times> SlabAllocator" where
  "write_page s page_idx page_offset data =
    (if page_range_bad s page_idx page_offset (length data)
       then (Inl (OutOfRange ''Write out of bounds''), s)
     else if page_states s ! page_idx \<noteq> ALLOCATED
       then (Inl (RuntimeError ''Write to unallocated page''), s)
     else (Inr (), s \<lparr> buffer := blit (page_idx * page_size s + page_offset) data (buffer s) \<rparr>))"

definition read_page :: "SlabAllocator \<Rightarrow> nat \<Rightarrow> nat \<Rightarrow> nat \<Rightarrow> cpp_error + bytes" where
  "read_page s page_idx page_offset sz =
    (if page_range_bad s page_idx page_offset sz
       then Inl (OutOfRange ''Read out of bounds'')
     else if page_states s ! page_idx \<noteq> ALLOCATED
       then Inl (RuntimeError ''Read from unallocated page'')
     else Inr (peek (page_idx * page_size s + page_offset) sz (buffer s)))"

definition free_pages_count :: "SlabAllocator \<Rightarrow> nat" where
  "free_pages_count s = length (free_list s)"

section \<open>Invariant and abstraction\<close>

text \<open>The pages handed out, and the bytes of a page.\<close>

definition live_pages :: "SlabAllocator \<Rightarrow> nat set" where
  "live_pages s = {p. p < total_pages s \<and> page_states s ! p = ALLOCATED}"

definition page_bytes :: "SlabAllocator \<Rightarrow> nat \<Rightarrow> bytes" where
  "page_bytes s p = peek (p * page_size s) (page_size s) (buffer s)"

definition slab_inv :: "SlabAllocator \<Rightarrow> bool" where
  "slab_inv s \<longleftrightarrow>
     0 < page_size s \<and> 0 < total_pages s \<and> total_pages s * page_size s < W64 \<and>
     length (buffer s) = total_pages s * page_size s \<and>
     length (page_states s) = total_pages s \<and>
     distinct (free_list s) \<and>
     set (free_list s) = {p. p < total_pages s \<and> page_states s ! p = FREE}"

lemma slab_inv_intro [intro?]:
  assumes "0 < page_size s" "0 < total_pages s" "total_pages s * page_size s < W64"
    "length (buffer s) = total_pages s * page_size s" "length (page_states s) = total_pages s"
    "distinct (free_list s)" "set (free_list s) = {p. p < total_pages s \<and> page_states s ! p = FREE}"
  shows "slab_inv s"
  using assms by (simp add: slab_inv_def)

lemma slab_invD:
  assumes "slab_inv s"
  shows "0 < page_size s" "0 < total_pages s" "total_pages s * page_size s < W64"
    "length (buffer s) = total_pages s * page_size s" "length (page_states s) = total_pages s"
    "distinct (free_list s)" "set (free_list s) = {p. p < total_pages s \<and> page_states s ! p = FREE}"
  using assms by (simp_all add: slab_inv_def)

lemma page_in_buffer: "p < n \<Longrightarrow> p * k + k \<le> n * (k :: nat)"
  using mult_le_mono1 [of "Suc p" n k] by simp

lemma pages_disjoint: "p < q \<Longrightarrow> p * k + k \<le> q * (k :: nat)"
  by (rule page_in_buffer)

lemma length_page_bytes [simp]:
  "slab_inv s \<Longrightarrow> p < total_pages s \<Longrightarrow> length (page_bytes s p) = page_size s"
  using page_in_buffer [of p "total_pages s" "page_size s"]
  by (simp add: page_bytes_def slab_invD(4))

lemma live_less: "p \<in> live_pages s \<Longrightarrow> p < total_pages s"
  by (simp add: live_pages_def)

lemma FREE_iff: "x = FREE \<longleftrightarrow> x \<noteq> ALLOCATED"
  by (cases x) auto

lemma finite_live [simp]: "finite (live_pages s)"
  by (rule finite_subset [of _ "{..<total_pages s}"]) (auto simp: live_pages_def)

text \<open>Every page is either on the free list or handed out, once.\<close>

lemma free_plus_live:
  assumes "slab_inv s"
  shows "free_pages_count s + card (live_pages s) = total_pages s"
proof -
  have "set (free_list s) \<union> live_pages s = {..<total_pages s}"
    unfolding slab_invD(7) [OF assms] live_pages_def by (auto simp: FREE_iff)
  moreover have "set (free_list s) \<inter> live_pages s = {}"
    unfolding slab_invD(7) [OF assms] live_pages_def by auto
  ultimately have "card (set (free_list s)) + card (live_pages s) = total_pages s"
    using card_Un_disjoint [of "set (free_list s)" "live_pages s"] by simp
  then show ?thesis
    by (simp add: free_pages_count_def distinct_card [OF slab_invD(6) [OF assms]])
qed

section \<open>What the operations do\<close>

subsection \<open>Constructor\<close>

lemma SlabAllocator_new_inv:
  assumes "SlabAllocator_new new_ok junk total_size psize = Inr s"
  shows "slab_inv s" "live_pages s = {}" "page_size s = psize"
    "total_pages s = total_size div psize" "free_pages_count s = total_size div psize"
proof -
  have c: "0 < psize" "0 < total_size div psize" "total_size div psize \<le> SIZE_MAX div psize"
    and s: "s = \<lparr> page_size = psize, total_pages = total_size div psize,
      buffer = map junk [0..<total_size div psize * psize],
      page_states = replicate (total_size div psize) FREE,
      free_list = rev [0..<total_size div psize] \<rparr>"
    using assms by (auto simp: SlabAllocator_new_def Let_def split: if_splits)
  have "total_size div psize * psize \<le> SIZE_MAX"
    using mult_le_mono1 [OF c(3), of psize] div_times_less_eq_dividend [of SIZE_MAX psize] by linarith
  then have "total_size div psize * psize < W64" by (simp only: le_SIZE_MAX_iff)
  then show "slab_inv s" using c by (auto simp: s slab_inv_def)
  show "live_pages s = {}" by (auto simp: s live_pages_def)
  show "page_size s = psize" "total_pages s = total_size div psize"
    "free_pages_count s = total_size div psize" by (simp_all add: s free_pages_count_def)
qed

subsection \<open>Reading and writing one page\<close>

lemma page_range_ok:
  assumes "slab_inv s" "p \<in> live_pages s" "off + n \<le> page_size s"
  shows "\<not> page_range_bad s p off n" "page_states s ! p = ALLOCATED"
    "p * page_size s + off + n \<le> length (buffer s)"
  using assms page_in_buffer [of p "total_pages s" "page_size s"] slab_invD(4) [OF assms(1)]
  by (auto simp: page_range_bad_def live_pages_def)

lemma page_bytes_blit:
  assumes "slab_inv s" "p < total_pages s" "q < total_pages s" "off + length d \<le> page_size s"
  shows "peek (q * page_size s) (page_size s) (blit (p * page_size s + off) d (buffer s)) =
    (if q = p then blit off d (page_bytes s p) else page_bytes s q)"
proof -
  note bounds = page_in_buffer [OF assms(2), of "page_size s"]
    page_in_buffer [OF assms(3), of "page_size s"] slab_invD(4) [OF assms(1)] assms(4)
  show ?thesis
  proof (cases "q = p")
    case True
    then show ?thesis using bounds
      by (auto simp: page_bytes_def nth_peek nth_blit intro!: nth_equalityI)
  next
    case False
    then consider "p < q" | "q < p" by linarith
    then have "q * page_size s + page_size s \<le> p * page_size s + off \<or>
        p * page_size s + off + length d \<le> q * page_size s"
      using pages_disjoint [of p q "page_size s"] pages_disjoint [of q p "page_size s"] assms(4)
      by cases auto
    then show ?thesis using False bounds
      by (simp add: page_bytes_def peek_blit_disjoint)
  qed
qed

lemma write_page_ok:
  assumes "slab_inv s" "p \<in> live_pages s" "off + length d \<le> page_size s"
  shows "\<exists>s'. write_page s p off d = (Inr (), s') \<and> slab_inv s' \<and>
    page_size s' = page_size s \<and> live_pages s' = live_pages s \<and> free_list s' = free_list s \<and>
    (\<forall>q \<in> live_pages s. page_bytes s' q = (if q = p then blit off d (page_bytes s p) else page_bytes s q))"
proof -
  let ?s = "s \<lparr> buffer := blit (p * page_size s + off) d (buffer s) \<rparr>"
  note ok = page_range_ok [OF assms]
  have "write_page s p off d = (Inr (), ?s)" using ok by (simp add: write_page_def)
  moreover have "slab_inv ?s"
    using assms(1) ok(3) by (auto simp: slab_inv_def)
  moreover have "live_pages ?s = live_pages s" by (simp add: live_pages_def)
  moreover have "\<forall>q \<in> live_pages s. page_bytes ?s q =
      (if q = p then blit off d (page_bytes s p) else page_bytes s q)"
    using page_bytes_blit [OF assms(1) live_less [OF assms(2)] _ assms(3)] live_less
    by (auto simp: page_bytes_def)
  ultimately show ?thesis by auto
qed

lemma read_page_ok:
  assumes "slab_inv s" "p \<in> live_pages s" "off + n \<le> page_size s"
  shows "read_page s p off n = Inr (peek off n (page_bytes s p))"
  using page_range_ok [OF assms] assms
  by (auto simp: read_page_def page_bytes_def peek_def drop_take min_def add.commute)

text \<open>A failing access leaves the slab as it was, and a page that is not handed out is
  neither readable nor writable.\<close>

lemma write_page_error: "write_page s p off d = (Inl e, s') \<Longrightarrow> s' = s"
  by (auto simp: write_page_def split: if_splits)

lemma access_needs_live:
  "write_page s p off d = (Inr (), s') \<Longrightarrow> p \<in> live_pages s"
  "read_page s p off n = Inr ds \<Longrightarrow> p \<in> live_pages s"
  by (auto simp: write_page_def read_page_def page_range_bad_def live_pages_def split: if_splits)

subsection \<open>Handing out pages\<close>

lemma take_page_simps [simp]:
  "page_size (take_page s p) = page_size s" "total_pages (take_page s p) = total_pages s"
  "free_list (take_page s p) = butlast (free_list s)"
  by (simp_all add: take_page_def)

lemma free_list_last:
  assumes "slab_inv s" "free_list s \<noteq> []"
  shows "last (free_list s) < total_pages s" "page_states s ! last (free_list s) = FREE"
    "last (free_list s) \<notin> live_pages s"
  using last_in_set [OF assms(2)] slab_invD(7) [OF assms(1)] by (auto simp: live_pages_def)

lemma take_page_ok:
  assumes inv: "slab_inv s" and ne: "free_list s \<noteq> []" and p: "p = last (free_list s)"
  shows "slab_inv (take_page s p)" "live_pages (take_page s p) = insert p (live_pages s)"
    "q < total_pages s \<Longrightarrow>
      page_bytes (take_page s p) q = (if q = p then replicate (page_size s) 0 else page_bytes s q)"
proof -
  note d = slab_invD [OF inv]
  note l = free_list_last [OF inv ne, folded p]
  have fl: "free_list s = butlast (free_list s) @ [p]" using ne p by simp
  then have pnot: "p \<notin> set (butlast (free_list s))" using d(6)
    by (metis distinct_append distinct.simps(2) disjoint_iff list.set_intros(1))
  have "set (free_list s) = insert p (set (butlast (free_list s)))" by (subst fl) simp
  then have "set (butlast (free_list s)) = set (free_list s) - {p}" using pnot by auto
  then have fr: "set (butlast (free_list s)) =
      {q. q < total_pages s \<and> (page_states s)[p := ALLOCATED] ! q = FREE}"
    using d(5) l by (auto simp: d(7) nth_list_update)
  show "slab_inv (take_page s p)"
    using d l fr page_in_buffer [OF l(1), of "page_size s"] distinct_butlast
    by (intro slab_inv_intro) (auto simp: take_page_def)
  show "live_pages (take_page s p) = insert p (live_pages s)"
    using l d(5) by (auto simp: live_pages_def take_page_def nth_list_update)
  have all: "length (page_bytes s p) = page_size s" using inv l(1) by simp
  show "page_bytes (take_page s p) q = (if q = p then replicate (page_size s) 0 else page_bytes s q)"
    if "q < total_pages s"
    using page_bytes_blit [OF inv l(1) that, of 0 "replicate (page_size s) 0"] all
    by (simp add: page_bytes_def take_page_def blit_all)
qed

lemma allocate_loop_ok:
  assumes "slab_inv s" "n \<le> length (free_list s)"
  shows "\<exists>ps s'. allocate_loop n s acc = (Inr (acc @ ps), s') \<and> slab_inv s' \<and> length ps = n \<and>
    distinct ps \<and> set ps \<inter> live_pages s = {} \<and> live_pages s' = live_pages s \<union> set ps \<and>
    page_size s' = page_size s \<and> total_pages s' = total_pages s \<and>
    length (free_list s') = length (free_list s) - n \<and>
    (\<forall>q < total_pages s. page_bytes s' q = (if q \<in> set ps then replicate (page_size s) 0 else page_bytes s q))"
  using assms
proof (induction n arbitrary: s acc)
  case 0
  then show ?case by simp
next
  case (Suc n)
  let ?p = "last (free_list s)"
  have ne: "free_list s \<noteq> []" using Suc.prems(2) by auto
  note l = free_list_last [OF Suc.prems(1) ne]
  note t = take_page_ok [OF Suc.prems(1) ne refl]
  have "n \<le> length (free_list (take_page s ?p))" using Suc.prems(2) by simp
  from Suc.IH [OF t(1) this, of "acc @ [?p]"] obtain ps s' where
    IH: "allocate_loop n (take_page s ?p) (acc @ [?p]) = (Inr ((acc @ [?p]) @ ps), s')"
      "slab_inv s'" "length ps = n" "distinct ps" "set ps \<inter> live_pages (take_page s ?p) = {}"
      "live_pages s' = live_pages (take_page s ?p) \<union> set ps" "page_size s' = page_size s"
      "total_pages s' = total_pages s" "length (free_list s') = length (free_list s) - Suc n"
      "\<forall>q < total_pages s. page_bytes s' q =
        (if q \<in> set ps then replicate (page_size s) 0 else page_bytes (take_page s ?p) q)"
    by auto
  have "allocate_loop (Suc n) s acc = (Inr (acc @ ?p # ps), s')"
    using ne l(1) slab_invD(5) [OF Suc.prems(1)] IH(1) by (simp add: Let_def)
  moreover have "distinct (?p # ps)" "set (?p # ps) \<inter> live_pages s = {}"
    using IH(4,5) t(2) l(3) by auto
  moreover have "live_pages s' = live_pages s \<union> set (?p # ps)" using IH(6) t(2) by simp
  moreover have "\<forall>q < total_pages s. page_bytes s' q =
      (if q \<in> set (?p # ps) then replicate (page_size s) 0 else page_bytes s q)"
    using IH(10) t(3) by simp
  ultimately show ?case using IH(2,3,7,8,9)
    by (intro exI [of _ "?p # ps"] exI [of _ s']) simp
qed

lemma allocate_pages_ok:
  assumes "slab_inv s" "n \<le> free_pages_count s"
  shows "\<exists>ps s'. allocate_pages s n = (Inr ps, s') \<and> slab_inv s' \<and> length ps = n \<and>
    distinct ps \<and> set ps \<inter> live_pages s = {} \<and> live_pages s' = live_pages s \<union> set ps \<and>
    page_size s' = page_size s \<and> free_pages_count s' = free_pages_count s - n \<and>
    (\<forall>q \<in> set ps. page_bytes s' q = replicate (page_size s) 0) \<and>
    (\<forall>q \<in> live_pages s. page_bytes s' q = page_bytes s q)"
proof -
  from allocate_loop_ok [OF assms(1), of n "[]"] assms(2) obtain ps s' where
    "allocate_loop n s [] = (Inr ps, s')" "slab_inv s'" "length ps = n" "distinct ps"
    and ps: "set ps \<inter> live_pages s = {}" and live: "live_pages s' = live_pages s \<union> set ps"
    and "page_size s' = page_size s"
    and tot: "total_pages s' = total_pages s"
    and "length (free_list s') = length (free_list s) - n"
    and bytes: "\<forall>q < total_pages s. page_bytes s' q =
      (if q \<in> set ps then replicate (page_size s) 0 else page_bytes s q)"
    by (auto simp: free_pages_count_def)
  moreover have "\<forall>q \<in> live_pages s'. q < total_pages s" using live_less tot by metis
  then have "\<forall>q \<in> set ps. page_bytes s' q = replicate (page_size s) 0"
      "\<forall>q \<in> live_pages s. page_bytes s' q = page_bytes s q"
    using bytes live ps by auto
  ultimately show ?thesis using assms(2)
    by (auto simp: allocate_pages_def free_pages_count_def)
qed

lemma allocate_pages_full:
  "free_pages_count s < n \<Longrightarrow> allocate_pages s n = (Inl BadAlloc, s)"
  by (simp add: allocate_pages_def free_pages_count_def)

subsection \<open>Taking pages back\<close>

lemma free_page_simps [simp]:
  "page_size (free_page p s) = page_size s" "total_pages (free_page p s) = total_pages s"
  "buffer (free_page p s) = buffer s"
  by (simp_all add: free_page_def)

lemma free_page_ok:
  assumes "slab_inv s"
  shows "slab_inv (free_page p s)" "live_pages (free_page p s) = live_pages s - {p}"
proof -
  note d = slab_invD [OF assms]
  show "slab_inv (free_page p s)"
  proof (cases "p < total_pages s \<and> page_states s ! p = ALLOCATED")
    case True
    then have "p \<notin> set (free_list s)" by (auto simp: d(7))
    then show ?thesis using True d
      by (intro slab_inv_intro) (auto simp: free_page_def nth_list_update)
  qed (use assms in \<open>auto simp: free_page_def\<close>)
  show "live_pages (free_page p s) = live_pages s - {p}"
    using d(5) by (auto simp: live_pages_def free_page_def nth_list_update)
qed

lemma free_pages_ok:
  assumes "slab_inv s"
  shows "slab_inv (free_pages s ps)" "live_pages (free_pages s ps) = live_pages s - set ps"
    "page_size (free_pages s ps) = page_size s" "total_pages (free_pages s ps) = total_pages s"
    "page_bytes (free_pages s ps) q = page_bytes s q"
proof -
  have "slab_inv (fold free_page ps s) \<and> live_pages (fold free_page ps s) = live_pages s - set ps \<and>
      page_size (fold free_page ps s) = page_size s \<and>
      total_pages (fold free_page ps s) = total_pages s \<and> buffer (fold free_page ps s) = buffer s"
    using assms by (induction ps arbitrary: s) (auto simp: free_page_ok)
  then show "slab_inv (free_pages s ps)" "live_pages (free_pages s ps) = live_pages s - set ps"
    "page_size (free_pages s ps) = page_size s" "total_pages (free_pages s ps) = total_pages s"
    "page_bytes (free_pages s ps) q = page_bytes s q"
    by (simp_all add: free_pages_def page_bytes_def)
qed

lemma free_pages_gain:
  assumes "slab_inv s" "set ps \<subseteq> live_pages s" "distinct ps"
  shows "free_pages_count (free_pages s ps) = free_pages_count s + length ps"
proof -
  have "card (live_pages s - set ps) = card (live_pages s) - length ps"
    using assms by (simp add: card_Diff_subset distinct_card)
  moreover have "length ps \<le> card (live_pages s)"
    using assms by (metis card_mono distinct_card finite_live)
  ultimately show ?thesis
    using free_plus_live [OF assms(1)] free_plus_live [OF free_pages_ok(1) [OF assms(1)], of ps]
      free_pages_ok [OF assms(1), of ps] by simp
qed

section \<open>The contract of a page pool\<close>

text \<open>What the page tracker relies on: pages handed out are distinct and cleared, a page
  keeps its bytes until it is written or freed, and an access inside a page that is handed
  out succeeds.\<close>

locale page_pool =
  fixes inv :: "'s \<Rightarrow> bool"
    and psize :: "'s \<Rightarrow> nat"
    and live :: "'s \<Rightarrow> nat set"
    and page :: "'s \<Rightarrow> nat \<Rightarrow> bytes"
    and nfree :: "'s \<Rightarrow> nat"
    and alloc :: "'s \<Rightarrow> nat \<Rightarrow> (cpp_error + nat list) \<times> 's"
    and release :: "'s \<Rightarrow> nat list \<Rightarrow> 's"
    and wr :: "'s \<Rightarrow> nat \<Rightarrow> nat \<Rightarrow> bytes \<Rightarrow> (cpp_error + unit) \<times> 's"
    and rd :: "'s \<Rightarrow> nat \<Rightarrow> nat \<Rightarrow> nat \<Rightarrow> cpp_error + bytes"
  assumes psize_pos: "inv s \<Longrightarrow> 0 < psize s"
    and page_length: "inv s \<Longrightarrow> p \<in> live s \<Longrightarrow> length (page s p) = psize s"
    and alloc_ok: "inv s \<Longrightarrow> n \<le> nfree s \<Longrightarrow>
      \<exists>ps s'. alloc s n = (Inr ps, s') \<and> inv s' \<and> length ps = n \<and> distinct ps \<and>
        set ps \<inter> live s = {} \<and> live s' = live s \<union> set ps \<and> psize s' = psize s \<and>
        nfree s' = nfree s - n \<and> (\<forall>q \<in> set ps. page s' q = replicate (psize s) 0) \<and>
        (\<forall>q \<in> live s. page s' q = page s q)"
    and alloc_full: "inv s \<Longrightarrow> nfree s < n \<Longrightarrow> alloc s n = (Inl BadAlloc, s)"
    and release_ok: "inv s \<Longrightarrow> inv (release s ps)"
      "inv s \<Longrightarrow> live (release s ps) = live s - set ps"
      "inv s \<Longrightarrow> psize (release s ps) = psize s"
      "inv s \<Longrightarrow> q \<in> live s - set ps \<Longrightarrow> page (release s ps) q = page s q"
      "inv s \<Longrightarrow> set ps \<subseteq> live s \<Longrightarrow> distinct ps \<Longrightarrow> nfree (release s ps) = nfree s + length ps"
    and wr_ok: "inv s \<Longrightarrow> p \<in> live s \<Longrightarrow> off + length d \<le> psize s \<Longrightarrow>
      \<exists>s'. wr s p off d = (Inr (), s') \<and> inv s' \<and> psize s' = psize s \<and> live s' = live s \<and>
        nfree s' = nfree s \<and>
        (\<forall>q \<in> live s. page s' q = (if q = p then blit off d (page s p) else page s q))"
    and rd_ok: "inv s \<Longrightarrow> p \<in> live s \<Longrightarrow> off + n \<le> psize s \<Longrightarrow>
      rd s p off n = Inr (peek off n (page s p))"

interpretation slab: page_pool slab_inv page_size live_pages page_bytes free_pages_count
  allocate_pages free_pages write_page read_page
proof unfold_locales
  fix s :: SlabAllocator and p off :: nat and d :: bytes
  assume "slab_inv s" "p \<in> live_pages s" "off + length d \<le> page_size s"
  from write_page_ok [OF this]
  show "\<exists>s'. write_page s p off d = (Inr (), s') \<and> slab_inv s' \<and> page_size s' = page_size s \<and>
    live_pages s' = live_pages s \<and> free_pages_count s' = free_pages_count s \<and>
    (\<forall>q \<in> live_pages s. page_bytes s' q = (if q = p then blit off d (page_bytes s p) else page_bytes s q))"
    by (auto simp: free_pages_count_def)
qed (simp_all add: slab_invD(1) live_less allocate_pages_ok allocate_pages_full free_pages_ok
  free_pages_gain read_page_ok)

section \<open>Reachable slabs\<close>

text \<open>The slabs that a successful constructor and any sequence of calls lead to, failing
  calls and calls with arbitrary page numbers included.\<close>

inductive slab_reach :: "SlabAllocator \<Rightarrow> bool" where
  start: "SlabAllocator_new new_ok junk total_sz psize = Inr s \<Longrightarrow> slab_reach s"
| alloc: "slab_reach s \<Longrightarrow> slab_reach (snd (allocate_pages s n))"
| release: "slab_reach s \<Longrightarrow> slab_reach (free_pages s ps)"
| put: "slab_reach s \<Longrightarrow> slab_reach (snd (write_page s p off d))"

lemma slab_reach_inv: "slab_reach s \<Longrightarrow> slab_inv s"
proof (induction rule: slab_reach.induct)
  case (start new_ok junk total_sz psize s)
  then show ?case by (rule SlabAllocator_new_inv(1))
next
  case (alloc s n)
  then show ?case using allocate_pages_ok [of s n] allocate_pages_full [of s n]
    by (cases "n \<le> free_pages_count s") fastforce+
next
  case (release s ps)
  then show ?case by (simp add: free_pages_ok(1))
next
  case (put s p off d)
  show ?case
  proof (cases "write_page s p off d")
    case (Pair r s')
    show ?thesis
    proof (cases r)
      case (Inl e)
      then show ?thesis using Pair write_page_error [of s p off d e s'] put.IH by auto
    next
      case (Inr u)
      then have "p \<in> live_pages s" "off + length d \<le> page_size s"
        using Pair access_needs_live(1) by (auto simp: write_page_def page_range_bad_def split: if_splits)
      from write_page_ok [OF put.IH this] show ?thesis by auto
    qed
  qed
qed

section \<open>Properties\<close>

text \<open>Property C33. In every reachable slab each page is either on the free list exactly once or
  handed out: the free count and the pages handed out always add up to the whole slab.\<close>

theorem slab_reachable_conserves:
  assumes "slab_reach s"
  shows "slab_inv s \<and> free_pages_count s + card (live_pages s) = total_pages s"
  using slab_reach_inv [OF assms] free_plus_live by simp

theorem slab_reachable_conserves_witness:
  "slab_inv (free_pages (projr (SlabAllocator_new (\<lambda>_. True) (\<lambda>_. 0) 16 4)) [9])"
proof -
  have "\<not> SIZE_MAX div 4 < 4" by (simp add: SIZE_MAX_def W64_def)
  then have "SlabAllocator_new (\<lambda>_. True) (\<lambda>_. 0) 16 4 =
      Inr (projr (SlabAllocator_new (\<lambda>_. True) (\<lambda>_. 0) 16 4))"
    by (simp add: SlabAllocator_new_def)
  then have "slab_reach (free_pages (projr (SlabAllocator_new (\<lambda>_. True) (\<lambda>_. 0) 16 4)) [9])"
    by (intro slab_reach.release) (rule slab_reach.start)
  from slab_reachable_conserves [OF this] show ?thesis by simp
qed

text \<open>Property C15. An allocation that fits succeeds, hands out pages that nobody holds, each of
  them cleared, and disturbs no page already handed out: a recycled page never shows
  its previous owner's bytes.\<close>

theorem allocate_pages_fresh_and_clear:
  assumes "slab_inv s" "n \<le> free_pages_count s"
  shows "\<exists>ps. fst (allocate_pages s n) = Inr ps \<and> length ps = n \<and> distinct ps \<and>
    set ps \<inter> live_pages s = {} \<and> live_pages (snd (allocate_pages s n)) = live_pages s \<union> set ps \<and>
    (\<forall>p \<in> set ps. page_bytes (snd (allocate_pages s n)) p = replicate (page_size s) 0) \<and>
    (\<forall>p \<in> live_pages s. page_bytes (snd (allocate_pages s n)) p = page_bytes s p)"
  using allocate_pages_ok [OF assms] by fastforce

theorem allocate_pages_fresh_and_clear_witness:
  "\<exists>ps. fst (allocate_pages (projr (SlabAllocator_new (\<lambda>_. True) (\<lambda>_. 0) 16 4)) 2) = Inr ps \<and>
    length ps = 2 \<and> distinct ps"
proof -
  have "\<not> SIZE_MAX div 4 < 4" by (simp add: SIZE_MAX_def W64_def)
  then have n: "SlabAllocator_new (\<lambda>_. True) (\<lambda>_. 0) 16 4 =
      Inr (projr (SlabAllocator_new (\<lambda>_. True) (\<lambda>_. 0) 16 4))"
    by (simp add: SlabAllocator_new_def)
  from allocate_pages_fresh_and_clear [OF SlabAllocator_new_inv(1) [OF n], of 2]
    SlabAllocator_new_inv(5) [OF n]
  show ?thesis by auto
qed

end
