(* ===== verification/PageTracker.thy ===== *)
theory PageTracker
  imports SlabAllocator
begin

text \<open>
  The page tracker of the memory daemon (\<open>memoryd/src/page_tracker.cpp\<close>): handles for
  logical byte ranges that are scattered over slab pages, with an owner per handle. The
  page-walking loops take the page operations of the pool as arguments, so that their
  correctness is proved once in the locale \<open>page_pool\<close>; the tracker uses them at the slab.
  The theory ends with the refinement of an abstract block store and the locale
  \<open>block_store\<close>, the contract the wire protocol relies on.
\<close>

section \<open>Data\<close>

record Allocation =
  total_size :: nat
  pages :: "nat list"
  owner_id :: nat

text \<open>\<open>allocator\<close> is the slab the tracker points to, which nothing else changes.\<close>

record PageTracker =
  allocator :: SlabAllocator
  allocations :: "nat \<rightharpoonup> Allocation"
  next_handle :: nat

section \<open>Operations\<close>

definition PageTracker_new :: "SlabAllocator option \<Rightarrow> cpp_error + PageTracker" where
  "PageTracker_new slab =
    (case slab of
      None \<Rightarrow> Inl (InvalidArgument ''Allocator cannot be null'')
    | Some s \<Rightarrow> Inr \<lparr> allocator = s, allocations = Map.empty, next_handle = 1 \<rparr>)"

definition check_ownership :: "PageTracker \<Rightarrow> nat \<Rightarrow> nat \<Rightarrow> cpp_error + unit" where
  "check_ownership t h owner =
    (case allocations t h of
      None \<Rightarrow> Inl (InvalidArgument ''Invalid handle'')
    | Some a \<Rightarrow> if owner_id a \<noteq> 0 \<and> owner_id a \<noteq> owner then Inl PermissionDeniedError else Inr ())"

definition PageTracker_allocate :: "PageTracker \<Rightarrow> nat \<Rightarrow> (cpp_error + nat) \<times> PageTracker" where
  "PageTracker_allocate t sz =
    (if sz = 0 then (Inr 0, t)
     else
       let psize = page_size (allocator t) in
       if SIZE_MAX - u64_sub psize 1 < sz then (Inl BadAlloc, t)
       else
         let pages_needed = u64_sub (u64_add sz psize) 1 div psize in
         case allocate_pages (allocator t) pages_needed of
           (Inl e, s') \<Rightarrow> (Inl e, t \<lparr> allocator := s' \<rparr>)
         | (Inr ps, s') \<Rightarrow>
             let h = next_handle t in
             (Inr h, t \<lparr> allocator := s',
                allocations := (allocations t)(h \<mapsto> \<lparr> total_size = sz, pages = ps, owner_id = 0 \<rparr>),
                next_handle := u64_add h 1 \<rparr>))"

text \<open>Erasing an entry and giving its pages back.\<close>

definition drop_allocation :: "PageTracker \<Rightarrow> nat \<Rightarrow> Allocation \<Rightarrow> PageTracker" where
  "drop_allocation t h a = t \<lparr> allocator := free_pages (allocator t) (pages a),
     allocations := (allocations t)(h := None) \<rparr>"

definition PageTracker_free :: "PageTracker \<Rightarrow> nat \<Rightarrow> nat \<Rightarrow> (cpp_error + unit) \<times> PageTracker" where
  "PageTracker_free t h owner =
    (case check_ownership t h owner of
      Inl e \<Rightarrow> (Inl e, t)
    | Inr _ \<Rightarrow> (case allocations t h of
        Some a \<Rightarrow> (Inr (), drop_allocation t h a)
      | None \<Rightarrow> (Inr (), t)))"

text \<open>A turn of a page walk makes progress.\<close>

lemma walk_progress:
  "\<not> len \<le> idx \<Longrightarrow> 0 < psize \<Longrightarrow> len - (idx + min (len - idx) (psize - a mod psize)) < len - (idx :: nat)"
  using mod_less_divisor [of psize a] by linarith

text \<open>The loop of \<open>write\<close>: \<open>idx\<close> is \<open>data_idx\<close>, \<open>pgs\<close> the copied page list. A division by
  a zero page size and an index past the page list are undefined.\<close>

function write_loop ::
  "('s \<Rightarrow> nat \<Rightarrow> nat \<Rightarrow> bytes \<Rightarrow> (cpp_error + unit) \<times> 's) \<Rightarrow> nat \<Rightarrow> nat list \<Rightarrow> nat \<Rightarrow> bytes \<Rightarrow> nat \<Rightarrow>
   's \<Rightarrow> (cpp_error + unit) \<times> 's" where
  "write_loop wr psize pgs offset data idx s =
    (if length data \<le> idx then (Inr (), s)
     else if psize = 0 then (Inl UndefinedBehaviour, s)
     else
       let logical_pos = u64_add offset idx;
           page_idx = logical_pos div psize;
           offset_in_page = logical_pos mod psize;
           n = min (length data - idx) (psize - offset_in_page) in
       if length pgs \<le> page_idx then (Inl UndefinedBehaviour, s)
       else case wr s (pgs ! page_idx) offset_in_page (peek idx n data) of
           (Inl e, s') \<Rightarrow> (Inl e, s')
         | (Inr _, s') \<Rightarrow> write_loop wr psize pgs offset data (idx + n) s')"
  by pat_completeness auto
termination
  by (relation "measure (\<lambda>(wr, psize, pgs, offset, data, idx, s). length data - idx)") (auto simp: walk_progress)

text \<open>The loop of \<open>read\<close>; \<open>out\<close> holds the bytes already copied to \<open>out_data\<close>, so that
  \<open>data_idx\<close> is its length.\<close>

function read_loop ::
  "('s \<Rightarrow> nat \<Rightarrow> nat \<Rightarrow> nat \<Rightarrow> cpp_error + bytes) \<Rightarrow> nat \<Rightarrow> nat list \<Rightarrow> nat \<Rightarrow> nat \<Rightarrow> nat \<Rightarrow>
   's \<Rightarrow> bytes \<Rightarrow> cpp_error + bytes" where
  "read_loop rd psize pgs offset sz idx s out =
    (if sz \<le> idx then Inr out
     else if psize = 0 then Inl UndefinedBehaviour
     else
       let logical_pos = u64_add offset idx;
           page_idx = logical_pos div psize;
           offset_in_page = logical_pos mod psize;
           n = min (sz - idx) (psize - offset_in_page) in
       if length pgs \<le> page_idx then Inl UndefinedBehaviour
       else case rd s (pgs ! page_idx) offset_in_page n of
           Inl e \<Rightarrow> Inl e
         | Inr bs \<Rightarrow> read_loop rd psize pgs offset sz (idx + n) s (out @ bs))"
  by pat_completeness auto
termination
  by (relation "measure (\<lambda>(rd, psize, pgs, offset, sz, idx, s, out). sz - idx)") (auto simp: walk_progress)

declare write_loop.simps [simp del] read_loop.simps [simp del]

lemma write_loop_step:
  assumes "idx < length data" "0 < psize"
    and "k = u64_add offset idx div psize" "o1 = u64_add offset idx mod psize"
    and "n = min (length data - idx) (psize - o1)" "k < length pgs"
    and "wr s (pgs ! k) o1 (peek idx n data) = (Inr u, s1)"
  shows "write_loop wr psize pgs offset data idx s = write_loop wr psize pgs offset data (idx + n) s1"
  using assms(1,2,6,7) unfolding assms(5) unfolding assms(3,4)
  by (subst write_loop.simps) (simp add: Let_def)

lemma read_loop_step:
  assumes "idx < sz" "0 < psize"
    and "k = u64_add offset idx div psize" "o1 = u64_add offset idx mod psize"
    and "n = min (sz - idx) (psize - o1)" "k < length pgs"
    and "rd s (pgs ! k) o1 n = Inr bs"
  shows "read_loop rd psize pgs offset sz idx s out = read_loop rd psize pgs offset sz (idx + n) s (out @ bs)"
  using assms(1,2,6,7) unfolding assms(5) unfolding assms(3,4)
  by (subst read_loop.simps) (simp add: Let_def)

definition PageTracker_write ::
  "PageTracker \<Rightarrow> nat \<Rightarrow> nat \<Rightarrow> bytes \<Rightarrow> nat \<Rightarrow> (cpp_error + unit) \<times> PageTracker" where
  "PageTracker_write t h offset data owner =
    (if data = [] then (Inr (), t)
     else case check_ownership t h owner of
       Inl e \<Rightarrow> (Inl e, t)
     | Inr _ \<Rightarrow> (case allocations t h of
         None \<Rightarrow> (Inl UndefinedBehaviour, t)
       | Some a \<Rightarrow>
           if total_size a < offset \<or> total_size a - offset < length data
           then (Inl (OutOfRange ''Write exceeds allocation size''), t)
           else case write_loop write_page (page_size (allocator t)) (pages a) offset data 0 (allocator t) of
             (r, s') \<Rightarrow> (r, t \<lparr> allocator := s' \<rparr>)))"

definition PageTracker_read ::
  "PageTracker \<Rightarrow> nat \<Rightarrow> nat \<Rightarrow> nat \<Rightarrow> nat \<Rightarrow> cpp_error + bytes" where
  "PageTracker_read t h offset sz owner =
    (if sz = 0 then Inr []
     else case check_ownership t h owner of
       Inl e \<Rightarrow> Inl e
     | Inr _ \<Rightarrow> (case allocations t h of
         None \<Rightarrow> Inl UndefinedBehaviour
       | Some a \<Rightarrow>
           if total_size a < offset \<or> total_size a - offset < sz
           then Inl (OutOfRange ''Read exceeds allocation size'')
           else read_loop read_page (page_size (allocator t)) (pages a) offset sz 0 (allocator t) []))"

definition assign_owner :: "PageTracker \<Rightarrow> nat \<Rightarrow> nat \<Rightarrow> PageTracker" where
  "assign_owner t h owner =
    (case allocations t h of
      Some a \<Rightarrow> t \<lparr> allocations := (allocations t)(h \<mapsto> a \<lparr> owner_id := owner \<rparr>) \<rparr>
    | None \<Rightarrow> t)"

text \<open>The sweep over the hash map: \<open>order\<close> is its iteration order, each key once.\<close>

definition sweep_handle :: "nat \<Rightarrow> nat \<Rightarrow> PageTracker \<Rightarrow> PageTracker" where
  "sweep_handle owner h t =
    (case allocations t h of
      Some a \<Rightarrow> if owner_id a = owner then drop_allocation t h a else t
    | None \<Rightarrow> t)"

definition free_all_for_owner :: "nat list \<Rightarrow> PageTracker \<Rightarrow> nat \<Rightarrow> PageTracker" where
  "free_all_for_owner order t owner =
    (if owner = 0 then t else fold (sweep_handle owner) order t)"

section \<open>The page walk over any page pool\<close>

context page_pool
begin

lemma walk_step:
  fixes offset :: nat
  assumes "inv s" "offset + len \<le> psize s * length pgs" "offset + len < W64" "idx < len"
    and "k = u64_add offset idx div psize s" "o1 = u64_add offset idx mod psize s"
    and "n = min (len - idx) (psize s - o1)"
  shows "k < length pgs" "o1 + n \<le> psize s" "0 < n" "idx + n \<le> len" "k * psize s + o1 = offset + idx"
proof -
  have ps: "0 < psize s" using assms(1) by (rule psize_pos)
  have lp: "u64_add offset idx = offset + idx" using assms(3,4) by (simp add: u64_simps)
  have "offset + idx < length pgs * psize s" using assms(2,4) by (simp add: mult.commute)
  then show "k < length pgs" using assms(5) lp by (simp add: less_mult_imp_div_less)
  show "k * psize s + o1 = offset + idx" by (simp only: assms(5,6) lp div_mult_mod_eq)
  have "o1 < psize s" using assms(6) ps by simp
  then show "o1 + n \<le> psize s" "0 < n" "idx + n \<le> len" using assms(4,7) by auto
qed

lemma blocks_length:
  "inv s \<Longrightarrow> set pgs \<subseteq> live s \<Longrightarrow> \<forall>x \<in> set (map (page s) pgs). length x = psize s"
  using page_length by auto

lemma concat_length:
  "inv s \<Longrightarrow> set pgs \<subseteq> live s \<Longrightarrow> length (concat (map (page s) pgs)) = psize s * length pgs"
  using length_concat_blocks [OF blocks_length] by simp

lemma concat_write:
  assumes "inv s" "distinct pgs" "set pgs \<subseteq> live s" "k < length pgs" "o1 + length d \<le> psize s"
    and upd: "\<forall>q \<in> live s. page s' q = (if q = pgs ! k then blit o1 d (page s (pgs ! k)) else page s q)"
  shows "concat (map (page s') pgs) = blit (k * psize s + o1) d (concat (map (page s) pgs))"
proof -
  have "pgs ! k \<in> live s" using assms(3,4) by auto
  then have "page s' (pgs ! k) = blit o1 d (map (page s) pgs ! k)" using upd assms(4) by simp
  moreover have "map (page s') pgs = (map (page s) pgs)[k := page s' (pgs ! k)]"
    using assms(2,4) by (rule set_update_distinct_map) (use upd assms(3) in auto)
  ultimately show ?thesis
    using blit_concat_block [OF blocks_length [OF assms(1,3)], of k o1 d] assms(4,5) by simp
qed

lemma write_loop_ok:
  assumes "inv s" "distinct pgs" "set pgs \<subseteq> live s"
    and "offset + length data \<le> psize s * length pgs" "offset + length data < W64" "idx \<le> length data"
  shows "\<exists>s'. write_loop wr (psize s) pgs offset data idx s = (Inr (), s') \<and> inv s' \<and>
    psize s' = psize s \<and> live s' = live s \<and> nfree s' = nfree s \<and>
    concat (map (page s') pgs) = blit (offset + idx) (drop idx data) (concat (map (page s) pgs)) \<and>
    (\<forall>q \<in> live s - set pgs. page s' q = page s q)"
  using assms
proof (induction "length data - idx" arbitrary: idx s rule: less_induct)
  case less
  show ?case
  proof (cases "idx = length data")
    case True
    then show ?thesis using less.prems by (simp add: write_loop.simps)
  next
    case False
    then have lt: "idx < length data" using less.prems by simp
    define k where "k = u64_add offset idx div psize s"
    define o1 where "o1 = u64_add offset idx mod psize s"
    define n where "n = min (length data - idx) (psize s - o1)"
    define d where "d = peek idx n data"
    note w = walk_step [OF less.prems(1,4,5) lt k_def o1_def n_def]
    have d: "length d = n" "d @ drop (idx + n) data = drop idx data"
      using w by (simp_all add: d_def n_def peek_def) (metis append_take_drop_id drop_drop add.commute)
    have "pgs ! k \<in> live s" "o1 + length d \<le> psize s" using less.prems(3) w d by auto
    from wr_ok [OF less.prems(1) this] obtain s1 where
      s1: "wr s (pgs ! k) o1 d = (Inr (), s1)" "inv s1" "psize s1 = psize s" "live s1 = live s"
        "nfree s1 = nfree s"
        "\<forall>q \<in> live s. page s1 q = (if q = pgs ! k then blit o1 d (page s (pgs ! k)) else page s q)"
      by auto
    have c1: "concat (map (page s1) pgs) = blit (offset + idx) d (concat (map (page s) pgs))"
      using concat_write [OF less.prems(1,2,3) w(1) _ s1(6)] w(2,5) d by simp
    have "\<exists>s'. write_loop wr (psize s1) pgs offset data (idx + n) s1 = (Inr (), s') \<and> inv s' \<and>
        psize s' = psize s1 \<and> live s' = live s1 \<and> nfree s' = nfree s1 \<and>
        concat (map (page s') pgs) =
          blit (offset + (idx + n)) (drop (idx + n) data) (concat (map (page s1) pgs)) \<and>
        (\<forall>q \<in> live s1 - set pgs. page s' q = page s1 q)"
      using less.prems w s1(2,3,4) lt by (intro less.hyps) auto
    moreover have "write_loop wr (psize s) pgs offset data idx s =
        write_loop wr (psize s) pgs offset data (idx + n) s1"
      using lt psize_pos [OF less.prems(1)] k_def o1_def n_def w(1) s1(1) [unfolded d_def]
      by (rule write_loop_step)
    moreover have "blit (offset + (idx + n)) (drop (idx + n) data) (concat (map (page s1) pgs)) =
        blit (offset + idx) (drop idx data) (concat (map (page s) pgs))"
      using blit_blit_adjacent [of "offset + idx" d "drop (idx + n) data" "concat (map (page s) pgs)"]
        c1 d w concat_length [OF less.prems(1,3)] less.prems(4) by (simp add: add.assoc)
    moreover have "\<forall>q \<in> live s - set pgs. page s1 q = page s q" using s1(6) w(1) by auto
    ultimately show ?thesis using s1(3,4,5) by auto
  qed
qed

lemma read_loop_ok:
  assumes "inv s" "set pgs \<subseteq> live s"
    and "offset + sz \<le> psize s * length pgs" "offset + sz < W64" "idx \<le> sz"
  shows "read_loop rd (psize s) pgs offset sz idx s out =
    Inr (out @ peek (offset + idx) (sz - idx) (concat (map (page s) pgs)))"
  using assms
proof (induction "sz - idx" arbitrary: idx out rule: less_induct)
  case less
  show ?case
  proof (cases "idx = sz")
    case True
    then show ?thesis by (simp add: read_loop.simps)
  next
    case False
    then have lt: "idx < sz" using less.prems by simp
    define k where "k = u64_add offset idx div psize s"
    define o1 where "o1 = u64_add offset idx mod psize s"
    define n where "n = min (sz - idx) (psize s - o1)"
    note w = walk_step [OF less.prems(1,3,4) lt k_def o1_def n_def]
    have r: "rd s (pgs ! k) o1 n = Inr (peek o1 n (page s (pgs ! k)))"
      using less.prems(1,2) w by (intro rd_ok) auto
    have "peek (offset + idx) n (concat (map (page s) pgs)) = peek o1 n (page s (pgs ! k))"
      using peek_concat_block [OF blocks_length [OF less.prems(1,2)], of k o1 n] w by simp
    then have "peek o1 n (page s (pgs ! k)) @
        peek (offset + (idx + n)) (sz - (idx + n)) (concat (map (page s) pgs)) =
        peek (offset + idx) (sz - idx) (concat (map (page s) pgs))"
      using peek_append [of "offset + idx" n "concat (map (page s) pgs)" "sz - (idx + n)"] w
      by (simp add: add.assoc)
    moreover have "read_loop rd (psize s) pgs offset sz (idx + n) s (out @ peek o1 n (page s (pgs ! k))) =
        Inr ((out @ peek o1 n (page s (pgs ! k))) @
          peek (offset + (idx + n)) (sz - (idx + n)) (concat (map (page s) pgs)))"
      using less.prems w lt by (intro less.hyps) auto
    moreover have "read_loop rd (psize s) pgs offset sz idx s out =
        read_loop rd (psize s) pgs offset sz (idx + n) s (out @ peek o1 n (page s (pgs ! k)))"
      using lt psize_pos [OF less.prems(1)] k_def o1_def n_def w(1) r by (rule read_loop_step)
    ultimately show ?thesis by simp
  qed
qed

end

section \<open>Specification: a store of byte blocks\<close>

text \<open>What the tracker promises, without pages: numbered blocks of bytes with an owner, and a
  budget counted in units of one page.\<close>

record BlockStore =
  unit_size :: nat
  free_units :: nat
  blocks :: "nat \<rightharpoonup> nat \<times> bytes"
  next_block :: nat

definition units_for :: "nat \<Rightarrow> nat \<Rightarrow> nat" where
  "units_for u n = (n + u - 1) div u"

definition spec_check :: "BlockStore \<Rightarrow> nat \<Rightarrow> nat \<Rightarrow> cpp_error + unit" where
  "spec_check st h owner =
    (case blocks st h of
      None \<Rightarrow> Inl (InvalidArgument ''Invalid handle'')
    | Some (ow, bs) \<Rightarrow> if ow = 0 \<or> ow = owner then Inr () else Inl PermissionDeniedError)"

definition spec_allocate :: "BlockStore \<Rightarrow> nat \<Rightarrow> (cpp_error + nat) \<times> BlockStore" where
  "spec_allocate st n =
    (if n = 0 then (Inr 0, st)
     else if W64 < n + unit_size st \<or> free_units st < units_for (unit_size st) n then (Inl BadAlloc, st)
     else (Inr (next_block st), st \<lparr>
       free_units := free_units st - units_for (unit_size st) n,
       blocks := (blocks st)(next_block st \<mapsto> (0, replicate n 0)),
       next_block := u64_add (next_block st) 1 \<rparr>))"

definition spec_drop :: "BlockStore \<Rightarrow> nat \<Rightarrow> bytes \<Rightarrow> BlockStore" where
  "spec_drop st h bs = st \<lparr>
     free_units := free_units st + units_for (unit_size st) (length bs),
     blocks := (blocks st)(h := None) \<rparr>"

definition spec_free :: "BlockStore \<Rightarrow> nat \<Rightarrow> nat \<Rightarrow> (cpp_error + unit) \<times> BlockStore" where
  "spec_free st h owner =
    (case spec_check st h owner of
      Inl e \<Rightarrow> (Inl e, st)
    | Inr _ \<Rightarrow> (Inr (), spec_drop st h (snd (the (blocks st h)))))"

definition spec_write :: "BlockStore \<Rightarrow> nat \<Rightarrow> nat \<Rightarrow> bytes \<Rightarrow> nat \<Rightarrow> (cpp_error + unit) \<times> BlockStore" where
  "spec_write st h offset data owner =
    (if data = [] then (Inr (), st)
     else case spec_check st h owner of
       Inl e \<Rightarrow> (Inl e, st)
     | Inr _ \<Rightarrow>
         let (ow, bs) = the (blocks st h) in
         if length bs < offset + length data then (Inl (OutOfRange ''Write exceeds allocation size''), st)
         else (Inr (), st \<lparr> blocks := (blocks st)(h \<mapsto> (ow, blit offset data bs)) \<rparr>))"

definition spec_read :: "BlockStore \<Rightarrow> nat \<Rightarrow> nat \<Rightarrow> nat \<Rightarrow> nat \<Rightarrow> cpp_error + bytes" where
  "spec_read st h offset sz owner =
    (if sz = 0 then Inr []
     else case spec_check st h owner of
       Inl e \<Rightarrow> Inl e
     | Inr _ \<Rightarrow>
         let bs = snd (the (blocks st h)) in
         if length bs < offset + sz then Inl (OutOfRange ''Read exceeds allocation size'')
         else Inr (peek offset sz bs))"

definition spec_assign :: "BlockStore \<Rightarrow> nat \<Rightarrow> nat \<Rightarrow> BlockStore" where
  "spec_assign st h owner =
    (case blocks st h of
      Some (ow, bs) \<Rightarrow> st \<lparr> blocks := (blocks st)(h \<mapsto> (owner, bs)) \<rparr>
    | None \<Rightarrow> st)"

definition spec_sweep1 :: "nat \<Rightarrow> nat \<Rightarrow> BlockStore \<Rightarrow> BlockStore" where
  "spec_sweep1 owner h st =
    (case blocks st h of
      Some (ow, bs) \<Rightarrow> if ow = owner then spec_drop st h bs else st
    | None \<Rightarrow> st)"

definition spec_sweep :: "nat list \<Rightarrow> BlockStore \<Rightarrow> nat \<Rightarrow> BlockStore" where
  "spec_sweep order st owner = (if owner = 0 then st else fold (spec_sweep1 owner) order st)"

section \<open>Invariant and abstraction\<close>

definition allocation_ok :: "PageTracker \<Rightarrow> nat \<Rightarrow> Allocation \<Rightarrow> bool" where
  "allocation_ok t h a \<longleftrightarrow> 0 < h \<and> h < next_handle t \<and> 0 < total_size a \<and> total_size a < W64 \<and>
     length (pages a) = units_for (page_size (allocator t)) (total_size a) \<and> distinct (pages a)"

definition tracker_inv :: "PageTracker \<Rightarrow> bool" where
  "tracker_inv t \<longleftrightarrow> slab_inv (allocator t) \<and> 0 < next_handle t \<and> next_handle t < W64 \<and>
     (\<forall>h a. allocations t h = Some a \<longrightarrow> allocation_ok t h a) \<and>
     (\<forall>h h' a a'. allocations t h = Some a \<longrightarrow> allocations t h' = Some a' \<longrightarrow> h \<noteq> h' \<longrightarrow>
        set (pages a) \<inter> set (pages a') = {}) \<and>
     live_pages (allocator t) = (\<Union>a \<in> ran (allocations t). set (pages a))"

definition block_bytes :: "SlabAllocator \<Rightarrow> Allocation \<Rightarrow> bytes" where
  "block_bytes s a = take (total_size a) (concat (map (page_bytes s) (pages a)))"

definition store_of :: "PageTracker \<Rightarrow> BlockStore" where
  "store_of t = \<lparr> unit_size = page_size (allocator t), free_units = free_pages_count (allocator t),
     blocks = (\<lambda>h. map_option (\<lambda>a. (owner_id a, block_bytes (allocator t) a)) (allocations t h)),
     next_block = next_handle t \<rparr>"

lemma store_of_simps [simp]:
  "unit_size (store_of t) = page_size (allocator t)"
  "free_units (store_of t) = free_pages_count (allocator t)"
  "blocks (store_of t) h = map_option (\<lambda>a. (owner_id a, block_bytes (allocator t) a)) (allocations t h)"
  "next_block (store_of t) = next_handle t"
  by (simp_all add: store_of_def)

lemma dom_store: "dom (blocks (store_of t)) = dom (allocations t)"
  by (auto simp: dom_def)

lemma store_eqI:
  fixes st st' :: BlockStore
  assumes "unit_size st = unit_size st'" "free_units st = free_units st'"
    "\<And>h. blocks st h = blocks st' h" "next_block st = next_block st'"
  shows "st = st'"
  using assms by (cases st, cases st') auto

lemma tracker_invD:
  assumes "tracker_inv t"
  shows "slab_inv (allocator t)" "0 < next_handle t" "next_handle t < W64"
    "allocations t h = Some a \<Longrightarrow> allocation_ok t h a"
    "allocations t h = Some a \<Longrightarrow> allocations t h' = Some a' \<Longrightarrow> h \<noteq> h' \<Longrightarrow>
      set (pages a) \<inter> set (pages a') = {}"
    "live_pages (allocator t) = (\<Union>a \<in> ran (allocations t). set (pages a))"
    "allocations t h = Some a \<Longrightarrow> set (pages a) \<subseteq> live_pages (allocator t)"
  using assms unfolding tracker_inv_def by (blast, blast, blast, blast, blast, blast, auto simp: ran_def)

lemma tracker_invI:
  assumes "slab_inv (allocator t)" "0 < next_handle t" "next_handle t < W64"
    "\<And>h a. allocations t h = Some a \<Longrightarrow> allocation_ok t h a"
    "\<And>h h' a a'. allocations t h = Some a \<Longrightarrow> allocations t h' = Some a' \<Longrightarrow> h \<noteq> h' \<Longrightarrow>
      set (pages a) \<inter> set (pages a') = {}"
    "live_pages (allocator t) = (\<Union>a \<in> ran (allocations t). set (pages a))"
  shows "tracker_inv t"
  using assms unfolding tracker_inv_def by blast

lemma PageTracker_new_inv:
  assumes "slab_inv s" "live_pages s = {}" "PageTracker_new (Some s) = Inr t"
  shows "tracker_inv t"
proof (rule tracker_invI)
  have t: "t = \<lparr> allocator = s, allocations = Map.empty, next_handle = 1 \<rparr>"
    using assms(3) by (simp add: PageTracker_new_def)
  show "slab_inv (allocator t)" "0 < next_handle t" "next_handle t < W64"
    "live_pages (allocator t) = (\<Union>a \<in> ran (allocations t). set (pages a))"
    using assms(1,2) by (simp_all add: t)
qed (use assms(3) in \<open>simp_all add: PageTracker_new_def\<close>, auto)

lemma units_for_enough: "0 < u \<Longrightarrow> n \<le> u * units_for u n"
  unfolding units_for_def
  using dividend_less_div_times [of u "n + u - 1"] by (simp add: mult.commute)

lemma slab_page_size_less: "slab_inv s \<Longrightarrow> page_size s < W64"
proof -
  assume "slab_inv s"
  then have "0 < total_pages s" "total_pages s * page_size s < W64" by (auto dest: slab_invD)
  moreover have "page_size s \<le> total_pages s * page_size s"
    using calculation(1) by simp
  ultimately show ?thesis by (rule_tac le_less_trans)
qed

lemma pages_needed_eq:
  assumes "0 < u" "u < W64" "0 < n" "n < W64"
  shows "SIZE_MAX - u64_sub u 1 < n \<longleftrightarrow> W64 < n + u"
    "n + u \<le> W64 \<Longrightarrow> u64_sub (u64_add n u) 1 div u = units_for u n"
proof -
  have 1: "u64_sub u 1 = u - 1" using assms by (simp add: u64_simps)
  show "SIZE_MAX - u64_sub u 1 < n \<longleftrightarrow> W64 < n + u"
    unfolding 1 SIZE_MAX_def using assms by linarith
  assume le: "n + u \<le> W64"
  have "u64_sub (u64_add n u) 1 = n + u - 1"
  proof (cases "n + u < W64")
    case True
    then show ?thesis using assms by (simp add: u64_simps)
  next
    case False
    then have "n + u = W64" using le by simp
    then show ?thesis by (simp add: u64_add_def u64_sub_def)
  qed
  then show "u64_sub (u64_add n u) 1 div u = units_for u n" by (simp add: units_for_def)
qed

lemma block_facts:
  assumes "tracker_inv t" "allocations t h = Some a"
  shows "length (concat (map (page_bytes (allocator t)) (pages a))) =
      page_size (allocator t) * length (pages a)"
    "total_size a \<le> page_size (allocator t) * length (pages a)"
    "length (block_bytes (allocator t) a) = total_size a"
proof -
  note d = tracker_invD [OF assms(1)]
  show 1: "length (concat (map (page_bytes (allocator t)) (pages a))) =
      page_size (allocator t) * length (pages a)"
    using d(1) d(7) [OF assms(2)] by (rule slab.concat_length)
  show 2: "total_size a \<le> page_size (allocator t) * length (pages a)"
    using d(4) [OF assms(2)] units_for_enough [of "page_size (allocator t)" "total_size a"]
      slab_invD(1) [OF d(1)] by (simp add: allocation_ok_def)
  show "length (block_bytes (allocator t) a) = total_size a"
    using 1 2 by (simp add: block_bytes_def)
qed

lemma check_refines: "spec_check (store_of t) h owner = check_ownership t h owner"
  by (auto simp: spec_check_def check_ownership_def split: option.splits)

section \<open>The tracker implements the store\<close>

lemma block_bytes_cong:
  "\<forall>q \<in> set (pages a). page_bytes s' q = page_bytes s q \<Longrightarrow> block_bytes s' a = block_bytes s a"
  by (simp add: block_bytes_def cong: map_cong)

lemma tracker_inv_allocator:
  assumes "tracker_inv t" "slab_inv s'" "page_size s' = page_size (allocator t)"
    "live_pages s' = live_pages (allocator t)"
  shows "tracker_inv (t \<lparr> allocator := s' \<rparr>)"
  using tracker_invD [OF assms(1)] assms(2-4)
  by (intro tracker_invI) (auto simp: allocation_ok_def)

subsection \<open>Write and read\<close>

lemma write_loop_refines:
  assumes inv: "tracker_inv t" and a: "allocations t h = Some a"
    and fit: "offset + length data \<le> total_size a"
    and w: "write_loop write_page (page_size (allocator t)) (pages a) offset data 0 (allocator t) = (r, s')"
  shows "r = Inr ()" "tracker_inv (t \<lparr> allocator := s' \<rparr>)"
    "store_of (t \<lparr> allocator := s' \<rparr>) = store_of t
      \<lparr> blocks := (blocks (store_of t))(h \<mapsto> (owner_id a, blit offset data (block_bytes (allocator t) a))) \<rparr>"
proof -
  note d = tracker_invD [OF inv]
  note b = block_facts [OF inv a]
  have ok: "allocation_ok t h a" by (rule d(4) [OF a])
  have "\<exists>s'. write_loop write_page (page_size (allocator t)) (pages a) offset data 0 (allocator t) = (Inr (), s') \<and>
      slab_inv s' \<and> page_size s' = page_size (allocator t) \<and> live_pages s' = live_pages (allocator t) \<and>
      free_pages_count s' = free_pages_count (allocator t) \<and>
      concat (map (page_bytes s') (pages a)) =
        blit (offset + 0) (drop 0 data) (concat (map (page_bytes (allocator t)) (pages a))) \<and>
      (\<forall>q \<in> live_pages (allocator t) - set (pages a). page_bytes s' q = page_bytes (allocator t) q)"
    using d(1) _ d(7) [OF a]
    by (rule slab.write_loop_ok) (use ok b(2) fit in \<open>auto simp: allocation_ok_def\<close>)
  then have s': "r = Inr ()" "slab_inv s'" "page_size s' = page_size (allocator t)"
      "live_pages s' = live_pages (allocator t)" "free_pages_count s' = free_pages_count (allocator t)"
      "concat (map (page_bytes s') (pages a)) = blit offset data (concat (map (page_bytes (allocator t)) (pages a)))"
      "\<forall>q \<in> live_pages (allocator t) - set (pages a). page_bytes s' q = page_bytes (allocator t) q"
    using w by auto
  show "r = Inr ()" by (rule s'(1))
  show "tracker_inv (t \<lparr> allocator := s' \<rparr>)"
    using inv s'(2,3,4) by (rule tracker_inv_allocator)
  have this_block: "block_bytes s' a = blit offset data (block_bytes (allocator t) a)"
    using s'(6) fit b by (simp add: block_bytes_def take_blit)
  have others: "block_bytes s' a' = block_bytes (allocator t) a'"
    if "allocations t h' = Some a'" "h' \<noteq> h" for h' a'
    using s'(7) d(5) [OF that(1) a that(2)] d(7) [OF that(1)] by (intro block_bytes_cong) blast
  show "store_of (t \<lparr> allocator := s' \<rparr>) = store_of t
      \<lparr> blocks := (blocks (store_of t))(h \<mapsto> (owner_id a, blit offset data (block_bytes (allocator t) a))) \<rparr>"
    using s'(3,5) a this_block others
    by (intro store_eqI) (auto simp: map_option_case split: option.splits)
qed

lemma write_refines:
  assumes inv: "tracker_inv t" and w: "PageTracker_write t h offset data owner = (r, t')"
  shows "tracker_inv t'" "spec_write (store_of t) h offset data owner = (r, store_of t')"
proof -
  have "tracker_inv t' \<and> spec_write (store_of t) h offset data owner = (r, store_of t')"
  proof (cases "data = [] \<or> (\<exists>e. check_ownership t h owner = Inl e)")
    case True
    then show ?thesis using inv w
      by (auto simp: PageTracker_write_def spec_write_def check_refines split: if_splits sum.splits)
  next
    case False
    then obtain u where c: "check_ownership t h owner = Inr u" "data \<noteq> []"
      by (cases "check_ownership t h owner") auto
    then obtain a where a: "allocations t h = Some a"
      by (auto simp: check_ownership_def split: option.splits)
    note b = block_facts [OF inv a]
    have range: "(total_size a < offset \<or> total_size a - offset < length data) \<longleftrightarrow>
        length (block_bytes (allocator t) a) < offset + length data"
      using c(2) unfolding b(3) by (cases data) auto
    show ?thesis
    proof (cases "length (block_bytes (allocator t) a) < offset + length data")
      case True
      then show ?thesis using inv w c a range
        by (simp add: PageTracker_write_def spec_write_def check_refines)
    next
      case False
      then have fit: "offset + length data \<le> total_size a" using b(3) by simp
      obtain s' where s': "write_loop write_page (page_size (allocator t)) (pages a) offset data 0 (allocator t) = (r, s')"
          "t' = t \<lparr> allocator := s' \<rparr>"
        using w c a range False by (auto simp: PageTracker_write_def split: prod.splits)
      show ?thesis using write_loop_refines [OF inv a fit s'(1)] s'(2) c a False
        by (simp add: spec_write_def check_refines)
    qed
  qed
  then show "tracker_inv t'" "spec_write (store_of t) h offset data owner = (r, store_of t')" by auto
qed

lemma read_refines:
  assumes inv: "tracker_inv t"
  shows "PageTracker_read t h offset sz owner = spec_read (store_of t) h offset sz owner"
proof (cases "sz = 0 \<or> (\<exists>e. check_ownership t h owner = Inl e)")
  case True
  then show ?thesis by (auto simp: PageTracker_read_def spec_read_def check_refines)
next
  case False
  then obtain u where c: "check_ownership t h owner = Inr u" "sz \<noteq> 0"
    by (cases "check_ownership t h owner") auto
  then obtain a where a: "allocations t h = Some a"
    by (auto simp: check_ownership_def split: option.splits)
  note d = tracker_invD [OF inv]
  note b = block_facts [OF inv a]
  have ok: "allocation_ok t h a" by (rule d(4) [OF a])
  show ?thesis
  proof (cases "total_size a < offset + sz")
    case True
    then show ?thesis using c a b(3) by (auto simp: PageTracker_read_def spec_read_def check_refines)
  next
    case False
    then have fit: "offset + sz \<le> total_size a" by simp
    have "read_loop read_page (page_size (allocator t)) (pages a) offset sz 0 (allocator t) [] =
        Inr ([] @ peek (offset + 0) (sz - 0) (concat (map (page_bytes (allocator t)) (pages a))))"
      using d(1) d(7) [OF a]
      by (rule slab.read_loop_ok) (use ok b(2) fit in \<open>auto simp: allocation_ok_def\<close>)
    moreover have "\<not> (total_size a < offset \<or> total_size a - offset < sz)" using fit by auto
    ultimately show ?thesis using c a fit b(3)
      by (simp add: PageTracker_read_def spec_read_def check_refines block_bytes_def peek_take)
  qed
qed

subsection \<open>Allocate\<close>

lemma tracker_inv_insert:
  assumes inv: "tracker_inv t" and nxt: "next_handle t < SIZE_MAX"
    and s': "slab_inv s'" "page_size s' = page_size (allocator t)"
    and ps: "distinct ps" "set ps \<inter> live_pages (allocator t) = {}"
      "live_pages s' = live_pages (allocator t) \<union> set ps"
      "length ps = units_for (page_size (allocator t)) sz"
    and sz: "0 < sz" "sz < W64"
  shows "tracker_inv (t \<lparr> allocator := s',
    allocations := (allocations t)(next_handle t \<mapsto> \<lparr> total_size = sz, pages = ps, owner_id = own \<rparr>),
    next_handle := Suc (next_handle t) \<rparr>)" (is "tracker_inv ?t")
proof (rule tracker_invI)
  note d = tracker_invD [OF inv]
  have fresh: "allocations t (next_handle t) = None"
    using d(4) [of "next_handle t"] by (cases "allocations t (next_handle t)") (auto simp: allocation_ok_def)
  show "slab_inv (allocator ?t)" "0 < next_handle ?t" using s' by simp_all
  show "next_handle ?t < W64" using nxt by (simp add: SIZE_MAX_def)
  show "allocation_ok ?t h a" if "allocations ?t h = Some a" for h a
    using that d(2) d(4) [of h a] s' ps sz by (auto simp: allocation_ok_def split: if_splits)
  show "set (pages a) \<inter> set (pages a') = {}"
    if "allocations ?t h = Some a" "allocations ?t h' = Some a'" "h \<noteq> h'" for h h' a a'
    using that ps(2) d(5) [of h a h' a'] d(7) [of h a] d(7) [of h' a'] by (auto split: if_splits)
  show "live_pages (allocator ?t) = (\<Union>a \<in> ran (allocations ?t). set (pages a))"
    using ps(3) d(6) fresh by (auto simp: ran_map_upd)
qed

lemma allocate_refines:
  assumes inv: "tracker_inv t" and nxt: "next_handle t < SIZE_MAX" and sz: "sz < W64"
    and al: "PageTracker_allocate t sz = (r, t')"
  shows "tracker_inv t'" "spec_allocate (store_of t) sz = (r, store_of t')"
proof -
  note d = tracker_invD [OF inv]
  let ?u = "page_size (allocator t)"
  let ?n = "units_for ?u sz"
  have u: "0 < ?u" "?u < W64" using slab_invD(1) [OF d(1)] slab_page_size_less [OF d(1)] by auto
  have nx: "u64_add (next_handle t) 1 = Suc (next_handle t)"
    using nxt by (simp add: u64_simps SIZE_MAX_def)
  have "tracker_inv t' \<and> spec_allocate (store_of t) sz = (r, store_of t')"
  proof (cases "sz = 0 \<or> W64 < sz + ?u \<or> free_pages_count (allocator t) < ?n")
    case True
    then show ?thesis
      using al inv sz u pages_needed_eq [OF u, of sz] allocate_pages_full [of "allocator t" ?n]
      by (auto simp: PageTracker_allocate_def spec_allocate_def Let_def split: if_splits)
  next
    case False
    then have c: "0 < sz" "sz + ?u \<le> W64" "?n \<le> free_pages_count (allocator t)" by auto
    from slab.alloc_ok [OF d(1) c(3)] obtain ps s' where
      s': "allocate_pages (allocator t) ?n = (Inr ps, s')" "slab_inv s'" "length ps = ?n" "distinct ps"
        "set ps \<inter> live_pages (allocator t) = {}" "live_pages s' = live_pages (allocator t) \<union> set ps"
        "page_size s' = ?u" "free_pages_count s' = free_pages_count (allocator t) - ?n"
        "\<forall>q \<in> set ps. page_bytes s' q = replicate ?u 0"
        "\<forall>q \<in> live_pages (allocator t). page_bytes s' q = page_bytes (allocator t) q"
      by auto
    let ?a = "\<lparr> total_size = sz, pages = ps, owner_id = 0 \<rparr>"
    have t': "r = Inr (next_handle t)" "t' = t \<lparr> allocator := s',
        allocations := (allocations t)(next_handle t \<mapsto> ?a), next_handle := Suc (next_handle t) \<rparr>"
      using al c sz s'(1) pages_needed_eq [OF u c(1) sz] nx
      by (auto simp: PageTracker_allocate_def Let_def)
    have "concat (map (page_bytes s') ps) = replicate (?u * length ps) 0"
      using s'(9) by (induction ps) (auto simp: replicate_add)
    then have zero: "block_bytes s' ?a = replicate sz 0"
      using units_for_enough [OF u(1), of sz] s'(3) by (simp add: block_bytes_def min_def)
    have old: "block_bytes s' a = block_bytes (allocator t) a" if "allocations t h = Some a" for h a
      using s'(10) d(7) [OF that] by (intro block_bytes_cong) blast
    have "tracker_inv t'"
      unfolding t'(2) using inv nxt s'(2,7,4,5,6,3) c(1) sz by (rule tracker_inv_insert)
    moreover have "spec_allocate (store_of t) sz = (r, store_of t')"
      using c t' zero old s'(7,8) nx
      by (auto simp: spec_allocate_def map_option_case intro!: store_eqI split: option.splits)
    ultimately show ?thesis by simp
  qed
  then show "tracker_inv t'" "spec_allocate (store_of t) sz = (r, store_of t')" by auto
qed

subsection \<open>Free, ownership and the disconnect sweep\<close>

lemma drop_refines:
  assumes inv: "tracker_inv t" and a: "allocations t h = Some a"
  shows "tracker_inv (drop_allocation t h a)"
    "store_of (drop_allocation t h a) = spec_drop (store_of t) h (block_bytes (allocator t) a)"
proof -
  note d = tracker_invD [OF inv]
  let ?s = "free_pages (allocator t) (pages a)"
  have ok: "allocation_ok t h a" by (rule d(4) [OF a])
  have dis: "set (pages a') \<inter> set (pages a) = {}" if "allocations t h' = Some a'" "h' \<noteq> h" for h' a'
    using d(5) [OF that(1) a that(2)] .
  have live: "(\<Union>a' \<in> ran ((allocations t)(h := None)). set (pages a')) =
      (\<Union>a' \<in> ran (allocations t). set (pages a')) - set (pages a)"
    using dis unfolding ran_remove [of "allocations t", OF a] by (auto simp: ran_def split: if_splits)
  show "tracker_inv (drop_allocation t h a)"
  proof (rule tracker_invI)
    show "slab_inv (allocator (drop_allocation t h a))"
      using slab.release_ok(1) [OF d(1)] by (simp add: drop_allocation_def)
    show "live_pages (allocator (drop_allocation t h a)) =
        (\<Union>a' \<in> ran (allocations (drop_allocation t h a)). set (pages a'))"
      using slab.release_ok(2) [OF d(1), of "pages a"] live d(6) by (simp add: drop_allocation_def)
  qed (use d slab.release_ok(3) [OF d(1), of "pages a"] in
      \<open>auto simp: drop_allocation_def allocation_ok_def split: if_splits\<close>)
  have bytes: "block_bytes ?s a' = block_bytes (allocator t) a'" if "allocations t h' = Some a'" "h' \<noteq> h" for h' a'
    using slab.release_ok(4) [OF d(1)] dis [OF that] d(7) [OF that(1)]
    by (intro block_bytes_cong) blast
  have "free_pages_count ?s = free_pages_count (allocator t) + length (pages a)"
    using d(1) d(7) [OF a] ok by (intro slab.release_ok(5)) (auto simp: allocation_ok_def)
  then show "store_of (drop_allocation t h a) = spec_drop (store_of t) h (block_bytes (allocator t) a)"
    using bytes ok slab.release_ok(3) [OF d(1), of "pages a"] block_facts(3) [OF inv a]
    by (intro store_eqI)
      (auto simp: drop_allocation_def spec_drop_def allocation_ok_def map_option_case split: option.splits)
qed

lemma free_refines:
  assumes inv: "tracker_inv t" and f: "PageTracker_free t h owner = (r, t')"
  shows "tracker_inv t'" "spec_free (store_of t) h owner = (r, store_of t')"
proof -
  have "tracker_inv t' \<and> spec_free (store_of t) h owner = (r, store_of t')"
  proof (cases "allocations t h")
    case None
    then show ?thesis using inv f
      by (auto simp: PageTracker_free_def spec_free_def check_refines check_ownership_def)
  next
    case (Some a)
    then show ?thesis using inv f drop_refines [OF inv Some]
      by (auto simp: PageTracker_free_def spec_free_def check_refines check_ownership_def split: if_splits)
  qed
  then show "tracker_inv t'" "spec_free (store_of t) h owner = (r, store_of t')" by auto
qed

lemma assign_refines:
  assumes inv: "tracker_inv t"
  shows "tracker_inv (assign_owner t h owner)"
    "store_of (assign_owner t h owner) = spec_assign (store_of t) h owner"
proof -
  note d = tracker_invD [OF inv]
  have bytes: "block_bytes s (a \<lparr> owner_id := owner \<rparr>) = block_bytes s a" for s and a :: Allocation
    by (simp add: block_bytes_def)
  show "store_of (assign_owner t h owner) = spec_assign (store_of t) h owner"
    by (auto simp: assign_owner_def spec_assign_def bytes intro!: store_eqI split: option.splits)
  show "tracker_inv (assign_owner t h owner)"
  proof (cases "allocations t h")
    case None
    then show ?thesis using inv by (simp add: assign_owner_def)
  next
    case (Some a)
    have "(\<Union>x \<in> ran ((allocations t)(h \<mapsto> a \<lparr> owner_id := owner \<rparr>)). set (pages x)) =
        (\<Union>x \<in> ran (allocations t). set (pages x))"
      unfolding ran_replace ran_remove [of "allocations t", OF Some] by simp
    moreover have "set (pages x) \<inter> set (pages y) = {}"
      if "allocations (assign_owner t h owner) k = Some x" "allocations (assign_owner t h owner) k' = Some y"
        "k \<noteq> k'" for k k' x y
      using that Some d(5) [of k x k' y] d(5) [OF Some, of k' y] d(5) [of k x h a]
      by (auto simp: assign_owner_def split: if_splits)
    ultimately show ?thesis using Some d(1,2,3,4,6) d(4) [OF Some]
      by (intro tracker_invI) (auto simp: assign_owner_def allocation_ok_def split: if_splits)
  qed
qed

lemma sweep_refines:
  assumes "tracker_inv t"
  shows "tracker_inv (free_all_for_owner order t owner)"
    "store_of (free_all_for_owner order t owner) = spec_sweep order (store_of t) owner"
proof -
  have step: "tracker_inv (sweep_handle owner h t) \<and>
      store_of (sweep_handle owner h t) = spec_sweep1 owner h (store_of t)" if "tracker_inv t" for t h
    using that drop_refines [OF that, of h]
    by (auto simp: sweep_handle_def spec_sweep1_def split: option.splits)
  have "tracker_inv (fold (sweep_handle owner) order t) \<and>
      store_of (fold (sweep_handle owner) order t) = fold (spec_sweep1 owner) order (store_of t)"
    using assms by (induction order arbitrary: t) (auto simp: step)
  then show "tracker_inv (free_all_for_owner order t owner)"
    "store_of (free_all_for_owner order t owner) = spec_sweep order (store_of t) owner"
    using assms by (auto simp: free_all_for_owner_def spec_sweep_def)
qed

section \<open>Facts about the specification\<close>

lemma spec_foreign_keeps:
  assumes "blocks st h = Some (o', bs)" "o' \<noteq> 0" "o' \<noteq> ow"
  shows "spec_write st h1 off d ow = (r, st') \<Longrightarrow> blocks st' h = Some (o', bs)"
    "spec_free st h1 ow = (r, st') \<Longrightarrow> blocks st' h = Some (o', bs)"
  using assms by (auto simp: spec_write_def spec_free_def spec_check_def spec_drop_def
    split: option.splits if_splits prod.splits)

lemma spec_foreign_denied:
  assumes "blocks st h = Some (o', bs)" "o' \<noteq> 0" "o' \<noteq> ow"
  shows "d \<noteq> [] \<Longrightarrow> spec_write st h off d ow = (Inl PermissionDeniedError, st)"
    "n \<noteq> 0 \<Longrightarrow> spec_read st h off n ow = Inl PermissionDeniedError"
    "spec_free st h ow = (Inl PermissionDeniedError, st)"
  using assms by (auto simp: spec_write_def spec_read_def spec_free_def spec_check_def)

lemma spec_allocate_keeps:
  "spec_allocate st n = (r, st') \<Longrightarrow> blocks st h = Some b \<Longrightarrow> h \<noteq> next_block st \<Longrightarrow> blocks st' h = Some b"
  by (auto simp: spec_allocate_def split: if_splits)

lemma spec_sweep_blocks:
  assumes "ow \<noteq> 0" "dom (blocks st) \<subseteq> set order"
  shows "blocks (spec_sweep order st ow) h =
    (case blocks st h of Some (o', bs) \<Rightarrow> if o' = ow then None else Some (o', bs) | None \<Rightarrow> None)"
proof -
  have "blocks (fold (spec_sweep1 ow) ks st) h =
      (case blocks st h of Some (o', bs) \<Rightarrow> if o' = ow \<and> h \<in> set ks then None else Some (o', bs) | None \<Rightarrow> None)"
    for ks
  proof (induction ks arbitrary: st)
    case (Cons k ks)
    have "blocks (spec_sweep1 ow k st) h =
        (case blocks st h of Some (o', bs) \<Rightarrow> if o' = ow \<and> h = k then None else Some (o', bs) | None \<Rightarrow> None)"
      by (auto simp: spec_sweep1_def spec_drop_def split: option.splits)
    then show ?case by (auto simp: Cons.IH split: option.splits if_splits)
  qed (auto split: option.splits)
  then show ?thesis using assms by (auto simp: spec_sweep_def split: option.splits)
qed

section \<open>The contract of a block store\<close>

text \<open>What the wire protocol relies on: each operation keeps the invariant and does to the
  abstract store what the specification says. The client's facts about sequences of
  operations follow from these laws alone.\<close>

locale block_store =
  fixes inv :: "'s \<Rightarrow> bool"
    and abs :: "'s \<Rightarrow> BlockStore"
    and al :: "'s \<Rightarrow> nat \<Rightarrow> (cpp_error + nat) \<times> 's"
    and fr :: "'s \<Rightarrow> nat \<Rightarrow> nat \<Rightarrow> (cpp_error + unit) \<times> 's"
    and wr :: "'s \<Rightarrow> nat \<Rightarrow> nat \<Rightarrow> bytes \<Rightarrow> nat \<Rightarrow> (cpp_error + unit) \<times> 's"
    and rd :: "'s \<Rightarrow> nat \<Rightarrow> nat \<Rightarrow> nat \<Rightarrow> nat \<Rightarrow> cpp_error + bytes"
    and asg :: "'s \<Rightarrow> nat \<Rightarrow> nat \<Rightarrow> 's"
    and sw :: "nat list \<Rightarrow> 's \<Rightarrow> nat \<Rightarrow> 's"
  assumes fresh: "inv s \<Longrightarrow> next_block (abs s) \<le> h \<Longrightarrow> blocks (abs s) h = None"
    and al_ok: "inv s \<Longrightarrow> next_block (abs s) < SIZE_MAX \<Longrightarrow> n < W64 \<Longrightarrow> al s n = (ra, s') \<Longrightarrow>
      inv s' \<and> spec_allocate (abs s) n = (ra, abs s')"
    and fr_ok: "inv s \<Longrightarrow> fr s h ow = (r, s') \<Longrightarrow> inv s' \<and> spec_free (abs s) h ow = (r, abs s')"
    and wr_ok: "inv s \<Longrightarrow> wr s h off d ow = (r, s') \<Longrightarrow>
      inv s' \<and> spec_write (abs s) h off d ow = (r, abs s')"
    and rd_ok: "inv s \<Longrightarrow> rd s h off n ow = spec_read (abs s) h off n ow"
    and asg_ok: "inv s \<Longrightarrow> inv (asg s h ow) \<and> abs (asg s h ow) = spec_assign (abs s) h ow"
    and sw_ok: "inv s \<Longrightarrow> inv (sw order s ow) \<and> abs (sw order s ow) = spec_sweep order (abs s) ow"
begin

lemma write_success:
  assumes "inv s" "wr s h off d ow = (Inr (), s')" "d \<noteq> []"
  shows "\<exists>o' bs. blocks (abs s) h = Some (o', bs) \<and> (o' = 0 \<or> o' = ow) \<and>
    off + length d \<le> length bs \<and>
    abs s' = abs s \<lparr> blocks := (blocks (abs s))(h \<mapsto> (o', blit off d bs)) \<rparr>"
  using wr_ok [OF assms(1,2)] assms(3)
  by (auto simp: spec_write_def spec_check_def split: option.splits if_splits)

lemma read_after_write:
  assumes "inv s" "wr s h off d ow = (Inr (), s')"
  shows "rd s' h off (length d) ow = Inr d"
proof (cases "d = []")
  case True
  then show ?thesis using assms wr_ok [OF assms] by (simp add: rd_ok spec_read_def)
next
  case False
  from write_success [OF assms False] obtain o' bs where
    "blocks (abs s) h = Some (o', bs)" "o' = 0 \<or> o' = ow" "off + length d \<le> length bs"
    "abs s' = abs s \<lparr> blocks := (blocks (abs s))(h \<mapsto> (o', blit off d bs)) \<rparr>" by blast
  then show ?thesis using wr_ok [OF assms] False
    by (auto simp: rd_ok spec_read_def spec_check_def peek_blit_same)
qed

lemma read_after_write_disjoint:
  assumes "inv s" "wr s h off d ow = (Inr (), s')"
    and "h' \<noteq> h \<or> off' + n \<le> off \<or> off + length d \<le> off'"
  shows "rd s' h' off' n ow' = rd s h' off' n ow'"
proof (cases "d = []")
  case True
  then show ?thesis using assms wr_ok [OF assms(1,2)] by (simp add: rd_ok spec_write_def)
next
  case False
  from write_success [OF assms(1,2) False] obtain o' bs where
    "blocks (abs s) h = Some (o', bs)" "off + length d \<le> length bs"
    "abs s' = abs s \<lparr> blocks := (blocks (abs s))(h \<mapsto> (o', blit off d bs)) \<rparr>" by blast
  then show ?thesis using wr_ok [OF assms(1,2)] assms(1,3)
    by (auto simp: rd_ok spec_read_def spec_check_def peek_blit_disjoint split: option.splits)
qed

text \<open>A block owned by one session is out of reach of every other session.\<close>

lemma foreign_access_denied:
  assumes "inv s" "blocks (abs s) h = Some (o', bs)" "o' \<noteq> 0" "o' \<noteq> ow"
  shows "d \<noteq> [] \<Longrightarrow> wr s h off d ow = (r, s') \<Longrightarrow> r = Inl PermissionDeniedError \<and> abs s' = abs s"
    "n \<noteq> 0 \<Longrightarrow> rd s h off n ow = Inl PermissionDeniedError"
    "fr s h ow = (r, s') \<Longrightarrow> r = Inl PermissionDeniedError \<and> abs s' = abs s"
  using wr_ok [OF assms(1), of h off d ow r s'] fr_ok [OF assms(1), of h ow r s']
    spec_foreign_denied [OF assms(2-4)] assms(1) by (simp_all add: rd_ok)

lemma foreign_keeps:
  assumes "inv s" "blocks (abs s) h = Some (o', bs)" "o' \<noteq> 0" "o' \<noteq> ow"
  shows "wr s h1 off d ow = (r, s') \<Longrightarrow> blocks (abs s') h = Some (o', bs)"
    "fr s h1 ow = (r, s') \<Longrightarrow> blocks (abs s') h = Some (o', bs)"
  using wr_ok [OF assms(1)] fr_ok [OF assms(1)] spec_foreign_keeps [OF assms(2-4)] by blast+

lemma allocate_keeps:
  assumes "inv s" "next_block (abs s) < SIZE_MAX" "n < W64" "al s n = (ra, s')" "blocks (abs s) h = Some b"
  shows "blocks (abs s') h = Some b"
  using al_ok [OF assms(1-4)] fresh [OF assms(1), of h] assms(5) spec_allocate_keeps
  by (metis order_refl option.distinct(1))

lemma sweep_exact:
  assumes "inv s" "ow \<noteq> 0" "dom (blocks (abs s)) \<subseteq> set order"
  shows "blocks (abs (sw order s ow)) h =
    (case blocks (abs s) h of Some (o', bs) \<Rightarrow> if o' = ow then None else Some (o', bs) | None \<Rightarrow> None)"
  using sw_ok [OF assms(1)] spec_sweep_blocks [OF assms(2,3)] by simp

end

interpretation tracker: block_store tracker_inv store_of PageTracker_allocate PageTracker_free
  PageTracker_write PageTracker_read assign_owner free_all_for_owner
proof unfold_locales
  fix t h assume "tracker_inv t" "next_block (store_of t) \<le> h"
  then show "blocks (store_of t) h = None"
    using tracker_invD(4) [of t h] by (cases "allocations t h") (auto simp: allocation_ok_def)
next
  fix t t' :: PageTracker and n and r :: "cpp_error + nat"
  assume a: "tracker_inv t" "next_block (store_of t) < SIZE_MAX" "n < W64" "PageTracker_allocate t n = (r, t')"
  have b: "next_handle t < SIZE_MAX" using a(2) by (simp only: store_of_simps)
  show "tracker_inv t' \<and> spec_allocate (store_of t) n = (r, store_of t')"
    using allocate_refines [OF a(1) b a(3,4)] by (rule conjI)
qed (rule conjI [OF free_refines] conjI [OF write_refines] read_refines conjI [OF assign_refines]
  conjI [OF sweep_refines]; assumption)+

section \<open>A small tracker for the witnesses\<close>

text \<open>A slab of four pages of four bytes.\<close>

definition demo_slab :: SlabAllocator where
  "demo_slab = \<lparr> page_size = 4, total_pages = 4, buffer = replicate 16 0,
     page_states = replicate 4 FREE, free_list = [3, 2, 1, 0] \<rparr>"

definition demo_tracker :: PageTracker where
  "demo_tracker = \<lparr> allocator = demo_slab, allocations = Map.empty, next_handle = 1 \<rparr>"

lemma demo_slab_new: "SlabAllocator_new (\<lambda>_. True) (\<lambda>_. 0) 16 4 = Inr demo_slab"
proof -
  have "\<not> SIZE_MAX div 4 < 4" by (simp add: SIZE_MAX_def W64_def)
  moreover have "rev [0..<4] = [3, 2, 1, 0 :: nat]" by code_simp
  moreover have "map (\<lambda>_. 0) [0..<16] = replicate 16 (0 :: byte)" by (simp add: map_replicate_const)
  ultimately show ?thesis by (simp add: SlabAllocator_new_def demo_slab_def)
qed

lemma demo_inv: "tracker_inv demo_tracker" "next_handle demo_tracker = 1"
proof -
  have "PageTracker_new (Some demo_slab) = Inr demo_tracker"
    by (simp add: PageTracker_new_def demo_tracker_def)
  then show "tracker_inv demo_tracker"
    using SlabAllocator_new_inv [OF demo_slab_new] PageTracker_new_inv by blast
  show "next_handle demo_tracker = 1" by (simp add: demo_tracker_def)
qed


text \<open>The tracker after an allocation of six bytes.\<close>

definition demo_alloc :: PageTracker where
  "demo_alloc = snd (PageTracker_allocate demo_tracker 6)"

lemma demo_alloc_inv: "tracker_inv demo_alloc"
proof -
  obtain r where "PageTracker_allocate demo_tracker 6 = (r, demo_alloc)"
    by (metis demo_alloc_def prod.collapse)
  from tracker.al_ok [OF demo_inv(1) _ _ this] show ?thesis
    using demo_inv(2) by (simp add: SIZE_MAX_def W64_def)
qed

lemma no_leak:
  assumes "tracker_inv t" "allocations t = Map.empty"
  shows "free_pages_count (allocator t) = total_pages (allocator t)"
  using free_plus_live [OF tracker_invD(1) [OF assms(1)]] tracker_invD(6) [OF assms(1)] assms(2) by simp

section \<open>Properties\<close>

text \<open>Property C2. The tracker implements the block store: allocation, write, read, free, owner
  assignment and the disconnect sweep return what the specification returns on the
  abstract store, and lead to the state the specification leads to, on every branch.\<close>

theorem tracker_refines_store:
  assumes "tracker_inv t" "next_handle t < SIZE_MAX" "sz < W64"
  shows "spec_allocate (store_of t) sz =
      (fst (PageTracker_allocate t sz), store_of (snd (PageTracker_allocate t sz))) \<and>
    spec_write (store_of t) h off d ow =
      (fst (PageTracker_write t h off d ow), store_of (snd (PageTracker_write t h off d ow))) \<and>
    spec_read (store_of t) h off n ow = PageTracker_read t h off n ow \<and>
    spec_free (store_of t) h ow = (fst (PageTracker_free t h ow), store_of (snd (PageTracker_free t h ow))) \<and>
    spec_assign (store_of t) h ow = store_of (assign_owner t h ow) \<and>
    spec_sweep order (store_of t) ow = store_of (free_all_for_owner order t ow)"
  using assms
  by (intro conjI allocate_refines(2) write_refines(2) read_refines [symmetric] free_refines(2)
    assign_refines(2) [symmetric] sweep_refines(2) [symmetric]) (assumption | rule prod.collapse [symmetric])+

theorem tracker_refines_store_witness:
  "spec_write (store_of demo_alloc) 1 2 [7, 8] 5 =
     (fst (PageTracker_write demo_alloc 1 2 [7, 8] 5), store_of (snd (PageTracker_write demo_alloc 1 2 [7, 8] 5)))"
proof -
  have "next_handle demo_alloc < SIZE_MAX" "(6 :: nat) < W64" by code_simp+
  from tracker_refines_store [OF demo_alloc_inv this] show ?thesis by blast
qed

text \<open>Bytes written at an offset of a block are read back, across page
  boundaries, and a successful write changes no other range of any block.\<close>

lemma tracker_write_read:
  assumes "tracker_inv t" "fst (PageTracker_write t h off d ow) = Inr ()"
  shows "PageTracker_read (snd (PageTracker_write t h off d ow)) h off (length d) ow = Inr d \<and>
    (h' \<noteq> h \<or> off' + n \<le> off \<or> off + length d \<le> off' \<longrightarrow>
     PageTracker_read (snd (PageTracker_write t h off d ow)) h' off' n ow' = PageTracker_read t h' off' n ow')"
proof -
  have w: "PageTracker_write t h off d ow = (Inr (), snd (PageTracker_write t h off d ow))"
    using assms(2) by (metis prod.collapse)
  show ?thesis
    using tracker.read_after_write [OF assms(1) w] tracker.read_after_write_disjoint [OF assms(1) w] by simp
qed

text \<open>Property C34. When a session disconnects, the sweep removes exactly the blocks the session
  owns, whatever order the hash map iterates in; every other block keeps its owner and bytes.\<close>

theorem disconnect_sweep_exact:
  assumes "tracker_inv t" "ow \<noteq> 0" "dom (allocations t) \<subseteq> set order"
  shows "blocks (store_of (free_all_for_owner order t ow)) h =
    (case blocks (store_of t) h of
       Some (o', bs) \<Rightarrow> if o' = ow then None else Some (o', bs) | None \<Rightarrow> None)"
proof -
  have "dom (blocks (store_of t)) \<subseteq> set order" using assms(3) by (simp only: dom_store)
  from tracker.sweep_exact [OF assms(1,2) this] show ?thesis .
qed

theorem disconnect_sweep_exact_witness:
  "blocks (store_of (free_all_for_owner [1] (assign_owner demo_alloc 1 5) 5)) 1 = None"
proof -
  have d: "dom (allocations (assign_owner demo_alloc 1 5)) \<subseteq> set [1]"
    by (auto simp: demo_alloc_def demo_tracker_def PageTracker_allocate_def assign_owner_def Let_def
      split: if_splits prod.splits sum.splits option.splits)
  have b: "blocks (store_of (assign_owner demo_alloc 1 5)) 1 = Some (5, [0, 0, 0, 0, 0, 0])" by code_simp
  from disconnect_sweep_exact [OF assign_refines(1) [OF demo_alloc_inv] _ d, of 5 1] show ?thesis
    unfolding b by simp
qed

text \<open>Nothing leaks: once every block of a pool used by one session is swept, all
  pages of the slab are free again.\<close>

lemma disconnect_returns_all_pages:
  assumes "tracker_inv t" "ow \<noteq> 0" "dom (allocations t) \<subseteq> set order"
    and "\<forall>h a. allocations t h = Some a \<longrightarrow> owner_id a = ow"
  shows "free_pages_count (allocator (free_all_for_owner order t ow)) =
    total_pages (allocator (free_all_for_owner order t ow))"
proof (rule no_leak)
  let ?t = "free_all_for_owner order t ow"
  show "tracker_inv ?t" using assms(1) by (rule sweep_refines(1))
  have "dom (blocks (store_of t)) \<subseteq> set order" using assms(3) by (simp only: dom_store)
  from tracker.sweep_exact [OF assms(1,2) this] have "blocks (store_of ?t) h = None" for h
    using assms(4) by (auto split: option.splits)
  then show "allocations ?t = Map.empty" by auto
qed

end
