(* ===== verification/Crc32c.thy ===== *)
theory Crc32c
  imports Prelude
begin

text \<open>
  CRC32C (\<open>common/src/crc32c.cpp\<close>): the table generator, the table-driven software loop
  and the SSE 4.2 path. The reference definition is the bit-serial shift register. The
  lemmas show that the table-driven step is eight steps of the register, that the
  register is a linear permutation of the 32-bit states, and hence that a checksum
  detects every corruption confined to one byte. The two hardware instructions are
  parameters of the SSE path.
\<close>

type_synonym crc = "32 word"

definition crc32c_poly :: crc where
  "crc32c_poly = 0x82F63B78"

section \<open>Table generation\<close>

definition crc_shift :: "crc \<Rightarrow> crc" where
  "crc_shift crc =
     (if crc AND 1 \<noteq> 0 then drop_bit 1 crc XOR crc32c_poly else drop_bit 1 crc)"

fun crc_shifts :: "nat \<Rightarrow> crc \<Rightarrow> crc" where
  "crc_shifts 0 crc = crc"
| "crc_shifts (Suc j) crc = crc_shifts j (crc_shift crc)"

definition generate_crc32c_table :: "crc list" where
  "generate_crc32c_table = map (\<lambda>i. crc_shifts 8 (of_nat i)) [0..<256]"

definition crc32c_table :: "crc list" where
  "crc32c_table = generate_crc32c_table"

section \<open>The software loop\<close>

definition crc_table_step :: "crc \<Rightarrow> byte \<Rightarrow> crc" where
  "crc_table_step crc b =
     crc32c_table ! unat ((crc XOR ucast b) AND 0xFF) XOR drop_bit 8 crc"

fun crc_soft_loop :: "crc \<Rightarrow> bytes \<Rightarrow> crc" where
  "crc_soft_loop crc [] = crc"
| "crc_soft_loop crc (b # bs) = crc_soft_loop (crc_table_step crc b) bs"

definition crc32c_from :: "bytes \<Rightarrow> crc \<Rightarrow> crc" where
  "crc32c_from data initial_crc = NOT (crc_soft_loop (NOT initial_crc) data)"

definition crc32c :: "bytes \<Rightarrow> crc" where
  "crc32c data = crc32c_from data 0"

section \<open>The SSE 4.2 path\<close>

text \<open>\<open>mm_crc32_u64\<close> takes the eight bytes of the block in memory order and returns the
  64-bit result that the code narrows; \<open>mm_crc32_u8\<close> takes one byte.\<close>

fun crc_hw_blocks :: "(crc \<Rightarrow> bytes \<Rightarrow> 64 word) \<Rightarrow> nat \<Rightarrow> crc \<Rightarrow> bytes \<Rightarrow> crc" where
  "crc_hw_blocks mm_crc32_u64 0 crc data = crc"
| "crc_hw_blocks mm_crc32_u64 (Suc num_blocks) crc data =
     crc_hw_blocks mm_crc32_u64 num_blocks (ucast (mm_crc32_u64 crc (take 8 data))) (drop 8 data)"

fun crc_hw_tail :: "(crc \<Rightarrow> byte \<Rightarrow> crc) \<Rightarrow> crc \<Rightarrow> bytes \<Rightarrow> crc" where
  "crc_hw_tail mm_crc32_u8 crc [] = crc"
| "crc_hw_tail mm_crc32_u8 crc (b # bs) = crc_hw_tail mm_crc32_u8 (mm_crc32_u8 crc b) bs"

definition crc32c_sse42 ::
    "(crc \<Rightarrow> bytes \<Rightarrow> 64 word) \<Rightarrow> (crc \<Rightarrow> byte \<Rightarrow> crc) \<Rightarrow> bytes \<Rightarrow> crc \<Rightarrow> crc" where
  "crc32c_sse42 mm_crc32_u64 mm_crc32_u8 data initial_crc =
     (let num_blocks = length data div 8;
          crc = crc_hw_blocks mm_crc32_u64 num_blocks (NOT initial_crc) data
      in NOT (crc_hw_tail mm_crc32_u8 crc (drop (num_blocks * 8) data)))"

section \<open>Reference: the bit-serial register\<close>

definition crc_bit_step :: "crc \<Rightarrow> byte \<Rightarrow> crc" where
  "crc_bit_step crc b = crc_shifts 8 (crc XOR ucast b)"

fun crc_bit_loop :: "crc \<Rightarrow> bytes \<Rightarrow> crc" where
  "crc_bit_loop crc [] = crc"
| "crc_bit_loop crc (b # bs) = crc_bit_loop (crc_bit_step crc b) bs"

definition crc32c_reference :: "bytes \<Rightarrow> crc \<Rightarrow> crc" where
  "crc32c_reference data initial_crc = NOT (crc_bit_loop (NOT initial_crc) data)"

subsection \<open>The register is linear and injective\<close>

lemma and_one_eq_bit: "(crc AND 1 \<noteq> 0) = bit (crc :: crc) 0"
  by (simp add: bit_0 and_one_eq odd_iff_mod_2_eq_one)

lemma bit_crc32c_poly_31: "bit crc32c_poly 31"
  by (simp add: crc32c_poly_def)

lemma crc_shift_xor: "crc_shift (x XOR y) = crc_shift x XOR crc_shift y"
proof -
  have b: "bit (x XOR y) 0 = (bit x 0 \<noteq> bit y 0)" by (simp add: bit_xor_iff)
  have cancel: "(a XOR p) XOR (c XOR p) = a XOR c" for a c p :: crc
    by (metis xor.assoc xor.commute xor.left_neutral xor_self_eq)
  show ?thesis
    by (cases "bit x 0"; cases "bit y 0")
      (simp_all add: crc_shift_def and_one_eq_bit b drop_bit_xor cancel xor.assoc xor.commute
        xor.left_commute)
qed

lemma crc_shifts_xor: "crc_shifts n (x XOR y) = crc_shifts n x XOR crc_shifts n y"
  by (induction n arbitrary: x y) (auto simp: crc_shift_xor)

lemma bit_crc_shift_31: "bit (crc_shift c) 31 = bit c 0"
proof -
  have "\<not> bit c 32" by (auto dest: bit_imp_le_length)
  then show ?thesis
    using bit_crc32c_poly_31 by (simp add: crc_shift_def and_one_eq_bit bit_simps)
qed

lemma crc_shift_inject: "crc_shift x = crc_shift y \<Longrightarrow> x = y"
proof -
  assume eq: "crc_shift x = crc_shift y"
  then have b0: "bit x 0 = bit y 0" using bit_crc_shift_31 by metis
  then have dx: "drop_bit 1 x = drop_bit 1 y"
  proof (cases "bit x 0")
    case True
    then have "drop_bit 1 x XOR crc32c_poly = drop_bit 1 y XOR crc32c_poly"
      using eq b0 by (simp add: crc_shift_def and_one_eq_bit)
    then have "(drop_bit 1 x XOR crc32c_poly) XOR crc32c_poly = (drop_bit 1 y XOR crc32c_poly) XOR crc32c_poly"
      by simp
    then show ?thesis by (simp add: xor.assoc)
  next
    case False
    then show ?thesis using eq b0 by (simp add: crc_shift_def and_one_eq_bit)
  qed
  show "x = y"
  proof (rule bit_word_eqI)
    fix n assume "n < LENGTH(32)"
    show "bit x n = bit y n"
    proof (cases n)
      case 0
      then show ?thesis using b0 by simp
    next
      case (Suc m)
      have "bit (drop_bit 1 x) m = bit (drop_bit 1 y) m" using dx by simp
      then show ?thesis using Suc by (simp add: bit_simps)
    qed
  qed
qed

lemma crc_shifts_inject: "crc_shifts n x = crc_shifts n y \<Longrightarrow> x = y"
  by (induction n arbitrary: x y) (auto dest: crc_shift_inject)

lemma crc_shifts_high:
  "(\<And>i. i < n \<Longrightarrow> \<not> bit c i) \<Longrightarrow> crc_shifts n c = drop_bit n c"
proof (induction n arbitrary: c)
  case 0
  then show ?case by simp
next
  case (Suc n)
  have s: "crc_shift c = drop_bit 1 c"
    using Suc.prems [of 0] by (simp add: crc_shift_def and_one_eq_bit)
  have "crc_shifts n (drop_bit 1 c) = drop_bit n (drop_bit 1 c)"
    using Suc.prems by (intro Suc.IH) (auto simp: bit_simps)
  then show ?case using s by (simp add: drop_bit_drop_bit)
qed

lemma low_mask: "(0xFF :: crc) = mask 8"
  by (simp add: mask_eq_exp_minus_1)

lemma split_low_high: "(c :: crc) = (c AND 0xFF) XOR (c AND NOT 0xFF)"
  unfolding low_mask by (rule bit_word_eqI) (auto simp: bit_simps)

subsection \<open>The table-driven step is eight register steps\<close>

lemma crc_table_nth: "i < 256 \<Longrightarrow> crc32c_table ! i = crc_shifts 8 (of_nat i)"
  by (simp only: crc32c_table_def generate_crc32c_table_def nth_map length_upt nth_upt
      diff_zero add_0)

lemma low_byte_bound: "unat ((c :: crc) AND 0xFF) < 256"
proof -
  have "unat (c AND 0xFF) \<le> unat (0xFF :: crc)"
    by (rule word_and_le1 [THEN word_le_nat_alt [THEN iffD1]])
  then show ?thesis by simp
qed

lemma crc_table_step_bit: "crc_table_step crc b = crc_bit_step crc b"
proof -
  let ?c = "crc XOR ucast b"
  have "crc32c_table ! unat (?c AND 0xFF) = crc_shifts 8 (?c AND 0xFF)"
    using low_byte_bound by (simp add: crc_table_nth)
  moreover have "crc_shifts 8 (?c AND NOT 0xFF) = drop_bit 8 (?c AND NOT 0xFF)"
    unfolding low_mask by (rule crc_shifts_high) (simp add: bit_simps)
  moreover have "drop_bit 8 (?c AND NOT 0xFF) = drop_bit 8 crc"
    unfolding low_mask by (rule bit_word_eqI) (auto simp: bit_simps dest: bit_imp_le_length)
  moreover have "crc_shifts 8 ?c = crc_shifts 8 (?c AND 0xFF) XOR crc_shifts 8 (?c AND NOT 0xFF)"
    using split_low_high [of ?c] crc_shifts_xor by metis
  ultimately show ?thesis by (simp add: crc_table_step_def crc_bit_step_def)
qed

lemma crc_soft_loop_bit: "crc_soft_loop crc data = crc_bit_loop crc data"
  by (induction data arbitrary: crc) (auto simp: crc_table_step_bit)

lemma crc_bit_loop_append: "crc_bit_loop crc (xs @ ys) = crc_bit_loop (crc_bit_loop crc xs) ys"
  by (induction xs arbitrary: crc) auto

lemma crc_bit_step_inject_crc: "crc_bit_step c b = crc_bit_step c' b \<Longrightarrow> c = c'"
proof -
  assume "crc_bit_step c b = crc_bit_step c' b"
  then have "c XOR ucast b = c' XOR ucast b"
    unfolding crc_bit_step_def by (rule crc_shifts_inject)
  then have "(c XOR ucast b) XOR ucast b = (c' XOR ucast b) XOR ucast b" by simp
  then show "c = c'" by (simp add: xor.assoc)
qed

lemma crc_bit_step_inject_byte: "crc_bit_step c b = crc_bit_step c b' \<Longrightarrow> b = b'"
proof -
  assume "crc_bit_step c b = crc_bit_step c b'"
  then have "c XOR ucast b = c XOR ucast b'"
    unfolding crc_bit_step_def by (rule crc_shifts_inject)
  then have "c XOR (c XOR ucast b) = c XOR (c XOR ucast b')" by simp
  then have "(ucast b :: crc) = ucast b'" by (simp add: xor.assoc [symmetric])
  then have eq: "bit (ucast b :: crc) n = bit (ucast b' :: crc) n" for n by simp
  show "b = b'"
  proof (rule bit_word_eqI)
    fix n assume "n < LENGTH(8)"
    then show "bit b n = bit b' n" using eq [of n] by (simp add: bit_ucast_iff)
  qed
qed

lemma crc_bit_loop_inject: "crc_bit_loop c xs = crc_bit_loop c' xs \<Longrightarrow> c = c'"
  by (induction xs arbitrary: c c') (auto dest: crc_bit_step_inject_crc)

subsection \<open>The hardware path\<close>

lemma crc_hw_blocks_bit:
  assumes hw: "\<And>c bs. length bs = 8 \<Longrightarrow> ucast (mm_crc32_u64 c bs) = crc_bit_loop c bs"
  shows "n * 8 \<le> length data \<Longrightarrow>
    crc_hw_blocks mm_crc32_u64 n crc data = crc_bit_loop crc (take (n * 8) data)"
proof (induction n arbitrary: crc data)
  case 0
  then show ?case by simp
next
  case (Suc n)
  have len: "length (take 8 data) = 8" "n * 8 \<le> length (drop 8 data)"
    using Suc.prems by auto
  have "take (Suc n * 8) data = take 8 data @ take (n * 8) (drop 8 data)"
    by (simp add: take_add [symmetric])
  then show ?case using len Suc.IH hw by (simp add: crc_bit_loop_append)
qed

lemma crc_hw_tail_bit:
  assumes hw: "\<And>c b. mm_crc32_u8 c b = crc_bit_step c b"
  shows "crc_hw_tail mm_crc32_u8 crc data = crc_bit_loop crc data"
  by (induction data arbitrary: crc) (auto simp: hw)

section \<open>Properties\<close>

text \<open>Property C30. The table-driven loop of \<open>crc32c()\<close> computes the bit-serial CRC32C
  register (polynomial 0x82F63B78, reflected) on every input and every initial value.\<close>

theorem crc32c_matches_reference:
  "crc32c_from data initial_crc = crc32c_reference data initial_crc"
  by (simp add: crc32c_from_def crc32c_reference_def crc_soft_loop_bit)

text \<open>Property C31. A corruption confined to one byte always changes the checksum: the
  daemon's CHECKSUM_MISMATCH test cannot miss it.\<close>

theorem crc32c_detects_single_byte:
  assumes "b \<noteq> b'"
  shows "crc32c_from (xs @ b # ys) initial_crc \<noteq> crc32c_from (xs @ b' # ys) initial_crc"
proof
  assume "crc32c_from (xs @ b # ys) initial_crc = crc32c_from (xs @ b' # ys) initial_crc"
  then have "NOT (NOT (crc_bit_loop (NOT initial_crc) (xs @ b # ys))) =
      NOT (NOT (crc_bit_loop (NOT initial_crc) (xs @ b' # ys)))"
    by (simp only: crc32c_from_def crc_soft_loop_bit)
  then have "crc_bit_loop (crc_bit_step (crc_bit_loop (NOT initial_crc) xs) b) ys =
      crc_bit_loop (crc_bit_step (crc_bit_loop (NOT initial_crc) xs) b') ys"
    by (simp add: crc_bit_loop_append)
  then have "b = b'" by (blast dest: crc_bit_loop_inject crc_bit_step_inject_byte)
  then show False using assms by simp
qed

theorem crc32c_detects_single_byte_witness:
  "(7 :: byte) \<noteq> 9 \<and> crc32c_from ([1] @ 7 # [2]) 0 \<noteq> crc32c_from ([1] @ 9 # [2]) 0"
  using crc32c_detects_single_byte [of 7 9 "[1]" "[2]" 0] by simp

text \<open>The checksum can be continued over a split payload: passing the
  checksum of a prefix as \<open>initial_crc\<close> gives the checksum of the whole.\<close>

lemma crc32c_chains:
  "crc32c_from (xs @ ys) initial_crc = crc32c_from ys (crc32c_from xs initial_crc)"
  by (simp add: crc32c_from_def crc_soft_loop_bit crc_bit_loop_append)

text \<open>Property C32. Where the SSE 4.2 instructions accumulate the CRC32C register (one byte,
  and eight bytes in memory order), the hardware path and the software path of \<open>crc32c()\<close>
  return the same checksum, block loop and tail loop together.\<close>

theorem crc32c_hardware_equivalent:
  assumes u64: "\<And>c bs. length bs = 8 \<Longrightarrow> ucast (mm_crc32_u64 c bs) = crc_bit_loop c bs"
    and u8: "\<And>c b. mm_crc32_u8 c b = crc_bit_step c b"
  shows "crc32c_sse42 mm_crc32_u64 mm_crc32_u8 data initial_crc = crc32c_from data initial_crc"
proof -
  let ?n = "length data div 8"
  have "crc_hw_blocks mm_crc32_u64 ?n (NOT initial_crc) data =
      crc_bit_loop (NOT initial_crc) (take (?n * 8) data)"
    by (rule crc_hw_blocks_bit [OF u64]) simp_all
  moreover have "crc_bit_loop (NOT initial_crc) data =
      crc_bit_loop (crc_bit_loop (NOT initial_crc) (take (?n * 8) data)) (drop (?n * 8) data)"
    by (simp only: crc_bit_loop_append [symmetric] append_take_drop_id)
  ultimately show ?thesis
    by (simp only: crc32c_sse42_def crc32c_from_def crc_soft_loop_bit Let_def crc_hw_tail_bit [OF u8])
qed

theorem crc32c_hardware_equivalent_witness:
  "crc32c_sse42 (\<lambda>c bs. ucast (crc_bit_loop c bs)) crc_bit_step [1, 2, 3, 4, 5, 6, 7, 8, 9] 0 =
   crc32c_from [1, 2, 3, 4, 5, 6, 7, 8, 9] 0"
  by (rule crc32c_hardware_equivalent) (simp_all add: ucast_up_ucast_id is_up)

end
