(* ===== verification/Common.thy ===== *)
theory Common
  imports Prelude
begin

text \<open>
  The small shared pieces of \<open>common/\<close>: message limits and the protocol version
  (\<open>types.h\<close>, \<open>protocol_version.h\<close>), node identifiers with their printed form and hash
  (\<open>types.h\<close>, \<open>uuid.cpp\<close>), and the configuration accessors (\<open>config.h\<close>, \<open>config.cpp\<close>) over
  a parsed TOML table, which is a parameter.
\<close>

section \<open>Limits and version\<close>

type_synonym uint16 = "16 word"
type_synonym uint32 = "32 word"
type_synonym uint64 = "64 word"

definition MAX_MESSAGE_SIZE :: nat where
  "MAX_MESSAGE_SIZE = 64 * 1024 * 1024"

definition MEMINFO_PROTOCOL_VERSION :: uint16 where
  "MEMINFO_PROTOCOL_VERSION = 1"

definition check_protocol_version :: "uint16 \<Rightarrow> bool" where
  "check_protocol_version received \<longleftrightarrow> received = MEMINFO_PROTOCOL_VERSION"

lemma uint64_bound [simp]: "unat (x :: uint64) < W64"
  unfolding W64_def using unsigned_less [of x] by simp

section \<open>Node identifiers\<close>

type_synonym node_id_t = bytes

definition hex_digit :: "nat \<Rightarrow> char" where
  "hex_digit n = ''0123456789abcdef'' ! n"

text \<open>\<open>setw(2)\<close> with fill \<open>0\<close> in hex: two digits, the high one first.\<close>

definition hex_byte :: "byte \<Rightarrow> string" where
  "hex_byte b = [hex_digit (unat b div 16), hex_digit (unat b mod 16)]"

primrec to_string_from :: "nat \<Rightarrow> bytes \<Rightarrow> string" where
  "to_string_from i [] = []"
| "to_string_from i (b # bs) =
    hex_byte b @ (if i = 3 \<or> i = 5 \<or> i = 7 \<or> i = 9 then ''-'' else []) @ to_string_from (Suc i) bs"

definition to_string :: "node_id_t \<Rightarrow> string" where
  "to_string nid = to_string_from 0 nid"

text \<open>The bucket hash; \<open>hash_byte\<close> is the library's \<open>std::hash<uint8_t>\<close>.\<close>

definition node_id_hash :: "(byte \<Rightarrow> uint64) \<Rightarrow> node_id_t \<Rightarrow> uint64" where
  "node_id_hash hash_byte nid =
    fold (\<lambda>b h. h XOR (hash_byte b + 0x9e3779b9 + push_bit 6 h + drop_bit 2 h)) nid 0"

definition generate_uuid :: "(nat \<Rightarrow> bytes) \<Rightarrow> node_id_t" where
  "generate_uuid random_bytes =
    (let uuid = random_bytes 16;
         uuid = uuid[6 := (uuid ! 6 AND 0x0f) OR 0x40]
     in uuid[8 := (uuid ! 8 AND 0x3f) OR 0x80])"

section \<open>Configuration\<close>

text \<open>\<open>table_[section][key]\<close> is a lookup in the parsed file, \<open>value_as\<close> the library's
  conversion of a node to the requested type.\<close>

type_synonym 'node toml_table = "string \<Rightarrow> string \<Rightarrow> 'node option"

definition Config_get ::
  "'node toml_table \<Rightarrow> ('node \<Rightarrow> 'a option) \<Rightarrow> string \<Rightarrow> string \<Rightarrow> 'a \<Rightarrow> 'a" where
  "Config_get table value_as sect key default_val =
    (case table sect key of
      Some node \<Rightarrow> (case value_as node of Some v \<Rightarrow> v | None \<Rightarrow> default_val)
    | None \<Rightarrow> default_val)"

definition Config_has :: "'node toml_table \<Rightarrow> string \<Rightarrow> string \<Rightarrow> bool" where
  "Config_has table sect key \<longleftrightarrow> table sect key \<noteq> None"

section \<open>Decimal printing\<close>

text \<open>\<open>std::to_string\<close> on an unsigned number.\<close>

fun show_nat :: "nat \<Rightarrow> string" where
  "show_nat n = (if n < 10 then [hex_digit n] else show_nat (n div 10) @ [hex_digit (n mod 10)])"

declare show_nat.simps [simp del]

section \<open>Lemmas\<close>

lemma hex_digit_inject:
  assumes "m < 16" "n < 16" "hex_digit m = hex_digit n"
  shows "m = n"
proof -
  have "distinct ''0123456789abcdef''" by simp
  then show ?thesis using assms unfolding hex_digit_def by (subst (asm) nth_eq_iff_index_eq) simp_all
qed

lemma hex_byte_inject: "hex_byte a = hex_byte b \<longleftrightarrow> a = b"
proof
  assume "hex_byte a = hex_byte b"
  then have "hex_digit (unat a div 16) = hex_digit (unat b div 16)"
      "hex_digit (unat a mod 16) = hex_digit (unat b mod 16)"
    by (simp_all add: hex_byte_def)
  moreover have "unat a < 256" "unat b < 256" using unsigned_less [of a] unsigned_less [of b] by simp_all
  ultimately have "unat a div 16 = unat b div 16" "unat a mod 16 = unat b mod 16"
    using hex_digit_inject by (simp_all add: less_mult_imp_div_less)
  then have "unat a = unat b" by (metis div_mult_mod_eq)
  then show "a = b" by (rule unsigned_word_eqI)
qed simp

lemma length_hex_byte [simp]: "length (hex_byte b) = 2"
  by (simp add: hex_byte_def)

lemma to_string_from_inject:
  "length xs = length ys \<Longrightarrow> to_string_from i xs = to_string_from i ys \<Longrightarrow> xs = ys"
proof (induction xs ys arbitrary: i rule: list_induct2)
  case Nil
  then show ?case by simp
next
  case (Cons x xs y ys)
  from Cons.prems have "hex_byte x = hex_byte y" "to_string_from (Suc i) xs = to_string_from (Suc i) ys"
    by (auto split: if_splits)
  then show ?case using Cons.IH by (simp add: hex_byte_inject)
qed

lemma length_to_string:
  assumes "length nid = 16" shows "length (to_string nid) = 36"
proof -
  obtain a b c d e f g h i j k l m n p q where "nid = [a, b, c, d, e, f, g, h, i, j, k, l, m, n, p, q]"
    using assms by (auto simp: numeral_eq_Suc length_Suc_conv)
  then show ?thesis by (simp add: to_string_def)
qed

lemma show_nat_inject: "show_nat m = show_nat n \<Longrightarrow> m = n"
proof (induction m arbitrary: n rule: less_induct)
  case (less m)
  have ne: "show_nat k \<noteq> []" for k by (subst show_nat.simps) auto
  show ?case
  proof (cases "m < 10 \<or> n < 10")
    case True
    then show ?thesis
      using less.prems ne [of "m div 10"] ne [of "n div 10"] hex_digit_inject [of m n]
      by (auto simp: show_nat.simps [of m] show_nat.simps [of n] split: if_splits)
  next
    case False
    then have "show_nat (m div 10) = show_nat (n div 10)" "hex_digit (m mod 10) = hex_digit (n mod 10)"
      using less.prems by (auto simp: show_nat.simps [of m] show_nat.simps [of n])
    then have "m div 10 = n div 10" "m mod 10 = n mod 10"
      using less.IH [of "m div 10" "n div 10"] False hex_digit_inject [of "m mod 10" "n mod 10"] by auto
    then show ?thesis by (metis div_mult_mod_eq)
  qed
qed

section \<open>Properties\<close>

text \<open>The printed node identifier has 36 characters and determines the
  identifier: two different nodes never share the printed form that keys the peer lists.\<close>

lemma to_string_identifies:
  assumes "length a = 16" "length b = 16"
  shows "length (to_string a) = 36 \<and> (to_string a = to_string b \<longleftrightarrow> a = b)"
  using assms to_string_from_inject [of a b 0] length_to_string [of a]
  by (auto simp: to_string_def)

text \<open>Whatever the random source returns, a generated identifier carries the
  version nibble 4 and the RFC 4122 variant bits, and keeps the other 14 bytes as drawn.\<close>

lemma generate_uuid_version_4:
  assumes "length (random_bytes 16) = 16"
  shows "length (generate_uuid random_bytes) = 16 \<and>
    drop_bit 4 (generate_uuid random_bytes ! 6) = 4 \<and>
    drop_bit 6 (generate_uuid random_bytes ! 8) = 2 \<and>
    (\<forall>i < 16. i \<noteq> 6 \<longrightarrow> i \<noteq> 8 \<longrightarrow> generate_uuid random_bytes ! i = random_bytes 16 ! i)"
proof -
  have bits: "drop_bit 4 ((x AND 0x0f) OR 0x40) = (4 :: byte)" for x :: byte
    by (rule bit_word_eqI) (simp add: bit_simps)
  have "drop_bit 6 ((x AND 0x3f) OR 0x80) = (2 :: byte)" for x :: byte
    by (rule bit_word_eqI) (simp add: bit_simps)
  with bits show ?thesis using assms by (simp add: generate_uuid_def Let_def)
qed

end
