(* ===== verification/MemoryProtocol.thy ===== *)
theory MemoryProtocol
  imports PageTracker Crc32c Common
begin

text \<open>
  The request handler of the memory daemon (\<open>memoryd/src/memory_protocol.cpp\<close>) over the
  message tables of \<open>common/schemas/memory.fbs\<close>. The FlatBuffers code that the schema
  compiler generates is a parameter: \<open>memory_codec\<close> holds the verifier, the accessor of
  the root table and the builder for each direction. The theory shows that every request
  is answered without undefined behaviour, what each operation answers, that data written
  over the wire is read back, and that sessions cannot touch each other's blocks.
\<close>

section \<open>Messages\<close>

record MemoryRequest =
  req_protocol_version :: uint16
  req_request_id :: uint64
  req_op :: byte
  req_handle :: uint64
  req_size :: uint64
  req_offset :: uint64
  req_data :: "bytes option"
  req_checksum :: uint32

datatype StatusCode = OK | ERROR_GENERIC | BUSY | CHECKSUM_MISMATCH | INVALID_HANDLE
  | OUT_OF_MEMORY | VERSION_MISMATCH | PERMISSION_DENIED

record MemoryResponse =
  resp_request_id :: uint64
  resp_status :: StatusCode
  resp_handle :: uint64
  resp_data :: "bytes option"
  resp_checksum :: uint32
  resp_message :: string

text \<open>\<open>OpCode\<close> is a \<open>uint8\<close> on the wire and the verifier accepts every value of it.\<close>

abbreviation (input) OpCode_ALLOC :: byte where "OpCode_ALLOC \<equiv> 0"
abbreviation (input) OpCode_WRITE :: byte where "OpCode_WRITE \<equiv> 1"
abbreviation (input) OpCode_READ :: byte where "OpCode_READ \<equiv> 2"
abbreviation (input) OpCode_FREE :: byte where "OpCode_FREE \<equiv> 3"
abbreviation (input) OpCode_PING :: byte where "OpCode_PING \<equiv> 4"

record memory_codec =
  verify_request :: "bytes \<Rightarrow> bool"
  get_request :: "bytes \<Rightarrow> MemoryRequest"
  finish_response :: "MemoryResponse \<Rightarrow> bytes"
  verify_response :: "bytes \<Rightarrow> bool"
  get_response :: "bytes \<Rightarrow> MemoryResponse"
  finish_request :: "MemoryRequest \<Rightarrow> bytes"

section \<open>The handler\<close>

text \<open>Fields left out by the builder read as 0 or as absent. A zero handle and an empty
  payload are left out, and the checksum with the payload.\<close>

definition build_response ::
  "MemoryRequest \<Rightarrow> StatusCode \<Rightarrow> string \<Rightarrow> nat \<Rightarrow> bytes \<Rightarrow> uint32 \<Rightarrow> MemoryResponse" where
  "build_response req status msg h data crc =
    \<lparr> resp_request_id = req_request_id req, resp_status = status,
      resp_handle = (if h \<noteq> 0 then of_nat h else 0),
      resp_data = (if 0 < length data then Some data else None),
      resp_checksum = (if 0 < length data then crc else 0),
      resp_message = msg \<rparr>"

abbreviation reply :: "MemoryRequest \<Rightarrow> StatusCode \<Rightarrow> string \<Rightarrow> MemoryResponse" where
  "reply req status msg \<equiv> build_response req status msg 0 [] 0"

text \<open>The body of the \<open>try\<close> block: an exception is the left value, with the tracker as the
  throwing call left it.\<close>

definition dispatch_request ::
  "PageTracker \<Rightarrow> nat \<Rightarrow> MemoryRequest \<Rightarrow> (cpp_error + MemoryResponse) \<times> PageTracker" where
  "dispatch_request t session_id req =
    (if req_op req = OpCode_ALLOC then
       (case PageTracker_allocate t (unat (req_size req)) of
          (Inl e, t') \<Rightarrow> (Inl e, t')
        | (Inr h, t') \<Rightarrow> (Inr (build_response req OK ''OK'' h [] 0), assign_owner t' h session_id))
     else if req_op req = OpCode_FREE then
       (case PageTracker_free t (unat (req_handle req)) session_id of
          (Inl e, t') \<Rightarrow> (Inl e, t')
        | (Inr _, t') \<Rightarrow> (Inr (reply req OK ''OK''), t'))
     else if req_op req = OpCode_WRITE then
       (case req_data req of
          None \<Rightarrow> (Inr (reply req ERROR_GENERIC ''Missing data payload''), t)
        | Some data \<Rightarrow>
            if crc32c data \<noteq> req_checksum req
            then (Inr (reply req CHECKSUM_MISMATCH ''CRC32C mismatch''), t)
            else (case PageTracker_write t (unat (req_handle req)) (unat (req_offset req)) data session_id of
                (Inl e, t') \<Rightarrow> (Inl e, t')
              | (Inr _, t') \<Rightarrow> (Inr (reply req OK ''OK''), t')))
     else if req_op req = OpCode_READ then
       (if MAX_MESSAGE_SIZE < unat (req_size req)
        then (Inr (reply req ERROR_GENERIC ''Requested read size exceeds maximum message size''), t)
        else (case PageTracker_read t (unat (req_handle req)) (unat (req_offset req))
                (unat (req_size req)) session_id of
            Inl e \<Rightarrow> (Inl e, t)
          | Inr data \<Rightarrow> (Inr (build_response req OK ''OK'' 0 data (crc32c data)), t)))
     else if req_op req = OpCode_PING then (Inr (reply req OK ''PONG''), t)
     else (Inr (reply req ERROR_GENERIC ''Unsupported operation''), t))"

text \<open>The \<open>catch\<close> clauses, in their order.\<close>

definition catch_error :: "MemoryRequest \<Rightarrow> cpp_error \<Rightarrow> cpp_error + MemoryResponse" where
  "catch_error req e =
    (case e of
      PermissionDeniedError \<Rightarrow>
        Inr (reply req PERMISSION_DENIED ''Permission denied: handle owned by another session'')
    | InvalidArgument m \<Rightarrow> Inr (reply req INVALID_HANDLE m)
    | BadAlloc \<Rightarrow> Inr (reply req OUT_OF_MEMORY ''Not enough contiguous free pages'')
    | OutOfRange m \<Rightarrow> Inr (reply req ERROR_GENERIC m)
    | RuntimeError m \<Rightarrow> Inr (reply req ERROR_GENERIC m)
    | UndefinedBehaviour \<Rightarrow> Inl UndefinedBehaviour
    | Nontermination \<Rightarrow> Inl Nontermination)"

definition answer_request ::
  "PageTracker \<Rightarrow> nat \<Rightarrow> MemoryRequest \<Rightarrow> (cpp_error + MemoryResponse) \<times> PageTracker" where
  "answer_request t session_id req =
    (if \<not> check_protocol_version (req_protocol_version req)
     then (Inr (reply req VERSION_MISMATCH ''Protocol version mismatch''), t)
     else case dispatch_request t session_id req of
       (Inl e, t') \<Rightarrow> (catch_error req e, t')
     | (Inr resp, t') \<Rightarrow> (Inr resp, t'))"

text \<open>The empty vector tells the caller to close the connection.\<close>

definition process_request ::
  "memory_codec \<Rightarrow> PageTracker \<Rightarrow> nat \<Rightarrow> bytes \<Rightarrow> (cpp_error + bytes) \<times> PageTracker" where
  "process_request c t session_id data =
    (if \<not> verify_request c data then (Inr [], t)
     else case answer_request t session_id (get_request c data) of
       (Inl e, t') \<Rightarrow> (Inl e, t')
     | (Inr resp, t') \<Rightarrow> (Inr (finish_response c resp), t'))"

text \<open>The daemon's event loop serves the frames of all sessions one at a time: a run is the
  sequence of (session, frame) pairs in the order they are served.\<close>

primrec serve_frames ::
  "memory_codec \<Rightarrow> (nat \<times> bytes) list \<Rightarrow> PageTracker \<Rightarrow> (cpp_error + bytes) list \<times> PageTracker" where
  "serve_frames c [] t = ([], t)"
| "serve_frames c (f # fs) t =
    (let (r, t1) = process_request c t (fst f) (snd f); (rs, t2) = serve_frames c fs t1 in (r # rs, t2))"

section \<open>Lemmas\<close>

text \<open>No operation of the store specification ends in undefined behaviour.\<close>

lemma spec_defined:
  "spec_allocate st n = (Inl e, st') \<Longrightarrow> e = BadAlloc"
  "spec_free st h ow = (Inl e, st') \<Longrightarrow> is_exception e"
  "spec_write st h off d ow = (Inl e, st') \<Longrightarrow> is_exception e"
  "spec_read st h off n ow = Inl e \<Longrightarrow> is_exception e"
  by (auto simp: is_exception_def spec_allocate_def spec_free_def spec_write_def spec_read_def spec_check_def
    split: if_splits option.splits prod.splits)

lemma spec_next_block:
  "spec_allocate st n = (r, st') \<Longrightarrow> next_block st < SIZE_MAX \<Longrightarrow> next_block st' \<le> Suc (next_block st)"
  "spec_free st h ow = (ru, st') \<Longrightarrow> next_block st' = next_block st"
  "spec_write st h off d ow = (ru, st') \<Longrightarrow> next_block st' = next_block st"
  "next_block (spec_assign st h ow) = next_block st"
  by (auto simp: spec_allocate_def spec_free_def spec_write_def spec_assign_def spec_drop_def SIZE_MAX_def
    u64_add_exact split: if_splits option.splits sum.splits prod.splits)

text \<open>The cases of a dispatched request, one per operation.\<close>

lemma dispatch_cases [consumes 1]:
  assumes "dispatch_request t sid req = (r, t')"
  obtains
    (alloc_ok) h t1 where "PageTracker_allocate t (unat (req_size req)) = (Inr h, t1)" "t' = assign_owner t1 h sid"
      "r = Inr (build_response req OK ''OK'' h [] 0)"
  | (alloc_fail) e where "PageTracker_allocate t (unat (req_size req)) = (Inl e, t')" "r = Inl e"
  | (dealloc) r1 where "PageTracker_free t (unat (req_handle req)) sid = (r1, t')"
      "r = map_sum (\<lambda>e. e) (\<lambda>_. reply req OK ''OK'') r1"
  | (store) d r1 where "PageTracker_write t (unat (req_handle req)) (unat (req_offset req)) d sid = (r1, t')"
      "r = map_sum (\<lambda>e. e) (\<lambda>_. reply req OK ''OK'') r1"
  | (fetch) r1 where "PageTracker_read t (unat (req_handle req)) (unat (req_offset req)) (unat (req_size req)) sid = r1"
      "t' = t" "r = map_sum (\<lambda>e. e) (\<lambda>d. build_response req OK ''OK'' 0 d (crc32c d)) r1"
  | (same) resp where "t' = t" "r = Inr resp"
  using assms unfolding dispatch_request_def
  by (auto split: if_splits option.splits prod.splits sum.splits)

lemma dispatch_step:
  assumes inv: "tracker_inv t" and nxt: "next_handle t < SIZE_MAX"
    and d: "dispatch_request t sid req = (r, t')"
  shows "tracker_inv t' \<and> next_handle t' \<le> Suc (next_handle t) \<and> (\<forall>e. r = Inl e \<longrightarrow> is_exception e)"
  using d
proof (cases rule: dispatch_cases)
  case (alloc_ok h t1)
  from tracker.al_ok [OF inv _ uint64_bound alloc_ok(1)] nxt
  have "tracker_inv t1" "spec_allocate (store_of t) (unat (req_size req)) = (Inr h, store_of t1)" by auto
  then show ?thesis
    using alloc_ok nxt tracker.asg_ok [of t1 h sid] spec_next_block(1) [of "store_of t"]
      spec_next_block(4) [of "store_of t1" h sid]
    by (metis Inl_Inr_False store_of_simps(4))
next
  case (alloc_fail e)
  from tracker.al_ok [OF inv _ uint64_bound alloc_fail(1)] nxt
  have a: "tracker_inv t'" "spec_allocate (store_of t) (unat (req_size req)) = (Inl e, store_of t')" by auto
  then show ?thesis
    using alloc_fail nxt spec_defined(1) [OF a(2)] spec_next_block(1) [OF a(2)] by (simp add: is_exception_def)
next
  case (dealloc r1)
  note f = tracker.fr_ok [OF inv dealloc(1)]
  then show ?thesis
    using dealloc spec_defined(2) [of "store_of t"] spec_next_block(2) [of "store_of t"]
    by (cases r1) fastforce+
next
  case (store ds r1)
  note f = tracker.wr_ok [OF inv store(1)]
  then show ?thesis
    using store spec_defined(3) [of "store_of t"] spec_next_block(3) [of "store_of t"]
    by (cases r1) fastforce+
next
  case (fetch r1)
  then show ?thesis
    using inv spec_defined(4) by (cases r1) (auto simp: read_refines)
next
  case (same resp)
  then show ?thesis using inv by simp
qed

lemma answer_step:
  assumes "tracker_inv t" "next_handle t < SIZE_MAX" "answer_request t sid req = (r, t')"
  shows "tracker_inv t' \<and> next_handle t' \<le> Suc (next_handle t) \<and> (\<exists>resp. r = Inr resp)"
  using assms dispatch_step [OF assms(1,2), of sid req]
  by (auto simp: answer_request_def catch_error_def is_exception_def
    split: if_splits prod.splits sum.splits cpp_error.splits)

lemma process_step:
  assumes "tracker_inv t" "next_handle t < SIZE_MAX" "process_request c t sid data = (r, t')"
  shows "tracker_inv t' \<and> next_handle t' \<le> Suc (next_handle t) \<and> (\<exists>out. r = Inr out)"
  using assms answer_step [OF assms(1,2), of sid "get_request c data"]
  by (auto simp: process_request_def split: if_splits prod.splits sum.splits)

lemma assign_other_block:
  "blocks st h = Some b \<Longrightarrow> h \<noteq> h1 \<Longrightarrow> blocks (spec_assign st h1 ow) h = Some b"
  by (auto simp: spec_assign_def split: option.splits)

lemma spec_allocate_handle: "spec_allocate st n = (Inr h, st') \<Longrightarrow> h = 0 \<or> h = next_block st"
  by (auto simp: spec_allocate_def split: if_splits)

lemma block_handle:
  assumes "tracker_inv t" "blocks (store_of t) h = Some b"
  shows "0 < h" "h < next_handle t"
  using tracker_invD(4) [OF assms(1), of h] assms(2) by (auto simp: allocation_ok_def)

lemma dispatch_foreign:
  assumes inv: "tracker_inv t" and nxt: "next_handle t < SIZE_MAX"
    and own: "blocks (store_of t) h = Some (o', bs)" "o' \<noteq> 0" "o' \<noteq> sid"
    and d: "dispatch_request t sid req = (r, t')"
  shows "blocks (store_of t') h = Some (o', bs)"
  using d
proof (cases rule: dispatch_cases)
  case (alloc_ok h1 t1)
  from tracker.al_ok [OF inv _ uint64_bound alloc_ok(1)] nxt
  have a: "tracker_inv t1" "spec_allocate (store_of t) (unat (req_size req)) = (Inr h1, store_of t1)" by auto
  have "h \<noteq> h1" using spec_allocate_handle [OF a(2)] block_handle [OF inv own(1)] by auto
  moreover have "blocks (store_of t1) h = Some (o', bs)"
    using tracker.allocate_keeps [OF inv _ uint64_bound alloc_ok(1) own(1)] nxt by simp
  ultimately show ?thesis
    using alloc_ok(2) tracker.asg_ok [OF a(1), of h1 sid] assign_other_block by simp
next
  case (alloc_fail e)
  then show ?thesis using tracker.allocate_keeps [OF inv _ uint64_bound alloc_fail(1) own(1)] nxt by simp
qed (use inv own tracker.foreign_keeps [OF inv own] in auto)

lemma process_foreign:
  assumes "tracker_inv t" "next_handle t < SIZE_MAX"
    and "blocks (store_of t) h = Some (o', bs)" "o' \<noteq> 0" "o' \<noteq> sid"
    and "process_request c t sid data = (r, t')"
  shows "blocks (store_of t') h = Some (o', bs)"
  using assms(3,6) dispatch_foreign [OF assms(1-5)]
  by (auto simp: process_request_def answer_request_def simp del: store_of_simps
    split: if_splits prod.splits sum.splits)

lemma serve_frames_step:
  assumes "tracker_inv t" "next_handle t + length fs \<le> SIZE_MAX" "serve_frames c fs t = (rs, t')"
  shows "tracker_inv t' \<and> (\<forall>r \<in> set rs. \<exists>out. r = Inr out)"
  using assms
proof (induction fs arbitrary: t rs)
  case (Cons f fs)
  obtain r t1 where p: "process_request c t (fst f) (snd f) = (r, t1)" by (cases "process_request c t (fst f) (snd f)")
  obtain rs1 t2 where q: "serve_frames c fs t1 = (rs1, t2)" by (cases "serve_frames c fs t1")
  have "tracker_inv t1 \<and> next_handle t1 \<le> Suc (next_handle t) \<and> (\<exists>out. r = Inr out)"
    using Cons.prems p by (intro process_step) auto
  then show ?case using Cons.IH [of t1 rs1] Cons.prems(2,3) p q by auto
qed simp

lemma serve_frames_foreign:
  assumes "tracker_inv t" "next_handle t + length fs \<le> SIZE_MAX"
    and "blocks (store_of t) h = Some (o', bs)" "o' \<noteq> 0" "\<forall>f \<in> set fs. fst f \<noteq> o'"
    and "serve_frames c fs t = (rs, t')"
  shows "blocks (store_of t') h = Some (o', bs)"
  using assms
proof (induction fs arbitrary: t rs)
  case (Cons f fs)
  obtain r t1 where p: "process_request c t (fst f) (snd f) = (r, t1)" by (cases "process_request c t (fst f) (snd f)")
  obtain rs1 t2 where q: "serve_frames c fs t1 = (rs1, t2)" by (cases "serve_frames c fs t1")
  have s: "tracker_inv t1 \<and> next_handle t1 \<le> Suc (next_handle t) \<and> (\<exists>out. r = Inr out)"
    using Cons.prems p by (intro process_step) auto
  have "blocks (store_of t1) h = Some (o', bs)"
    using Cons.prems(1,2,3,4,5) p by (intro process_foreign [OF _ _ _ _ _ p]) auto
  then show ?case using Cons.IH [of t1 rs1] s Cons.prems(2,4,5,6) p q by auto
qed simp

lemma dispatch_write:
  assumes "req_op w = OpCode_WRITE" "req_data w = Some d"
  shows "dispatch_request t sid w =
    (if crc32c d \<noteq> req_checksum w then (Inr (reply w CHECKSUM_MISMATCH ''CRC32C mismatch''), t)
     else case PageTracker_write t (unat (req_handle w)) (unat (req_offset w)) d sid of
       (Inl e, t') \<Rightarrow> (Inl e, t') | (Inr _, t') \<Rightarrow> (Inr (reply w OK ''OK''), t'))"
  using assms by (simp add: dispatch_request_def)

lemma dispatch_read:
  assumes "req_op q = OpCode_READ" "unat (req_size q) \<le> MAX_MESSAGE_SIZE"
  shows "dispatch_request t sid q =
    (case PageTracker_read t (unat (req_handle q)) (unat (req_offset q)) (unat (req_size q)) sid of
       Inl e \<Rightarrow> (Inl e, t) | Inr data \<Rightarrow> (Inr (build_response q OK ''OK'' 0 data (crc32c data)), t))"
  using assms by (simp add: dispatch_request_def)

lemma catch_error_not_OK: "catch_error req e = Inr resp \<Longrightarrow> resp_status resp \<noteq> OK"
  by (auto simp: catch_error_def build_response_def split: cpp_error.splits)

lemma answer_write_OK:
  assumes "req_op w = OpCode_WRITE" "req_data w = Some d"
    and "answer_request t sid w = (Inr resp, t')" "resp_status resp = OK"
  shows "PageTracker_write t (unat (req_handle w)) (unat (req_offset w)) d sid = (Inr (), t')"
  using assms(3,4) catch_error_not_OK
  by (fastforce simp: answer_request_def dispatch_write [OF assms(1,2)] build_response_def
    split: if_splits prod.splits sum.splits)

section \<open>Requests for the witnesses\<close>

definition demo_request :: "byte \<Rightarrow> uint64 \<Rightarrow> uint64 \<Rightarrow> uint64 \<Rightarrow> bytes option \<Rightarrow> MemoryRequest" where
  "demo_request op h sz off d = \<lparr> req_protocol_version = 1, req_request_id = 7, req_op = op,
     req_handle = h, req_size = sz, req_offset = off, req_data = d,
     req_checksum = (case d of None \<Rightarrow> 0 | Some b \<Rightarrow> crc32c b) \<rparr>"

text \<open>After session 5 has allocated six bytes.\<close>

definition demo_owned :: PageTracker where
  "demo_owned = snd (answer_request demo_tracker 5 (demo_request OpCode_ALLOC 0 6 0 None))"

lemma demo_owned_inv: "tracker_inv demo_owned" "next_handle demo_owned \<le> 2"
proof -
  have *: "next_handle demo_tracker < SIZE_MAX" by (simp add: demo_inv(2) SIZE_MAX_def W64_def)
  obtain r where "answer_request demo_tracker 5 (demo_request OpCode_ALLOC 0 6 0 None) = (r, demo_owned)"
    by (metis demo_owned_def prod.collapse)
  from answer_step [OF demo_inv(1) * this] show "tracker_inv demo_owned" "next_handle demo_owned \<le> 2"
    using demo_inv(2) by auto
qed

section \<open>Properties\<close>

text \<open>Property C17. The daemon answers every frame of every session, well formed or not, in
  any order of service: no frame reaches undefined behaviour and the allocator invariant
  holds at the end, as long as the handle counter does not wrap.\<close>

theorem serve_frames_total:
  assumes "tracker_inv t" "next_handle t + length fs \<le> SIZE_MAX"
  shows "tracker_inv (snd (serve_frames c fs t)) \<and>
    (\<forall>r \<in> set (fst (serve_frames c fs t)). \<exists>out. r = Inr out)"
  using serve_frames_step [OF assms, of c] by (cases "serve_frames c fs t") auto

theorem serve_frames_total_witness:
  "tracker_inv (snd (serve_frames
     \<lparr> verify_request = (\<lambda>b. b \<noteq> []), get_request = (\<lambda>b. demo_request (hd b) 1 4 0 None),
       finish_response = (\<lambda>r. [1]), verify_response = (\<lambda>_. True),
       get_response = (\<lambda>_. reply (demo_request 0 0 0 0 None) OK []), finish_request = (\<lambda>_. []) \<rparr>
     [(5, [0]), (6, [2]), (6, [])] demo_tracker))"
  using serve_frames_total [of demo_tracker "[(5, [0]), (6, [2]), (6, [])]"
    "\<lparr> verify_request = (\<lambda>b. b \<noteq> []), get_request = (\<lambda>b. demo_request (hd b) 1 4 0 None),
       finish_response = (\<lambda>r. [1]), verify_response = (\<lambda>_. True),
       get_response = (\<lambda>_. reply (demo_request 0 0 0 0 None) OK []), finish_request = (\<lambda>_. []) \<rparr>"]
  by (simp only: demo_inv) (simp add: SIZE_MAX_def W64_def)

text \<open>Property C6. A payload that the daemon has acknowledged as written is what a READ of the
  same range by the same session is answered with, together with its checksum.\<close>

theorem wire_write_then_read:
  assumes "tracker_inv t" "check_protocol_version (req_protocol_version q)"
    and "req_op w = OpCode_WRITE" "req_data w = Some d"
    and "req_op q = OpCode_READ" "req_handle q = req_handle w" "req_offset q = req_offset w"
    and "unat (req_size q) = length d" "length d \<le> MAX_MESSAGE_SIZE"
    and "fst (answer_request t sid w) = Inr resp" "resp_status resp = OK"
  shows "answer_request (snd (answer_request t sid w)) sid q =
    (Inr (build_response q OK ''OK'' 0 d (crc32c d)), snd (answer_request t sid w))"
proof -
  have "PageTracker_write t (unat (req_handle w)) (unat (req_offset w)) d sid =
      (Inr (), snd (answer_request t sid w))"
    using assms(3,4,10,11) by (intro answer_write_OK) (auto simp: prod_eq_iff)
  from tracker.read_after_write [OF assms(1) this] show ?thesis
    using assms by (simp add: answer_request_def dispatch_read)
qed

theorem wire_write_then_read_witness:
  "answer_request (snd (answer_request demo_owned 5 (demo_request OpCode_WRITE 1 0 3 (Some [1, 2]))))
     5 (demo_request OpCode_READ 1 2 3 None) =
   (Inr (build_response (demo_request OpCode_READ 1 2 3 None) OK ''OK'' 0 [1, 2] (crc32c [1, 2])),
    snd (answer_request demo_owned 5 (demo_request OpCode_WRITE 1 0 3 (Some [1, 2]))))"
proof (rule wire_write_then_read)
  have "fst (PageTracker_write demo_owned 1 3 [1, 2] 5) = Inr ()" by code_simp
  then show "fst (answer_request demo_owned 5 (demo_request OpCode_WRITE 1 0 3 (Some [1, 2]))) =
      Inr (reply (demo_request OpCode_WRITE 1 0 3 (Some [1, 2])) OK ''OK'')"
    by (auto simp: answer_request_def dispatch_write demo_request_def check_protocol_version_def
      MEMINFO_PROTOCOL_VERSION_def split: prod.splits)
qed (simp_all add: demo_owned_inv demo_request_def build_response_def check_protocol_version_def
  MEMINFO_PROTOCOL_VERSION_def MAX_MESSAGE_SIZE_def)

text \<open>Property C28. A WRITE whose checksum does not match its payload is answered with
  CHECKSUM_MISMATCH and leaves the store as it was.\<close>

theorem corrupt_write_rejected:
  assumes "check_protocol_version (req_protocol_version w)"
    and "req_op w = OpCode_WRITE" "req_data w = Some d" "crc32c d \<noteq> req_checksum w"
  shows "answer_request t sid w = (Inr (reply w CHECKSUM_MISMATCH ''CRC32C mismatch''), t)"
  using assms by (simp add: answer_request_def dispatch_write)

theorem corrupt_write_rejected_witness:
  "answer_request demo_tracker 5 (demo_request OpCode_WRITE 1 0 0 (Some [1]) \<lparr> req_checksum := 0 \<rparr>) =
   (Inr (reply (demo_request OpCode_WRITE 1 0 0 (Some [1]) \<lparr> req_checksum := 0 \<rparr>)
     CHECKSUM_MISMATCH ''CRC32C mismatch''), demo_tracker)"
proof (rule corrupt_write_rejected)
  have "crc32c [1] \<noteq> 0"
    unfolding crc32c_def crc32c_from_def crc_soft_loop_bit by code_simp
  then show "crc32c [1] \<noteq> req_checksum (demo_request OpCode_WRITE 1 0 0 (Some [1]) \<lparr> req_checksum := 0 \<rparr>)"
    by simp
qed (simp_all add: demo_request_def check_protocol_version_def MEMINFO_PROTOCOL_VERSION_def)

text \<open>Property C4. Whatever the other sessions send, in any order, a block keeps its owner and
  its bytes.\<close>

theorem sessions_isolated:
  assumes "tracker_inv t" "next_handle t + length fs \<le> SIZE_MAX"
    and "blocks (store_of t) h = Some (o', bs)" "o' \<noteq> 0" "\<forall>f \<in> set fs. fst f \<noteq> o'"
  shows "blocks (store_of (snd (serve_frames c fs t))) h = Some (o', bs)"
  using serve_frames_foreign [OF assms, of c] by (cases "serve_frames c fs t") auto

theorem sessions_isolated_witness:
  "blocks (store_of (snd (serve_frames
     \<lparr> verify_request = (\<lambda>b. b \<noteq> []), get_request = (\<lambda>b. demo_request (hd b) 1 4 0 None),
       finish_response = (\<lambda>r. [1]), verify_response = (\<lambda>_. True),
       get_response = (\<lambda>_. reply (demo_request 0 0 0 0 None) OK []), finish_request = (\<lambda>_. []) \<rparr>
     [(6, [3]), (7, [0])] demo_owned))) 1 = Some (5, [0, 0, 0, 0, 0, 0])"
proof (rule sessions_isolated)
  show "blocks (store_of demo_owned) 1 = Some (5, [0, 0, 0, 0, 0, 0])"
    by code_simp
  show "next_handle demo_owned + length [(6, [3 :: byte]), (7 :: nat, [0])] \<le> SIZE_MAX"
    using demo_owned_inv(2) by (simp add: SIZE_MAX_def W64_def)
qed (simp_all add: demo_owned_inv)



end
