(* ===== verification/ClientSession.thy ===== *)
theory ClientSession
  imports MemoryProtocol
begin

text \<open>
  One accepted connection of the memory daemon (\<open>memoryd/src/client_session.cpp\<close>): the
  receive buffer, the framing loop and the replies. libuv is the environment: its callbacks
  are the operations below, \<open>uv_write\<close> appends to \<open>outbox\<close>, and every call of \<open>uv_close\<close> is
  counted, so that \<open>uv_is_closing\<close> is \<open>0 < close_calls\<close>. FlatBuffers reads the length prefix
  of a frame from its first four bytes (\<open>prefixed_size\<close>).
\<close>

section \<open>State\<close>

record ClientSession =
  session_id :: nat
  read_buffer :: bytes
  outbox :: "bytes list"
  close_calls :: nat

definition ClientSession_new :: "nat \<Rightarrow> bool \<Rightarrow> ClientSession" where
  "ClientSession_new sid accept_ok =
    \<lparr> session_id = sid, read_buffer = [], outbox = [], close_calls = (if accept_ok then 0 else 1) \<rparr>"

definition uv_close_session :: "ClientSession \<Rightarrow> ClientSession" where
  "uv_close_session s = s \<lparr> close_calls := Suc (close_calls s) \<rparr>"

section \<open>Operations\<close>

definition send_response :: "ClientSession \<Rightarrow> bytes \<Rightarrow> ClientSession" where
  "send_response s data = (if 0 < close_calls s then s else s \<lparr> outbox := outbox s @ [data] \<rparr>)"

definition ClientSession_handle_request ::
  "memory_codec \<Rightarrow> ClientSession \<Rightarrow> PageTracker \<Rightarrow> bytes \<Rightarrow> (cpp_error + ClientSession) \<times> PageTracker" where
  "ClientSession_handle_request c s t data =
    (case process_request c t (session_id s) data of
       (Inl e, t') \<Rightarrow> (Inl e, t')
     | (Inr response, t') \<Rightarrow>
         (Inr (if response = [] then uv_close_session s else send_response s response), t'))"

text \<open>The framing loop. The frame is handled while it is still at the front of the buffer and
  erased afterwards, whether or not handling it closed the connection.\<close>

function process_buffer ::
  "memory_codec \<Rightarrow> (bytes \<Rightarrow> uint32) \<Rightarrow> ClientSession \<Rightarrow> PageTracker \<Rightarrow>
   (cpp_error + ClientSession) \<times> PageTracker" where
  "process_buffer c prefixed_size s t =
    (if length (read_buffer s) < 4 then (Inr s, t)
     else
       let sz = unat (prefixed_size (take 4 (read_buffer s))) in
       if MAX_MESSAGE_SIZE < sz then (Inr (uv_close_session s), t)
       else if sz \<le> length (read_buffer s) - 4 then
         (case ClientSession_handle_request c s t (take (sz + 4) (read_buffer s)) of
            (Inl e, t') \<Rightarrow> (Inl e, t')
          | (Inr s', t') \<Rightarrow>
              process_buffer c prefixed_size (s' \<lparr> read_buffer := drop (sz + 4) (read_buffer s) \<rparr>) t')
       else (Inr s, t))"
  by pat_completeness auto
termination
  by (relation "measure (\<lambda>(c, p, s, t). length (read_buffer s))") auto

declare process_buffer.simps [simp del]

text \<open>The read callback: \<open>Data\<close> for a positive \<open>nread\<close>, \<open>Eof\<close> for a negative one (end of
  file or error), \<open>Nothing\<close> for zero.\<close>

datatype uv_read = Data bytes | Eof | Nothing

definition ClientSession_on_read ::
  "memory_codec \<Rightarrow> (bytes \<Rightarrow> uint32) \<Rightarrow> ClientSession \<Rightarrow> PageTracker \<Rightarrow> uv_read \<Rightarrow>
   (cpp_error + ClientSession) \<times> PageTracker" where
  "ClientSession_on_read c prefixed_size s t ev =
    (case ev of
       Data bs \<Rightarrow> process_buffer c prefixed_size (s \<lparr> read_buffer := read_buffer s @ bs \<rparr>) t
     | Eof \<Rightarrow> (Inr (uv_close_session s), t)
     | Nothing \<Rightarrow> (Inr s, t))"

text \<open>The close callback deletes the session, whose destructor sweeps its blocks.\<close>

definition on_close_handle :: "nat list \<Rightarrow> ClientSession \<Rightarrow> PageTracker \<Rightarrow> PageTracker" where
  "on_close_handle order s t = free_all_for_owner order t (session_id s)"

section \<open>Lemmas\<close>

lemma handle_request_fields:
  "ClientSession_handle_request c s t d = (Inr s', t') \<Longrightarrow>
   session_id s' = session_id s \<and> read_buffer s' = read_buffer s"
  by (auto simp: ClientSession_handle_request_def uv_close_session_def send_response_def
    split: if_splits prod.splits sum.splits)

lemma handle_request_buffer:
  "ClientSession_handle_request c (s \<lparr> read_buffer := b \<rparr>) t d =
   (case ClientSession_handle_request c s t d of
      (Inl e, t') \<Rightarrow> (Inl e, t') | (Inr s', t') \<Rightarrow> (Inr (s' \<lparr> read_buffer := b \<rparr>), t'))"
  by (auto simp: ClientSession_handle_request_def uv_close_session_def send_response_def
    split: prod.splits sum.splits)

text \<open>One turn of the loop on a buffer that holds a whole frame.\<close>

lemma process_buffer_frame:
  assumes "4 \<le> length b" "unat (ps (take 4 b)) \<le> MAX_MESSAGE_SIZE"
    "unat (ps (take 4 b)) \<le> length b - 4" "n = unat (ps (take 4 b)) + 4"
  shows "process_buffer c ps (s \<lparr> read_buffer := b \<rparr>) t =
    (case ClientSession_handle_request c s t (take n b) of
       (Inl e, t') \<Rightarrow> (Inl e, t')
     | (Inr s', t') \<Rightarrow> process_buffer c ps (s' \<lparr> read_buffer := drop n b \<rparr>) t')"
  using assms by (subst process_buffer.simps)
    (simp add: Let_def handle_request_buffer split: prod.splits sum.splits)

text \<open>The buffer left by the loop, and that the loop has nothing more to do on it.\<close>

definition stuck :: "(bytes \<Rightarrow> uint32) \<Rightarrow> bytes \<Rightarrow> bool" where
  "stuck ps b \<longleftrightarrow> length b < 4 \<or> unat (ps (take 4 b)) \<le> MAX_MESSAGE_SIZE \<and> length b - 4 < unat (ps (take 4 b))"

definition oversized :: "(bytes \<Rightarrow> uint32) \<Rightarrow> bytes \<Rightarrow> bool" where
  "oversized ps b \<longleftrightarrow> 4 \<le> length b \<and> MAX_MESSAGE_SIZE < unat (ps (take 4 b))"

lemma buffer_cases:
  obtains (stuck) "stuck ps b" | (oversized) "oversized ps b"
  | (frame) "4 \<le> length b" "unat (ps (take 4 b)) \<le> MAX_MESSAGE_SIZE"
      "unat (ps (take 4 b)) \<le> length b - 4"
  unfolding stuck_def oversized_def by linarith

lemma process_buffer_stuck: "stuck ps (read_buffer s) \<Longrightarrow> process_buffer c ps s t = (Inr s, t)"
  by (subst process_buffer.simps) (auto simp: stuck_def Let_def)

lemma process_buffer_oversized:
  "oversized ps (read_buffer s) \<Longrightarrow> process_buffer c ps s t = (Inr (uv_close_session s), t)"
  by (subst process_buffer.simps) (auto simp: oversized_def Let_def)

lemma process_buffer_left:
  "process_buffer c ps s t = (Inr s', t') \<Longrightarrow> stuck ps (read_buffer s') \<or> oversized ps (read_buffer s')"
proof (induction c ps s t arbitrary: s' t' rule: process_buffer.induct)
  case (1 c ps s t)
  show ?case
  proof (cases rule: buffer_cases [of ps "read_buffer s"])
    case frame
    then show ?thesis using 1
      by (subst (asm) (2) process_buffer.simps) (auto simp: Let_def split: prod.splits sum.splits)
  qed (use 1 in \<open>auto simp: process_buffer_stuck process_buffer_oversized uv_close_session_def\<close>)
qed

text \<open>Processing what has arrived before more arrives makes no difference, unless the loop
  stopped at an oversized frame.\<close>

definition resume ::
  "memory_codec \<Rightarrow> (bytes \<Rightarrow> uint32) \<Rightarrow> bytes \<Rightarrow> (cpp_error + ClientSession) \<times> PageTracker \<Rightarrow>
   (cpp_error + ClientSession) \<times> PageTracker" where
  "resume c ps ys r =
    (case r of
       (Inl e, t') \<Rightarrow> (Inl e, t')
     | (Inr s', t') \<Rightarrow>
         if oversized ps (read_buffer s') then (Inr (s' \<lparr> read_buffer := read_buffer s' @ ys \<rparr>), t')
         else process_buffer c ps (s' \<lparr> read_buffer := read_buffer s' @ ys \<rparr>) t')"

lemma process_buffer_append:
  "process_buffer c ps (s \<lparr> read_buffer := b @ ys \<rparr>) t =
   resume c ps ys (process_buffer c ps (s \<lparr> read_buffer := b \<rparr>) t)"
proof (induction "length b" arbitrary: b s t rule: less_induct)
  case less
  show ?case
  proof (cases rule: buffer_cases [of ps b])
    case stuck
    moreover have "\<not> oversized ps b" using stuck by (auto simp: stuck_def oversized_def)
    ultimately show ?thesis by (simp add: process_buffer_stuck resume_def)
  next
    case oversized
    moreover have "oversized ps (b @ ys)" using oversized by (auto simp: oversized_def)
    ultimately show ?thesis by (simp add: process_buffer_oversized resume_def uv_close_session_def)
  next
    case frame
    let ?n = "unat (ps (take 4 b)) + 4"
    have app: "take 4 (b @ ys) = take 4 b" "take ?n (b @ ys) = take ?n b" "drop ?n (b @ ys) = drop ?n b @ ys"
      using frame by simp_all
    have right: "process_buffer c ps (s \<lparr> read_buffer := b @ ys \<rparr>) t =
      (case ClientSession_handle_request c s t (take ?n b) of
         (Inl e, t') \<Rightarrow> (Inl e, t')
       | (Inr s', t') \<Rightarrow> process_buffer c ps (s' \<lparr> read_buffer := drop ?n b @ ys \<rparr>) t')"
      using process_buffer_frame [of "b @ ys" ps ?n c s t, unfolded app] frame by simp
    have "length (drop ?n b) < length b" using frame by simp
    then show ?thesis
      using less.hyps right process_buffer_frame [of b ps ?n c s t, OF frame refl]
      by (auto simp: resume_def split: prod.splits sum.splits)
  qed
qed

text \<open>A session fed with the chunks that TCP delivers.\<close>

primrec feed ::
  "memory_codec \<Rightarrow> (bytes \<Rightarrow> uint32) \<Rightarrow> bytes list \<Rightarrow> ClientSession \<Rightarrow> PageTracker \<Rightarrow>
   (cpp_error + ClientSession) \<times> PageTracker" where
  "feed c ps [] s t = (Inr s, t)"
| "feed c ps (ch # chs) s t =
    (case ClientSession_on_read c ps s t (Data ch) of
       (Inl e, t') \<Rightarrow> (Inl e, t')
     | (Inr s', t') \<Rightarrow> feed c ps chs s' t')"

lemma feed_eq_whole:
  assumes "process_buffer c ps (s \<lparr> read_buffer := read_buffer s @ concat chs \<rparr>) t = (Inr s', t')"
    and "\<not> oversized ps (read_buffer s')" "stuck ps (read_buffer s)"
  shows "feed c ps chs s t = (Inr s', t')"
  using assms
proof (induction chs arbitrary: s t)
  case Nil
  then show ?case by (simp add: process_buffer_stuck)
next
  case (Cons ch chs)
  have w: "resume c ps (concat chs) (process_buffer c ps (s \<lparr> read_buffer := read_buffer s @ ch \<rparr>) t) = (Inr s', t')"
    using Cons.prems(1) process_buffer_append [where b = "read_buffer s @ ch" and ys = "concat chs" and s = s] by simp
  obtain r t1 where p: "process_buffer c ps (s \<lparr> read_buffer := read_buffer s @ ch \<rparr>) t = (r, t1)" by fastforce
  from w p obtain s1 where r: "r = Inr s1" by (cases r) (auto simp: resume_def)
  have no: "\<not> oversized ps (read_buffer s1)"
    using w Cons.prems(2) unfolding p r
    by (auto simp: resume_def oversized_def split: if_splits)
  have st: "stuck ps (read_buffer s1)"
    using process_buffer_left [OF p [unfolded r]] no by auto
  show ?case using Cons.IH [of s1 t1] w p r no st Cons.prems(2)
    by (simp add: ClientSession_on_read_def resume_def)
qed

subsection \<open>Streams of whole frames\<close>

definition is_frame :: "(bytes \<Rightarrow> uint32) \<Rightarrow> bytes \<Rightarrow> bool" where
  "is_frame ps f \<longleftrightarrow> 4 \<le> length f \<and> unat (ps (take 4 f)) \<le> MAX_MESSAGE_SIZE \<and>
     length f = unat (ps (take 4 f)) + 4"

lemma process_one_frame:
  assumes f: "is_frame ps f" and p: "process_request c t (session_id s) f = (Inr out, t1)"
    and out: "out \<noteq> []" "close_calls s = 0"
  shows "process_buffer c ps (s \<lparr> read_buffer := f @ rest \<rparr>) t =
    process_buffer c ps (s \<lparr> outbox := outbox s @ [out], read_buffer := rest \<rparr>) t1"
proof -
  let ?b = "f @ rest"
  have fr: "4 \<le> length f" "unat (ps (take 4 f)) \<le> MAX_MESSAGE_SIZE" "length f = unat (ps (take 4 f)) + 4"
    using f unfolding is_frame_def by blast+
  have app: "take 4 ?b = take 4 f" "take (length f) ?b = f" "drop (length f) ?b = rest"
    using fr(1) by simp_all
  have len: "length f = unat (ps (take 4 ?b)) + 4" unfolding app(1) by (rule fr(3))
  have bounds: "4 \<le> length ?b" "unat (ps (take 4 ?b)) \<le> MAX_MESSAGE_SIZE" "unat (ps (take 4 ?b)) \<le> length ?b - 4"
    unfolding app(1) length_append using fr by linarith+
  have "ClientSession_handle_request c s t f = (Inr (s \<lparr> outbox := outbox s @ [out] \<rparr>), t1)"
    using p out by (simp add: ClientSession_handle_request_def send_response_def)
  then show ?thesis
    using process_buffer_frame [of ?b ps "length f" c s t, OF bounds len, unfolded app] by simp
qed

lemma process_frames:
  assumes "\<forall>f \<in> set fs. is_frame ps f" "close_calls s = 0"
    and "serve_frames c (map (Pair (session_id s)) fs) t = (map Inr outs, t')" "[] \<notin> set outs"
  shows "process_buffer c ps (s \<lparr> read_buffer := concat fs \<rparr>) t =
    (Inr (s \<lparr> read_buffer := [], outbox := outbox s @ outs \<rparr>), t')"
  using assms
proof (induction fs arbitrary: s t outs)
  case Nil
  then show ?case by (simp add: process_buffer_stuck stuck_def)
next
  case (Cons f fs)
  obtain r t1 where p: "process_request c t (session_id s) f = (r, t1)" by fastforce
  obtain rs t2 where q: "serve_frames c (map (Pair (session_id s)) fs) t1 = (rs, t2)" by fastforce
  from Cons.prems(3) p q have "r # rs = map Inr outs" "t2 = t'" by auto
  then obtain out outs' where o: "outs = out # outs'" "r = Inr out" "rs = map Inr outs'" by (cases outs) auto
  have "process_buffer c ps (s \<lparr> read_buffer := concat (f # fs) \<rparr>) t =
      process_buffer c ps (s \<lparr> outbox := outbox s @ [out], read_buffer := concat fs \<rparr>) t1"
    using process_one_frame [of ps f c t s out t1 "concat fs"] p o Cons.prems by auto
  also have "\<dots> = (Inr ((s \<lparr> outbox := outbox s @ [out] \<rparr>)
      \<lparr> read_buffer := [], outbox := outbox (s \<lparr> outbox := outbox s @ [out] \<rparr>) @ outs' \<rparr>), t')"
    using Cons.prems o q \<open>t2 = t'\<close> by (intro Cons.IH) auto
  finally show ?case using o \<open>t2 = t'\<close> by simp
qed

lemma process_request_answer:
  assumes "tracker_inv t" "next_handle t < SIZE_MAX" "verify_request c f" "\<And>r. finish_response c r \<noteq> []"
    and "process_request c t sid f = (r, t')"
  shows "\<exists>out. r = Inr out \<and> out \<noteq> []"
  using assms process_step [OF assms(1,2,5)]
  by (auto simp: process_request_def split: if_splits prod.splits sum.splits)

lemma serve_frames_answers:
  assumes "tracker_inv t" "next_handle t + length fs \<le> SIZE_MAX" "\<forall>f \<in> set fs. verify_request c f"
    and "\<And>r. finish_response c r \<noteq> []"
  shows "\<exists>outs t'. serve_frames c (map (Pair sid) fs) t = (map Inr outs, t') \<and> [] \<notin> set outs \<and>
    length outs = length fs"
  using assms(1-3)
proof (induction fs arbitrary: t)
  case (Cons f fs)
  obtain r t1 where p: "process_request c t sid f = (r, t1)" by fastforce
  have nxt: "next_handle t < SIZE_MAX" using Cons.prems(2) by simp
  obtain out where out: "r = Inr out" "out \<noteq> []"
    using process_request_answer [OF Cons.prems(1) nxt _ assms(4) p] Cons.prems(3) by auto
  have "tracker_inv t1 \<and> next_handle t1 \<le> Suc (next_handle t)"
    using process_step [OF Cons.prems(1) nxt p] by simp
  then obtain outs t' where "serve_frames c (map (Pair sid) fs) t1 = (map Inr outs, t')" "[] \<notin> set outs"
      "length outs = length fs"
    using Cons.IH [of t1] Cons.prems(2,3) by auto
  then show ?case using p out by (intro exI [of _ "out # outs"] exI [of _ t']) simp
qed simp

section \<open>Properties\<close>

text \<open>Property C21. Framing does not depend on how TCP cuts the stream: a session that receives
  whole verified frames, in chunks of any size, answers each of them once and in order,
  with what the request handler returns, and ends with an empty buffer.\<close>

theorem session_chunking:
  assumes "tracker_inv t" "next_handle t + length fs \<le> SIZE_MAX"
    and "\<forall>f \<in> set fs. is_frame ps f \<and> verify_request c f" "\<And>r. finish_response c r \<noteq> []"
    and "close_calls s = 0" "read_buffer s = []" "concat chunks = concat fs"
  shows "\<exists>outs t'. serve_frames c (map (Pair (session_id s)) fs) t = (map Inr outs, t') \<and>
    length outs = length fs \<and> feed c ps chunks s t = (Inr (s \<lparr> outbox := outbox s @ outs \<rparr>), t')"
proof -
  obtain outs t' where o: "serve_frames c (map (Pair (session_id s)) fs) t = (map Inr outs, t')"
      "[] \<notin> set outs" "length outs = length fs"
    using serve_frames_answers [OF assms(1,2) _ assms(4), where sid = "session_id s"] assms(3) by blast
  have "process_buffer c ps (s \<lparr> read_buffer := concat fs \<rparr>) t =
      (Inr (s \<lparr> read_buffer := [], outbox := outbox s @ outs \<rparr>), t')"
    using assms(3,5) o by (intro process_frames) auto
  then have "feed c ps chunks s t = (Inr (s \<lparr> read_buffer := [], outbox := outbox s @ outs \<rparr>), t')"
    using assms(6,7) by (intro feed_eq_whole) (auto simp: oversized_def stuck_def)
  moreover have "s \<lparr> read_buffer := [], outbox := outbox s @ outs \<rparr> = s \<lparr> outbox := outbox s @ outs \<rparr>"
    using assms(6) by (cases s) simp
  ultimately show ?thesis using o by auto
qed

definition demo_codec :: memory_codec where
  "demo_codec = \<lparr> verify_request = (\<lambda>b. length b = 5),
     get_request = (\<lambda>b. demo_request (last b) 1 4 0 None), finish_response = (\<lambda>r. [1]),
     verify_response = (\<lambda>_. True), get_response = (\<lambda>_. reply (demo_request 0 0 0 0 None) OK []),
     finish_request = (\<lambda>_. []) \<rparr>"

theorem session_chunking_witness:
  "\<exists>outs t'. serve_frames demo_codec (map (Pair (session_id (ClientSession_new 5 True)))
      [[1, 0, 0, 0, 0], [1, 0, 0, 0, 4]]) demo_tracker = (map Inr outs, t') \<and> length outs = 2"
proof -
  have "next_handle demo_tracker + length [[1, 0, 0, 0, 0], [1, 0, 0, 0, 4 :: byte]] \<le> SIZE_MAX"
    by (simp add: demo_inv(2) SIZE_MAX_def W64_def)
  moreover have "\<forall>f \<in> set [[1, 0, 0, 0, 0], [1, 0, 0, 0, 4]].
      is_frame (\<lambda>b. ucast (hd b)) f \<and> verify_request demo_codec f"
    by (simp add: is_frame_def demo_codec_def MAX_MESSAGE_SIZE_def)
  moreover have "finish_response demo_codec r \<noteq> []" for r by (simp add: demo_codec_def)
  moreover have "close_calls (ClientSession_new 5 True) = 0" "read_buffer (ClientSession_new 5 True) = []"
    by (simp_all add: ClientSession_new_def)
  moreover have "concat [[1, 0], [0, 0, 0, 1, 0, 0], [0, 4]] = concat [[1, 0, 0, 0, 0], [1, 0, 0, 0, 4 :: byte]]"
    by simp
  ultimately have "\<exists>outs t'. serve_frames demo_codec (map (Pair (session_id (ClientSession_new 5 True)))
      [[1, 0, 0, 0, 0], [1, 0, 0, 0, 4]]) demo_tracker = (map Inr outs, t') \<and>
      length outs = length [[1, 0, 0, 0, 0], [1, 0, 0, 0, 4 :: byte]] \<and>
      feed demo_codec (\<lambda>b. ucast (hd b)) [[1, 0], [0, 0, 0, 1, 0, 0], [0, 4]] (ClientSession_new 5 True) demo_tracker =
        (Inr (ClientSession_new 5 True \<lparr> outbox := outbox (ClientSession_new 5 True) @ outs \<rparr>), t')"
    by (rule session_chunking [OF demo_inv(1)])
  moreover have "length [[1, 0, 0, 0, 0], [1, 0, 0, 0, 4 :: byte]] = 2" by simp
  ultimately show ?thesis by metis
qed

end
