(* ===== verification/Control.thy ===== *)
theory Control
  imports Common
begin

text \<open>
  The control messages of \<open>common/schemas/control.fbs\<close>, which the daemons answer on their
  local sockets. A field that a builder leaves out reads as its default: \<open>None\<close> for a
  vector or string, 0 or false for a scalar.
\<close>

abbreviation (input) ControlCommand_LIST_PEERS :: byte where "ControlCommand_LIST_PEERS \<equiv> 0"
abbreviation (input) ControlCommand_GET_LOCAL_STATUS :: byte where "ControlCommand_GET_LOCAL_STATUS \<equiv> 1"
abbreviation (input) ControlCommand_JOIN_POOL :: byte where "ControlCommand_JOIN_POOL \<equiv> 2"
abbreviation (input) ControlCommand_LEAVE_POOL :: byte where "ControlCommand_LEAVE_POOL \<equiv> 3"
abbreviation (input) ControlCommand_GET_MEMORY_STATS :: byte where "ControlCommand_GET_MEMORY_STATS \<equiv> 4"

datatype PeerState = ACTIVE | STALE

record PeerInfo =
  pi_node_id :: "bytes option"
  pi_hostname :: "string option"
  pi_address :: "string option"
  pi_free_ram_bytes :: nat
  pi_free_vram_bytes :: nat
  pi_memory_port :: nat
  pi_gpu_port :: nat
  pi_state :: PeerState
  pi_last_seen_ms :: nat

record ControlRequest =
  cq_command :: byte
  cq_request_id :: uint64

record ControlResponse =
  cr_request_id :: uint64
  cr_success :: bool
  cr_message :: "string option"
  cr_peers :: "PeerInfo list option"
  cr_local_node_id :: "bytes option"
  cr_local_hostname :: "string option"
  cr_local_free_ram :: nat
  cr_local_free_vram :: nat
  cr_pool_joined :: bool
  cr_peer_count :: nat
  cr_pool_total_bytes :: nat
  cr_pool_used_bytes :: nat
  cr_pool_free_bytes :: nat

definition blank_response :: "uint64 \<Rightarrow> bool \<Rightarrow> string \<Rightarrow> ControlResponse" where
  "blank_response request_id success msg = \<lparr> cr_request_id = request_id, cr_success = success,
     cr_message = Some msg, cr_peers = None, cr_local_node_id = None, cr_local_hostname = None,
     cr_local_free_ram = 0, cr_local_free_vram = 0, cr_pool_joined = False, cr_peer_count = 0,
     cr_pool_total_bytes = 0, cr_pool_used_bytes = 0, cr_pool_free_bytes = 0 \<rparr>"

text \<open>The generated FlatBuffers code for these tables.\<close>

record control_codec =
  verify_control_request :: "bytes \<Rightarrow> bool"
  get_control_request :: "bytes \<Rightarrow> ControlRequest"
  finish_control_response :: "ControlResponse \<Rightarrow> bytes"
  verify_control_response :: "bytes \<Rightarrow> bool"
  get_control_response :: "bytes \<Rightarrow> ControlResponse"
  finish_control_request :: "ControlRequest \<Rightarrow> bytes"

end
