(* ===== verification/MemoryDaemon.thy ===== *)
theory MemoryDaemon
  imports ClientSession Control
begin

text \<open>
  The memory daemon (\<open>memoryd/src/memory_daemon.cpp\<close>) and its control socket
  (\<open>memoryd/src/memory_control.cpp\<close>). The event loop of libuv is a step relation: each
  rule is one callback. The theory shows that a running daemon never reaches undefined
  behaviour, that every block belongs to a session that is still connected, and that the
  pool is whole again when the last session is gone.
\<close>

section \<open>State and construction\<close>

record MemoryDaemon =
  page_tracker :: PageTracker
  sessions :: "nat \<rightharpoonup> ClientSession"
  next_session_id :: nat
  server_open :: bool
  control_socket_name :: string
  listen_port :: int
  is_running :: bool

definition MemoryDaemon_new ::
  "(nat \<Rightarrow> bool) \<Rightarrow> (nat \<Rightarrow> byte) \<Rightarrow> 'node toml_table \<Rightarrow> ('node \<Rightarrow> nat option) \<Rightarrow> ('node \<Rightarrow> string option) \<Rightarrow>
   cpp_error + MemoryDaemon" where
  "MemoryDaemon_new new_ok junk config as_size as_string =
    (let total = Config_get config as_size ''memory'' ''total_reserved_bytes'' (1024 * 1024 * 256);
         psize = Config_get config as_size ''memory'' ''page_size_bytes'' 4096
     in case SlabAllocator_new new_ok junk total psize of
          Inl e \<Rightarrow> Inl e
        | Inr slab \<Rightarrow>
            (case PageTracker_new (Some slab) of
               Inl e \<Rightarrow> Inl e
             | Inr t \<Rightarrow> Inr \<lparr> page_tracker = t, sessions = Map.empty, next_session_id = 1, server_open = True,
                 control_socket_name = Config_get config as_string ''memory'' ''control_socket'' '''',
                 listen_port = 0, is_running = False \<rparr>))"

text \<open>\<open>run()\<close> up to the event loop: \<open>bind_rc\<close> and \<open>listen_rc\<close> are the results of the libuv
  calls, \<open>bound_port\<close> the port the system chose.\<close>

definition MemoryDaemon_run ::
  "'node toml_table \<Rightarrow> ('node \<Rightarrow> int option) \<Rightarrow> int \<Rightarrow> int \<Rightarrow> int \<Rightarrow> (int \<Rightarrow> string) \<Rightarrow> MemoryDaemon \<Rightarrow>
   (cpp_error + unit) \<times> MemoryDaemon" where
  "MemoryDaemon_run config as_int bind_rc bound_port listen_rc uv_strerror d =
    (if is_running d then (Inr (), d)
     else
       let port = Config_get config as_int ''memory'' ''port'' 9200 in
       if bind_rc < 0 then (Inl (RuntimeError (''Bind error: '' @ uv_strerror bind_rc)), d)
       else
         let d1 = d \<lparr> listen_port := (if port = 0 then bound_port else port) \<rparr> in
         if listen_rc < 0 then (Inl (RuntimeError (''Listen error: '' @ uv_strerror listen_rc)), d1)
         else (Inr (), d1 \<lparr> is_running := True \<rparr>))"

section \<open>Callbacks\<close>

definition MemoryDaemon_on_connection :: "int \<Rightarrow> bool \<Rightarrow> MemoryDaemon \<Rightarrow> MemoryDaemon" where
  "MemoryDaemon_on_connection status accept_ok d =
    (if status < 0 then d
     else d \<lparr> sessions := (sessions d)(next_session_id d \<mapsto> ClientSession_new (next_session_id d) accept_ok),
              next_session_id := u64_add (next_session_id d) 1 \<rparr>)"

definition session_read ::
  "memory_codec \<Rightarrow> (bytes \<Rightarrow> uint32) \<Rightarrow> nat \<Rightarrow> ClientSession \<Rightarrow> uv_read \<Rightarrow> MemoryDaemon \<Rightarrow> cpp_error + MemoryDaemon" where
  "session_read c ps sid s ev d =
    (case ClientSession_on_read c ps s (page_tracker d) ev of
       (Inl e, t') \<Rightarrow> Inl e
     | (Inr s', t') \<Rightarrow> Inr (d \<lparr> page_tracker := t', sessions := (sessions d)(sid \<mapsto> s') \<rparr>))"

definition session_closed :: "nat list \<Rightarrow> nat \<Rightarrow> ClientSession \<Rightarrow> MemoryDaemon \<Rightarrow> MemoryDaemon" where
  "session_closed order sid s d =
    d \<lparr> page_tracker := on_close_handle order s (page_tracker d), sessions := (sessions d)(sid := None) \<rparr>"

text \<open>The walk over all open handles on shutdown.\<close>

definition close_sockets :: "MemoryDaemon \<Rightarrow> MemoryDaemon" where
  "close_sockets d = d \<lparr> server_open := False,
     sessions := (\<lambda>sid. map_option (\<lambda>s. if 0 < close_calls s then s else uv_close_session s) (sessions d sid)) \<rparr>"

definition on_stop_async :: "MemoryDaemon \<Rightarrow> MemoryDaemon" where
  "on_stop_async d = (close_sockets d) \<lparr> is_running := False \<rparr>"

section \<open>The control socket\<close>

text \<open>The reply to a verified control request.\<close>

definition MemoryControl_answer :: "SlabAllocator option \<Rightarrow> ControlRequest \<Rightarrow> ControlResponse" where
  "MemoryControl_answer slab req =
    (case slab of
       Some s \<Rightarrow>
         if cq_command req = ControlCommand_GET_MEMORY_STATS then
           let total = u64_mul (total_pages s) (page_size s);
               free = u64_mul (free_pages_count s) (page_size s)
           in (blank_response (cq_request_id req) True ''OK'')
                \<lparr> cr_pool_total_bytes := total, cr_pool_free_bytes := free,
                  cr_pool_used_bytes := u64_sub total free \<rparr>
         else blank_response (cq_request_id req) False ''Unsupported command''
     | None \<Rightarrow> blank_response (cq_request_id req) False ''Unsupported command'')"

text \<open>The response vector stays as the caller passed it when the request is not accepted.\<close>

definition MemoryControl_handle_request ::
  "control_codec \<Rightarrow> SlabAllocator option \<Rightarrow> bytes \<Rightarrow> bytes \<Rightarrow> bytes" where
  "MemoryControl_handle_request c slab data resp =
    (if length data < 4 then resp
     else if \<not> verify_control_request c data then resp
     else finish_control_response c (MemoryControl_answer slab (get_control_request c data)))"

record MemoryControlSocket =
  socket_name :: string
  has_ipc :: bool
  started :: bool

definition MemoryControl_start :: "MemoryControlSocket \<Rightarrow> MemoryControlSocket" where
  "MemoryControl_start m =
    (if started m \<or> socket_name m = [] then m else m \<lparr> has_ipc := True, started := True \<rparr>)"

definition MemoryControl_stop :: "MemoryControlSocket \<Rightarrow> MemoryControlSocket" where
  "MemoryControl_stop m = (if \<not> started m then m else m \<lparr> has_ipc := False, started := False \<rparr>)"

section \<open>The event loop\<close>

text \<open>Reads are delivered to sessions that are not closing, the close callback runs for
  sessions that are. Reads carry the bound that keeps the handle counter from wrapping: a
  frame takes at least four bytes and allocates at most one handle.\<close>

inductive daemon_step ::
  "memory_codec \<Rightarrow> (bytes \<Rightarrow> uint32) \<Rightarrow> MemoryDaemon \<Rightarrow> cpp_error + MemoryDaemon \<Rightarrow> bool"
  for c ps where
  connect: "server_open d \<Longrightarrow> next_session_id d < SIZE_MAX \<Longrightarrow>
    daemon_step c ps d (Inr (MemoryDaemon_on_connection status accept_ok d))"
| receive: "sessions d sid = Some s \<Longrightarrow> close_calls s = 0 \<Longrightarrow>
    next_handle (page_tracker d) + length (read_buffer s) + length bs \<le> SIZE_MAX \<Longrightarrow>
    daemon_step c ps d (session_read c ps sid s (Data bs) d)"
| hangup: "sessions d sid = Some s \<Longrightarrow> close_calls s = 0 \<Longrightarrow>
    daemon_step c ps d (session_read c ps sid s Eof d)"
| closed: "sessions d sid = Some s \<Longrightarrow> 0 < close_calls s \<Longrightarrow>
    dom (allocations (page_tracker d)) \<subseteq> set order \<Longrightarrow>
    daemon_step c ps d (Inr (session_closed order sid s d))"
| stop: "daemon_step c ps d (Inr (on_stop_async d))"

inductive daemon_reach ::
  "memory_codec \<Rightarrow> (bytes \<Rightarrow> uint32) \<Rightarrow> cpp_error + MemoryDaemon \<Rightarrow> bool"
  for c ps where
  start: "MemoryDaemon_new new_ok junk (config :: string toml_table) as_size as_string = Inr d \<Longrightarrow> daemon_reach c ps (Inr d)"
| step: "daemon_reach c ps (Inr d) \<Longrightarrow> daemon_step c ps d r \<Longrightarrow> daemon_reach c ps r"

section \<open>Owners\<close>

definition owners :: "BlockStore \<Rightarrow> nat set" where
  "owners st = {o'. \<exists>h bs. blocks st h = Some (o', bs)}"

lemma spec_owners:
  "spec_allocate st n = (Inr h, st') \<Longrightarrow> owners (spec_assign st' h sid) \<subseteq> insert sid (owners st)"
  "spec_allocate st n = (Inl e, st') \<Longrightarrow> owners st' = owners st"
  "spec_free st h sid = (r, st') \<Longrightarrow> owners st' \<subseteq> owners st"
  "spec_write st h off d sid = (r, st') \<Longrightarrow> owners st' \<subseteq> owners st"
proof -
  show "spec_allocate st n = (Inr h, st') \<Longrightarrow> owners (spec_assign st' h sid) \<subseteq> insert sid (owners st)"
    by (auto simp: spec_allocate_def spec_assign_def owners_def split: if_splits option.splits) blast+
  show "spec_allocate st n = (Inl e, st') \<Longrightarrow> owners st' = owners st"
    by (auto simp: spec_allocate_def split: if_splits)
  show "spec_free st h sid = (r, st') \<Longrightarrow> owners st' \<subseteq> owners st"
    by (auto simp: spec_free_def spec_drop_def owners_def split: if_splits sum.splits) blast+
  show "spec_write st h off d sid = (r, st') \<Longrightarrow> owners st' \<subseteq> owners st"
    by (auto simp: spec_write_def spec_check_def owners_def split: if_splits option.splits) blast+
qed

lemma dispatch_owners:
  assumes inv: "tracker_inv t" and nxt: "next_handle t < SIZE_MAX"
    and d: "dispatch_request t sid req = (r, t')"
  shows "owners (store_of t') \<subseteq> insert sid (owners (store_of t))"
  using d
proof (cases rule: dispatch_cases)
  case (alloc_ok h t1)
  from tracker.al_ok [OF inv _ uint64_bound alloc_ok(1)] nxt
  have a: "tracker_inv t1" "spec_allocate (store_of t) (unat (req_size req)) = (Inr h, store_of t1)" by auto
  then show ?thesis using alloc_ok(2) tracker.asg_ok [OF a(1), of h sid] spec_owners(1) [OF a(2)] by simp
next
  case (alloc_fail e)
  from tracker.al_ok [OF inv _ uint64_bound alloc_fail(1)] nxt spec_owners(2) show ?thesis by fastforce
next
  case (dealloc r1)
  from tracker.fr_ok [OF inv dealloc(1)] spec_owners(3) show ?thesis by blast
next
  case (store ds r1)
  from tracker.wr_ok [OF inv store(1)] spec_owners(4) show ?thesis by blast
qed auto

lemma process_owners:
  assumes "tracker_inv t" "next_handle t < SIZE_MAX" "process_request c t sid data = (r, t')"
  shows "owners (store_of t') \<subseteq> insert sid (owners (store_of t))"
  using assms(3) dispatch_owners [OF assms(1,2), of sid "get_request c data"]
  by (auto simp: process_request_def answer_request_def split: if_splits prod.splits sum.splits)

lemma process_buffer_safe:
  assumes "tracker_inv t" "next_handle t + length (read_buffer s) \<le> SIZE_MAX"
  shows "\<exists>s' t'. process_buffer c ps s t = (Inr s', t') \<and> tracker_inv t' \<and> session_id s' = session_id s \<and>
    owners (store_of t') \<subseteq> insert (session_id s) (owners (store_of t))"
  using assms
proof (induction "length (read_buffer s)" arbitrary: s t rule: less_induct)
  case less
  let ?b = "read_buffer s"
  let ?n = "unat (ps (take 4 ?b))"
  show ?case
  proof (cases rule: buffer_cases [of ps ?b])
    case frame
    obtain r t1 where p: "process_request c t (session_id s) (take (?n + 4) ?b) = (r, t1)" by fastforce
    have nxt: "next_handle t < SIZE_MAX" using less.prems(2) frame(1) by simp
    note st = process_step [OF less.prems(1) nxt p]
    from p st obtain s1 where h: "ClientSession_handle_request c s t (take (?n + 4) ?b) = (Inr s1, t1)"
      by (auto simp: ClientSession_handle_request_def)
    let ?s = "s1 \<lparr> read_buffer := drop (?n + 4) ?b \<rparr>"
    have "\<exists>s' t'. process_buffer c ps ?s t1 = (Inr s', t') \<and> tracker_inv t' \<and> session_id s' = session_id ?s \<and>
        owners (store_of t') \<subseteq> insert (session_id ?s) (owners (store_of t1))"
      using frame st less.prems(2) by (intro less.hyps) auto
    moreover have "process_buffer c ps s t = process_buffer c ps ?s t1"
      using frame h by (subst process_buffer.simps) (simp add: Let_def)
    moreover have "owners (store_of t1) \<subseteq> insert (session_id s) (owners (store_of t))"
      by (rule process_owners [OF less.prems(1) nxt p])
    ultimately show ?thesis using handle_request_fields [OF h] by auto
  qed (use less.prems(1) in \<open>auto simp: process_buffer_stuck process_buffer_oversized uv_close_session_def\<close>)
qed

section \<open>The daemon invariant\<close>

definition daemon_inv :: "MemoryDaemon \<Rightarrow> bool" where
  "daemon_inv d \<longleftrightarrow> tracker_inv (page_tracker d) \<and> 0 < next_session_id d \<and>
     (\<forall>sid s. sessions d sid = Some s \<longrightarrow> 0 < sid \<and> sid < next_session_id d \<and> session_id s = sid) \<and>
     owners (store_of (page_tracker d)) \<subseteq> dom (sessions d)"

lemma MemoryDaemon_new_inv:
  assumes "MemoryDaemon_new new_ok junk config as_size as_string = Inr d"
  shows "daemon_inv d"
proof -
  from assms obtain total psize slab t where
    s: "SlabAllocator_new new_ok junk total psize = Inr slab" and t: "PageTracker_new (Some slab) = Inr t"
    and d: "page_tracker d = t" "sessions d = Map.empty" "next_session_id d = 1"
    by (auto simp: MemoryDaemon_new_def Let_def split: sum.splits)
  have "tracker_inv t"
    using SlabAllocator_new_inv [OF s] t by (intro PageTracker_new_inv)
  moreover have "owners (store_of t) = {}"
    using t by (auto simp: owners_def PageTracker_new_def)
  ultimately show ?thesis by (simp add: daemon_inv_def d)
qed

lemma session_read_inv:
  assumes inv: "daemon_inv d" and s: "sessions d sid = Some s"
    and bound: "\<And>bs. ev = Data bs \<Longrightarrow>
      next_handle (page_tracker d) + length (read_buffer s) + length bs \<le> SIZE_MAX"
  shows "\<exists>d'. session_read c ps sid s ev d = Inr d' \<and> daemon_inv d'"
proof -
  let ?t = "page_tracker d"
  have sid: "session_id s = sid" and t: "tracker_inv ?t" using inv s by (auto simp: daemon_inv_def)
  have "\<exists>s' t'. ClientSession_on_read c ps s ?t ev = (Inr s', t') \<and> tracker_inv t' \<and> session_id s' = sid \<and>
      owners (store_of t') \<subseteq> insert sid (owners (store_of ?t))"
  proof (cases ev)
    case (Data bs)
    then show ?thesis
      using process_buffer_safe [OF t, of "s \<lparr> read_buffer := read_buffer s @ bs \<rparr>" c ps] bound sid
      by (simp add: ClientSession_on_read_def)
  qed (use t sid in \<open>auto simp: ClientSession_on_read_def uv_close_session_def\<close>)
  then obtain s' t' where r: "ClientSession_on_read c ps s ?t ev = (Inr s', t')" "tracker_inv t'"
      "session_id s' = sid" "owners (store_of t') \<subseteq> insert sid (owners (store_of ?t))" by blast
  have "owners (store_of t') \<subseteq> insert sid (dom (sessions d))" using r(4) inv by (auto simp: daemon_inv_def)
  then show ?thesis using inv s r(1,2,3) by (auto simp: session_read_def daemon_inv_def)
qed

lemma session_closed_inv:
  assumes inv: "daemon_inv d" and s: "sessions d sid = Some s"
    and order: "dom (allocations (page_tracker d)) \<subseteq> set order"
  shows "daemon_inv (session_closed order sid s d)"
proof -
  let ?t = "page_tracker d"
  have sid: "session_id s = sid" "sid \<noteq> 0" and t: "tracker_inv ?t" using inv s by (auto simp: daemon_inv_def)
  have "dom (blocks (store_of ?t)) \<subseteq> set order" using order by (simp only: dom_store)
  note sw = tracker.sweep_exact [OF t sid(2) this]
  have "owners (store_of (free_all_for_owner order ?t sid)) \<subseteq> owners (store_of ?t) - {sid}"
  proof
    fix x assume "x \<in> owners (store_of (free_all_for_owner order ?t sid))"
    then obtain h bs where "blocks (store_of (free_all_for_owner order ?t sid)) h = Some (x, bs)"
      by (auto simp: owners_def)
    with sw [of h] have "blocks (store_of ?t) h = Some (x, bs)" "x \<noteq> sid"
      by (auto simp del: store_of_simps split: option.splits if_splits)
    then show "x \<in> owners (store_of ?t) - {sid}" unfolding owners_def by blast
  qed
  moreover have "tracker_inv (free_all_for_owner order ?t sid)" using t by (rule sweep_refines(1))
  ultimately show ?thesis using inv sid
    by (auto simp: session_closed_def on_close_handle_def daemon_inv_def)
qed

lemma daemon_step_inv:
  "daemon_step c ps d r \<Longrightarrow> daemon_inv d \<Longrightarrow> \<exists>d'. r = Inr d' \<and> daemon_inv d'"
proof (induction rule: daemon_step.induct)
  case (connect d status accept_ok)
  then have "u64_add (next_session_id d) 1 = Suc (next_session_id d)" by (simp add: u64_simps SIZE_MAX_def)
  then show ?case using connect(3)
    by (auto simp: MemoryDaemon_on_connection_def daemon_inv_def ClientSession_new_def less_Suc_eq)
next
  case (receive d sid s bs)
  then show ?case by (intro session_read_inv) auto
next
  case (hangup d sid s)
  then show ?case by (intro session_read_inv) auto
next
  case (closed d sid s order)
  then show ?case by (auto intro: session_closed_inv)
next
  case (stop d)
  have "dom (sessions (on_stop_async d)) = dom (sessions d)" by (auto simp: on_stop_async_def close_sockets_def dom_def)
  then show ?case using stop
    by (auto simp: daemon_inv_def on_stop_async_def close_sockets_def uv_close_session_def)
qed

lemma daemon_reach_inv: "daemon_reach c ps r \<Longrightarrow> \<exists>d. r = Inr d \<and> daemon_inv d"
proof (induction rule: daemon_reach.induct)
  case (start new_ok junk config as_size as_string d)
  then show ?case using MemoryDaemon_new_inv by blast
next
  case (step d r)
  then show ?case using daemon_step_inv by blast
qed

lemma daemon_pool_whole:
  assumes "daemon_inv d" "sessions d = Map.empty"
  shows "free_pages_count (allocator (page_tracker d)) = total_pages (allocator (page_tracker d))"
proof (rule no_leak)
  show "tracker_inv (page_tracker d)" using assms(1) by (simp add: daemon_inv_def)
  have "owners (store_of (page_tracker d)) = {}" using assms by (auto simp: daemon_inv_def)
  then have "blocks (store_of (page_tracker d)) h = None" for h
    by (cases "blocks (store_of (page_tracker d)) h") (auto simp: owners_def simp del: store_of_simps)
  then show "allocations (page_tracker d) = Map.empty" by auto
qed

section \<open>Properties\<close>


definition demo_daemon :: "cpp_error + MemoryDaemon" where
  "demo_daemon = MemoryDaemon_new (\<lambda>_. True) (\<lambda>_. 0) (\<lambda>_ _. None :: string option) (\<lambda>_. None) (\<lambda>_. None)"

lemma demo_daemon_reach: "\<exists>d. demo_daemon = Inr d \<and> daemon_reach c ps (Inr d) \<and> sessions d = Map.empty"
proof -
  have "268435456 div 4096 \<le> SIZE_MAX div 4096" by (simp add: SIZE_MAX_def W64_def)
  then obtain d where d: "demo_daemon = Inr d" "sessions d = Map.empty"
    by (auto simp: demo_daemon_def MemoryDaemon_new_def SlabAllocator_new_def PageTracker_new_def
      Config_get_def Let_def)
  then show ?thesis using daemon_reach.start [of _ _ _ _ _ d] by (auto simp: demo_daemon_def)
qed




text \<open>Property C35. The occupancy that the control socket reports is exact: the figures are the
  byte counts of the slab without wrap-around, and used and free add up to the total.\<close>

theorem control_stats_exact:
  assumes "slab_inv s" "cq_command req = ControlCommand_GET_MEMORY_STATS"
  shows "cr_success (MemoryControl_answer (Some s) req) \<and>
    cr_pool_total_bytes (MemoryControl_answer (Some s) req) =
      total_pages s * page_size s \<and>
    cr_pool_free_bytes (MemoryControl_answer (Some s) req) =
      free_pages_count s * page_size s \<and>
    cr_pool_used_bytes (MemoryControl_answer (Some s) req) =
      card (live_pages s) * page_size s"
proof -
  have le: "free_pages_count s \<le> total_pages s" using free_plus_live [OF assms(1)] by simp
  then have fl: "free_pages_count s * page_size s \<le> total_pages s * page_size s" by (rule mult_le_mono1)
  have w: "total_pages s * page_size s < W64" by (rule slab_invD(3) [OF assms(1)])
  have "card (live_pages s) = total_pages s - free_pages_count s"
    using free_plus_live [OF assms(1)] by simp
  then have "card (live_pages s) * page_size s = total_pages s * page_size s - free_pages_count s * page_size s"
    by (simp only: diff_mult_distrib)
  then show ?thesis
    using u64_mul_exact [OF w] u64_mul_exact [OF le_less_trans [OF fl w]] u64_sub_exact [OF fl w]
    using assms(2) by (simp add: MemoryControl_answer_def Let_def blank_response_def)
qed

theorem control_stats_exact_witness:
  "cr_pool_total_bytes (MemoryControl_answer (Some demo_slab)
     \<lparr> cq_command = ControlCommand_GET_MEMORY_STATS, cq_request_id = 7 \<rparr>) =
   total_pages demo_slab * page_size demo_slab"
  using control_stats_exact [OF SlabAllocator_new_inv(1) [OF demo_slab_new], of
    "\<lparr> cq_command = ControlCommand_GET_MEMORY_STATS, cq_request_id = 7 \<rparr>"] by simp

end
