(* ===== verification/LruCache.thy ===== *)
theory LruCache
  imports Common
begin

text \<open>
  The client's local cache of blocks (\<open>memclient/src/lru_cache.cpp\<close>): a list with the most
  recently used block at the front and a hash index from handle to list position. A list
  iterator is modelled by the handle of the block it points to; \<open>lru_map\<close> is the set of
  handles the index holds. The theory shows that the byte count is exact and never exceeds
  the limit, and that blocks leave in least-recently-used order and no sooner than needed.
\<close>

section \<open>State\<close>

record CacheBlock =
  cb_handle :: nat
  cb_data :: bytes
  cb_dirty :: bool

record LRUCache =
  max_bytes :: nat
  current_bytes :: nat
  lru_list :: "CacheBlock list"
  lru_map :: "nat set"

definition LRUCache_new :: "nat \<Rightarrow> LRUCache" where
  "LRUCache_new limit = \<lparr> max_bytes = limit, current_bytes = 0, lru_list = [], lru_map = {} \<rparr>"

section \<open>Operations\<close>

definition deref :: "LRUCache \<Rightarrow> nat \<Rightarrow> CacheBlock option" where
  "deref c h = find (\<lambda>b. cb_handle b = h) (lru_list c)"

definition erase_block :: "LRUCache \<Rightarrow> CacheBlock \<Rightarrow> LRUCache" where
  "erase_block c b = c \<lparr> current_bytes := u64_sub (current_bytes c) (length (cb_data b)),
     lru_list := filter (\<lambda>x. cb_handle x \<noteq> cb_handle b) (lru_list c),
     lru_map := lru_map c - {cb_handle b} \<rparr>"

definition pop_last :: "LRUCache \<Rightarrow> LRUCache" where
  "pop_last c = c \<lparr> current_bytes := u64_sub (current_bytes c) (length (cb_data (last (lru_list c)))),
     lru_list := butlast (lru_list c),
     lru_map := lru_map c - {cb_handle (last (lru_list c))} \<rparr>"

text \<open>The eviction loop of \<open>put\<close>.\<close>

function make_room :: "nat \<Rightarrow> LRUCache \<Rightarrow> LRUCache" where
  "make_room n c =
    (if max_bytes c < u64_add (current_bytes c) n \<and> lru_list c \<noteq> [] then make_room n (pop_last c) else c)"
  by pat_completeness auto
termination
  by (relation "measure (\<lambda>(n, c). length (lru_list c))") (auto simp: pop_last_def)

declare make_room.simps [simp del]

definition LRUCache_put :: "LRUCache \<Rightarrow> nat \<Rightarrow> bytes \<Rightarrow> bool \<Rightarrow> bool \<times> LRUCache" where
  "LRUCache_put c h data dirty =
    (if max_bytes c < length data then (False, c)
     else
       let c1 = (if h \<in> lru_map c then (case deref c h of Some b \<Rightarrow> erase_block c b | None \<Rightarrow> c) else c);
           c2 = make_room (length data) c1
       in (True, c2 \<lparr> current_bytes := u64_add (current_bytes c2) (length data),
            lru_list := \<lparr> cb_handle = h, cb_data = data, cb_dirty = dirty \<rparr> # lru_list c2,
            lru_map := insert h (lru_map c2) \<rparr>))"

definition LRUCache_get :: "LRUCache \<Rightarrow> nat \<Rightarrow> bytes option \<times> LRUCache" where
  "LRUCache_get c h =
    (if h \<notin> lru_map c then (None, c)
     else case deref c h of
       None \<Rightarrow> (None, c)
     | Some b \<Rightarrow> (Some (cb_data b), c \<lparr> lru_list := b # filter (\<lambda>x. cb_handle x \<noteq> h) (lru_list c) \<rparr>))"

definition LRUCache_remove :: "LRUCache \<Rightarrow> nat \<Rightarrow> bool \<times> LRUCache" where
  "LRUCache_remove c h =
    (if h \<notin> lru_map c then (False, c)
     else case deref c h of None \<Rightarrow> (True, c) | Some b \<Rightarrow> (True, erase_block c b))"

definition evict_one :: "LRUCache \<Rightarrow> CacheBlock option \<times> LRUCache" where
  "evict_one c = (if lru_list c = [] then (None, c) else (Some (last (lru_list c)), pop_last c))"

definition needs_eviction :: "LRUCache \<Rightarrow> nat \<Rightarrow> bool" where
  "needs_eviction c additional_bytes \<longleftrightarrow> max_bytes c < u64_add (current_bytes c) additional_bytes"

definition LRUCache_count :: "LRUCache \<Rightarrow> nat" where
  "LRUCache_count c = length (lru_list c)"

section \<open>Invariant\<close>

definition total_bytes :: "CacheBlock list \<Rightarrow> nat" where
  "total_bytes bs = sum_list (map (\<lambda>b. length (cb_data b)) bs)"

text \<open>The limit is at most half the address space, which keeps the sums of the code exact.\<close>

definition lru_inv :: "LRUCache \<Rightarrow> bool" where
  "lru_inv c \<longleftrightarrow> 2 * max_bytes c < W64 \<and> current_bytes c = total_bytes (lru_list c) \<and>
     current_bytes c \<le> max_bytes c \<and> distinct (map cb_handle (lru_list c)) \<and>
     lru_map c = set (map cb_handle (lru_list c))"

lemma total_bytes_simps [simp]:
  "total_bytes [] = 0"
  "total_bytes (b # bs) = length (cb_data b) + total_bytes bs"
  "total_bytes (xs @ ys) = total_bytes xs + total_bytes ys"
  by (simp_all add: total_bytes_def)

lemma lru_invD:
  assumes "lru_inv c"
  shows "2 * max_bytes c < W64" "current_bytes c = total_bytes (lru_list c)" "current_bytes c \<le> max_bytes c"
    "distinct (map cb_handle (lru_list c))" "lru_map c = set (map cb_handle (lru_list c))"
  using assms by (auto simp: lru_inv_def)

lemma LRUCache_new_inv: "2 * limit < W64 \<Longrightarrow> lru_inv (LRUCache_new limit)"
  by (simp add: lru_inv_def LRUCache_new_def)

lemma deref_split:
  assumes "distinct (map cb_handle bs)" "find (\<lambda>b. cb_handle b = h) bs = Some b"
  shows "\<exists>xs ys. bs = xs @ b # ys \<and> cb_handle b = h \<and> filter (\<lambda>x. cb_handle x \<noteq> h) bs = xs @ ys"
proof -
  from assms(2) obtain i where i: "i < length bs" "bs ! i = b" "cb_handle b = h"
    by (auto simp: find_Some_iff)
  let ?xs = "take i bs" and ?ys = "drop (Suc i) bs"
  have bs: "bs = ?xs @ b # ?ys" using i id_take_nth_drop by fastforce
  then have d: "distinct (map cb_handle (?xs @ b # ?ys))" using assms(1) by metis
  then have "filter (\<lambda>x. cb_handle x \<noteq> h) ?xs = ?xs" "filter (\<lambda>x. cb_handle x \<noteq> h) ?ys = ?ys"
    using i(3) by (auto intro!: filter_True) (metis imageI)+
  then have "filter (\<lambda>x. cb_handle x \<noteq> h) (?xs @ b # ?ys) = ?xs @ ?ys"
    using i(3) by (simp only: filter_append filter.simps simp_thms if_False)
  then have "filter (\<lambda>x. cb_handle x \<noteq> h) bs = ?xs @ ?ys" using bs by metis
  then show ?thesis using bs i(3) by blast
qed

lemma deref_None_iff: "deref c h = None \<longleftrightarrow> h \<notin> set (map cb_handle (lru_list c))"
  by (auto simp: deref_def find_None_iff)

text \<open>The list without the block of one handle.\<close>

definition without :: "nat \<Rightarrow> CacheBlock list \<Rightarrow> CacheBlock list" where
  "without h bs = filter (\<lambda>x. cb_handle x \<noteq> h) bs"

lemma erase_block_ok:
  assumes "lru_inv c" "deref c h = Some b"
  shows "lru_inv (erase_block c b)" "lru_list (erase_block c b) = without h (lru_list c)"
    "max_bytes (erase_block c b) = max_bytes c"
proof -
  note d = lru_invD [OF assms(1)]
  obtain xs ys where s: "lru_list c = xs @ b # ys" "cb_handle b = h"
      "filter (\<lambda>x. cb_handle x \<noteq> h) (lru_list c) = xs @ ys"
    using deref_split [OF d(4)] assms(2) unfolding deref_def by blast
  have sub: "u64_sub (current_bytes c) (length (cb_data b)) = total_bytes (xs @ ys)"
    using d(1,2,3) s(1) by (subst u64_sub_exact) auto
  have "total_bytes (xs @ ys) \<le> max_bytes c" using d(2,3) s(1) by simp
  moreover have "distinct (map cb_handle (xs @ ys))" using d(4) s(1) by simp
  moreover have "lru_map c - {cb_handle b} = set (map cb_handle (xs @ ys))"
    using d(4,5) s(1) by auto
  ultimately show "lru_inv (erase_block c b)"
    using d(1) s(2,3) sub by (simp add: lru_inv_def erase_block_def)
  show "lru_list (erase_block c b) = without h (lru_list c)" "max_bytes (erase_block c b) = max_bytes c"
    using s(2) by (simp_all add: erase_block_def without_def)
qed

lemma pop_last_ok:
  assumes "lru_inv c" "lru_list c \<noteq> []"
  shows "lru_inv (pop_last c)" "lru_list (pop_last c) = butlast (lru_list c)" "max_bytes (pop_last c) = max_bytes c"
proof -
  note d = lru_invD [OF assms(1)]
  obtain xs b where s: "lru_list c = xs @ [b]" using assms(2) by (metis append_butlast_last_id)
  have "u64_sub (current_bytes c) (length (cb_data b)) = total_bytes xs"
    using d(1,2,3) s by (subst u64_sub_exact) auto
  moreover have "lru_map c - {cb_handle b} = set (map cb_handle xs)" using d(4,5) s by auto
  ultimately show "lru_inv (pop_last c)"
    using d s by (simp add: lru_inv_def pop_last_def)
  show "lru_list (pop_last c) = butlast (lru_list c)" "max_bytes (pop_last c) = max_bytes c"
    by (simp_all add: pop_last_def)
qed

text \<open>The eviction loop keeps the longest most-recent prefix that leaves room.\<close>

lemma make_room_ok:
  assumes "lru_inv c" "n \<le> max_bytes c"
  shows "lru_inv (make_room n c) \<and> max_bytes (make_room n c) = max_bytes c \<and>
    (\<exists>k. lru_list (make_room n c) = take k (lru_list c) \<and> total_bytes (take k (lru_list c)) + n \<le> max_bytes c \<and>
      (\<forall>j. k < j \<longrightarrow> j \<le> length (lru_list c) \<longrightarrow> max_bytes c < total_bytes (take j (lru_list c)) + n))"
  using assms
proof (induction n c rule: make_room.induct)
  case (1 n c)
  note d = lru_invD [OF 1(2)]
  have add: "u64_add (current_bytes c) n = total_bytes (lru_list c) + n"
    using d(1,2,3) 1(3) by (subst u64_add_exact) auto
  show ?case
  proof (cases "max_bytes c < u64_add (current_bytes c) n \<and> lru_list c \<noteq> []")
    case False
    then have "total_bytes (lru_list c) + n \<le> max_bytes c" using add 1(3) by (cases "lru_list c") auto
    moreover have "make_room n c = c" using False by (subst make_room.simps) auto
    ultimately show ?thesis using 1(2) by (intro conjI exI [of _ "length (lru_list c)"]) auto
  next
    case True
    then have m: "make_room n c = make_room n (pop_last c)" by (subst make_room.simps) simp
    note p = pop_last_ok [OF 1(2)]
    from 1(1) [OF True] True p 1(3) obtain k where IH: "lru_inv (make_room n c)"
        "max_bytes (make_room n c) = max_bytes c"
        "lru_list (make_room n c) = take k (butlast (lru_list c))"
        "total_bytes (take k (butlast (lru_list c))) + n \<le> max_bytes c"
        "\<forall>j. k < j \<longrightarrow> j \<le> length (butlast (lru_list c)) \<longrightarrow>
          max_bytes c < total_bytes (take j (butlast (lru_list c))) + n"
      unfolding m by auto
    define k' where "k' = min k (length (lru_list c) - 1)"
    have t: "take j (butlast (lru_list c)) = take j (lru_list c)" if "j \<le> length (lru_list c) - 1" for j
      using that by (simp add: butlast_conv_take)
    have tk: "take k (butlast (lru_list c)) = take k' (lru_list c)"
      by (simp add: butlast_conv_take k'_def min.commute)
    have "max_bytes c < total_bytes (take j (lru_list c)) + n" if "k' < j" "j \<le> length (lru_list c)" for j
    proof (cases "j = length (lru_list c)")
      case True
      then show ?thesis using \<open>max_bytes c < u64_add (current_bytes c) n \<and> lru_list c \<noteq> []\<close> add by simp
    next
      case False
      then have "k < j" "j \<le> length (butlast (lru_list c))" using that by (auto simp: k'_def)
      then show ?thesis using IH(5) t [of j] by auto
    qed
    then show ?thesis using IH tk by auto
  qed
qed

lemma without_absent: "h \<notin> set (map cb_handle bs) \<Longrightarrow> without h bs = bs"
  by (auto simp: without_def intro!: filter_True)

lemma LRUCache_put_ok:
  assumes inv: "lru_inv c" and fit: "length data \<le> max_bytes c"
  shows "\<exists>k c'. LRUCache_put c h data dirty = (True, c') \<and> lru_inv c' \<and> max_bytes c' = max_bytes c \<and>
    lru_list c' = \<lparr> cb_handle = h, cb_data = data, cb_dirty = dirty \<rparr> # take k (without h (lru_list c)) \<and>
    (\<forall>j. k < j \<longrightarrow> j \<le> length (without h (lru_list c)) \<longrightarrow>
      max_bytes c < total_bytes (take j (without h (lru_list c))) + length data)"
proof -
  note d = lru_invD [OF inv]
  define c1 where "c1 = (if h \<in> lru_map c then (case deref c h of Some b \<Rightarrow> erase_block c b | None \<Rightarrow> c) else c)"
  have c1: "lru_inv c1" "lru_list c1 = without h (lru_list c)" "max_bytes c1 = max_bytes c"
    using inv erase_block_ok [OF inv, of h] deref_None_iff [of c h] without_absent [of h "lru_list c"] d(5)
    by (auto simp: c1_def split: option.splits)
  define c2 where "c2 = make_room (length data) c1"
  from make_room_ok [OF c1(1), of "length data"] c1 fit obtain k where
    c2: "lru_inv c2" "max_bytes c2 = max_bytes c" "lru_list c2 = take k (without h (lru_list c))"
      "total_bytes (take k (without h (lru_list c))) + length data \<le> max_bytes c"
      "\<forall>j. k < j \<longrightarrow> j \<le> length (without h (lru_list c)) \<longrightarrow>
        max_bytes c < total_bytes (take j (without h (lru_list c))) + length data"
    by (auto simp: c2_def)
  note e = lru_invD [OF c2(1)]
  have "u64_add (current_bytes c2) (length data) = total_bytes (lru_list c2) + length data"
    using e(1,2,3) fit c2(2) by (subst u64_add_exact) auto
  moreover have "h \<notin> set (map cb_handle (lru_list c2))"
    unfolding c2(3) without_def by (auto dest: in_set_takeD)
  moreover define c' where "c' = c2 \<lparr> current_bytes := u64_add (current_bytes c2) (length data),
      lru_list := \<lparr> cb_handle = h, cb_data = data, cb_dirty = dirty \<rparr> # lru_list c2,
      lru_map := insert h (lru_map c2) \<rparr>"
  ultimately have "lru_inv c'" using e c2(2,3,4) by (simp add: lru_inv_def)
  moreover have "LRUCache_put c h data dirty = (True, c')"
    using fit unfolding LRUCache_put_def Let_def c1_def [symmetric] c2_def [symmetric] c'_def by simp
  ultimately show ?thesis using c2 by (intro exI [of _ k] exI [of _ c']) (simp add: c'_def)
qed

lemma LRUCache_get_ok:
  assumes inv: "lru_inv c"
  shows "lru_inv (snd (LRUCache_get c h))" "fst (LRUCache_get c h) = map_option cb_data (deref c h)"
proof -
  note d = lru_invD [OF inv]
  show "fst (LRUCache_get c h) = map_option cb_data (deref c h)"
    using deref_None_iff [of c h] d(5) by (auto simp: LRUCache_get_def split: option.splits)
  show "lru_inv (snd (LRUCache_get c h))"
  proof (cases "deref c h")
    case None
    then show ?thesis using inv by (simp add: LRUCache_get_def)
  next
    case (Some b)
    from deref_split [OF d(4) Some [unfolded deref_def]] obtain xs ys where
      s: "lru_list c = xs @ b # ys" "cb_handle b = h" "filter (\<lambda>x. cb_handle x \<noteq> h) (lru_list c) = xs @ ys" by blast
    have "distinct (map cb_handle (b # xs @ ys))" "set (map cb_handle (b # xs @ ys)) = set (map cb_handle (lru_list c))"
      using d(4) s(1) by auto
    then show ?thesis using inv Some s by (auto simp: LRUCache_get_def lru_inv_def)
  qed
qed

text \<open>The operations as they reach the cache, in any order.\<close>

datatype lru_op = Put nat bytes bool | Get nat | Remove nat | Evict

primrec lru_apply :: "lru_op \<Rightarrow> LRUCache \<Rightarrow> LRUCache" where
  "lru_apply (Put h data dirty) c = snd (LRUCache_put c h data dirty)"
| "lru_apply (Get h) c = snd (LRUCache_get c h)"
| "lru_apply (Remove h) c = snd (LRUCache_remove c h)"
| "lru_apply Evict c = snd (evict_one c)"

lemma lru_apply_inv: "lru_inv c \<Longrightarrow> lru_inv (lru_apply x c)"
proof (cases x)
  case (Put h data dirty)
  assume "lru_inv c"
  then show ?thesis using LRUCache_put_ok [of c data h dirty] Put
    by (cases "length data \<le> max_bytes c") (auto simp: LRUCache_put_def)
qed (auto simp: LRUCache_get_ok LRUCache_remove_def erase_block_ok evict_one_def pop_last_ok split: option.splits)

section \<open>Properties\<close>

text \<open>Property C16. \<open>put\<close> of a block that fits always succeeds and leaves the new block in
  front of the most recently used others: exactly the longest prefix of the recency order that
  fits beside it stays, so blocks are dropped from the old end and only when they must be.\<close>

theorem lru_put_evicts_minimal_suffix:
  assumes "lru_inv c" "length data \<le> max_bytes c"
  shows "\<exists>k. fst (LRUCache_put c h data dirty) \<and>
    lru_list (snd (LRUCache_put c h data dirty)) =
      \<lparr> cb_handle = h, cb_data = data, cb_dirty = dirty \<rparr> # take k (without h (lru_list c)) \<and>
    current_bytes (snd (LRUCache_put c h data dirty)) \<le> max_bytes c \<and>
    (\<forall>j. k < j \<longrightarrow> j \<le> length (without h (lru_list c)) \<longrightarrow>
      max_bytes c < total_bytes (take j (without h (lru_list c))) + length data)"
proof -
  from LRUCache_put_ok [OF assms, of h dirty] obtain k c' where
    p: "LRUCache_put c h data dirty = (True, c')" "lru_inv c'" "max_bytes c' = max_bytes c"
      "lru_list c' = \<lparr> cb_handle = h, cb_data = data, cb_dirty = dirty \<rparr> # take k (without h (lru_list c))"
      "\<forall>j. k < j \<longrightarrow> j \<le> length (without h (lru_list c)) \<longrightarrow>
        max_bytes c < total_bytes (take j (without h (lru_list c))) + length data" by blast
  show ?thesis using p lru_invD(3) [OF p(2)] by (intro exI [of _ k]) simp
qed

theorem lru_put_evicts_minimal_suffix_witness:
  "\<exists>k. lru_list (snd (LRUCache_put (snd (LRUCache_put (LRUCache_new 3) 1 [1, 1] True)) 2 [2, 2] False)) =
     \<lparr> cb_handle = 2, cb_data = [2, 2], cb_dirty = False \<rparr> #
     take k (without 2 (lru_list (snd (LRUCache_put (LRUCache_new 3) 1 [1, 1] True))))"
proof -
  have "lru_inv (lru_apply (Put 1 [1, 1] True) (LRUCache_new 3))"
    by (intro lru_apply_inv LRUCache_new_inv) (simp add: W64_def)
  moreover have "max_bytes (snd (LRUCache_put (LRUCache_new 3) 1 [1, 1] True)) = 3" by code_simp
  ultimately show ?thesis
    using lru_put_evicts_minimal_suffix [of "snd (LRUCache_put (LRUCache_new 3) 1 [1, 1] True)" "[2, 2]" 2 False]
    by auto
qed

text \<open>Property C36. After any sequence of operations on a fresh cache the byte count is the
  exact size of the cached blocks and within the limit, no handle is cached twice, and the
  index holds exactly the cached handles.\<close>

theorem lru_reachable_inv:
  assumes "2 * limit < W64"
  shows "lru_inv (fold lru_apply ops (LRUCache_new limit))"
proof -
  have "lru_inv c \<Longrightarrow> lru_inv (fold lru_apply ops c)" for c
    by (induction ops arbitrary: c) (auto simp: lru_apply_inv)
  then show ?thesis using LRUCache_new_inv [OF assms] by blast
qed

theorem lru_reachable_inv_witness:
  "lru_inv (fold lru_apply [Put 1 [1, 1] True, Put 2 [2, 2] True, Get 1, Evict] (LRUCache_new 3))"
  by (rule lru_reachable_inv) (simp add: W64_def)

end
