(* ===== verification/ClientPeers.thy ===== *)
theory ClientPeers
  imports MemoryProtocol Control LruCache
begin

text \<open>
  The client's peers and its network thread (\<open>memclient/src/client_api.cpp\<close>, the parts that
  do not touch blocks): the peer table fed by discovery, connection attempts, the choice of a
  peer, the outbound queue, and the matching of responses to pending requests. A raw
  \<open>RemotePeer*\<close> is the index of the peer in the table, which only grows. libuv and the local
  socket are the environment: the results of their calls are arguments. Times are in
  milliseconds.
\<close>

section \<open>State\<close>

record RemotePeer =
  rp_ip :: string
  rp_port :: nat
  rp_socket :: bool
  rp_connected :: bool
  rp_read_buffer :: bytes
  rp_free_ram_bytes :: nat
  rp_free_vram_bytes :: nat
  rp_capacity_known :: bool
  rp_last_capacity_update :: nat
  rp_close_calls :: nat

definition RemotePeer_new :: "string \<Rightarrow> nat \<Rightarrow> RemotePeer" where
  "RemotePeer_new ip port = \<lparr> rp_ip = ip, rp_port = port, rp_socket = False, rp_connected = False,
     rp_read_buffer = [], rp_free_ram_bytes = 0, rp_free_vram_bytes = 0, rp_capacity_known = False,
     rp_last_capacity_update = 0, rp_close_calls = 0 \<rparr>"

definition may_fit :: "RemotePeer \<Rightarrow> nat \<Rightarrow> bool" where
  "may_fit p sz \<longleftrightarrow> \<not> rp_capacity_known p \<or> sz \<le> rp_free_ram_bytes p"

record Stripe =
  stripe_handle :: uint64
  stripe_offset :: nat
  stripe_length :: nat
  stripe_peer :: nat

record RemoteAllocation =
  ra_handle :: uint64
  ra_size :: nat
  ra_peer :: "nat option"
  ra_stripes :: "Stripe list"
  ra_is_striped :: bool

record PeerEndpoint =
  ep_ip :: string
  ep_port :: nat
  ep_free_ram_bytes :: nat
  ep_free_vram_bytes :: nat

text \<open>\<open>mc_world\<close> is the state of everything behind the network. A promise is resolved when
  its request id has a value in \<open>mc_resolved\<close>.\<close>

record 'w MemoryClient =
  mc_cache :: LRUCache
  mc_remote :: "nat \<rightharpoonup> RemoteAllocation"
  mc_peers :: "RemotePeer list"
  mc_pending_connects :: "nat list"
  mc_outbound :: "(nat \<times> bytes) list"
  mc_pending :: "uint64 set"
  mc_resolved :: "uint64 \<rightharpoonup> bytes"
  mc_next_request_id :: uint64
  mc_next_local_handle :: nat
  mc_world :: 'w

definition upd_peer :: "nat \<Rightarrow> (RemotePeer \<Rightarrow> RemotePeer) \<Rightarrow> 'w MemoryClient \<Rightarrow> 'w MemoryClient" where
  "upd_peer i f m = (if i < length (mc_peers m) then m \<lparr> mc_peers := (mc_peers m)[i := f (mc_peers m ! i)] \<rparr> else m)"

section \<open>Peers\<close>

fun find_peer :: "string \<Rightarrow> nat \<Rightarrow> RemotePeer list \<Rightarrow> nat option" where
  "find_peer ip port [] = None"
| "find_peer ip port (p # ps) =
    (if rp_ip p = ip \<and> rp_port p = port then Some 0 else map_option Suc (find_peer ip port ps))"

text \<open>The peer's index, whether this call created it, and the table.\<close>

definition ensure_peer :: "string \<Rightarrow> nat \<Rightarrow> 'w MemoryClient \<Rightarrow> nat \<times> bool \<times> 'w MemoryClient" where
  "ensure_peer ip port m =
    (case find_peer ip port (mc_peers m) of
       Some i \<Rightarrow> (i, False, m)
     | None \<Rightarrow> (length (mc_peers m), True, m \<lparr> mc_peers := mc_peers m @ [RemotePeer_new ip port] \<rparr>))"

text \<open>How a connection attempt goes: socket initialisation fails, the address is unusable,
  \<open>uv_tcp_connect\<close> fails at once, or the attempt is in flight.\<close>

datatype connect_attempt = InitFailed | BadAddress | Refused | InFlight

definition start_connect :: "connect_attempt \<Rightarrow> nat \<Rightarrow> 'w MemoryClient \<Rightarrow> 'w MemoryClient" where
  "start_connect attempt i m =
    (if length (mc_peers m) \<le> i \<or> rp_socket (mc_peers m ! i) then m
     else case attempt of
       InitFailed \<Rightarrow> m
     | BadAddress \<Rightarrow> upd_peer i (\<lambda>p. p \<lparr> rp_socket := False \<rparr>) m
     | Refused \<Rightarrow> upd_peer i (\<lambda>p. p \<lparr> rp_socket := False \<rparr>) m
     | InFlight \<Rightarrow> upd_peer i (\<lambda>p. p \<lparr> rp_socket := True, rp_close_calls := 0 \<rparr>) m)"

text \<open>The connect callback.\<close>

definition on_connect :: "int \<Rightarrow> nat \<Rightarrow> 'w MemoryClient \<Rightarrow> 'w MemoryClient" where
  "on_connect status i m =
    (if status = 0 then upd_peer i (\<lambda>p. p \<lparr> rp_connected := True \<rparr>) m
     else upd_peer i (\<lambda>p. p \<lparr> rp_socket := False \<rparr>) m)"

definition drain_pending_connects :: "(nat \<Rightarrow> connect_attempt) \<Rightarrow> 'w MemoryClient \<Rightarrow> 'w MemoryClient" where
  "drain_pending_connects attempt m =
    fold (\<lambda>i. start_connect (attempt i) i) (mc_pending_connects m) (m \<lparr> mc_pending_connects := [] \<rparr>)"

definition connected_peers :: "'w MemoryClient \<Rightarrow> nat list" where
  "connected_peers m = filter (\<lambda>i. rp_connected (mc_peers m ! i)) [0..<length (mc_peers m)]"

section \<open>Discovery\<close>

definition endpoint_of :: "PeerInfo \<Rightarrow> PeerEndpoint option" where
  "endpoint_of p =
    (if pi_memory_port p = 0 then None
     else case pi_address p of
       None \<Rightarrow> None
     | Some addr \<Rightarrow> Some \<lparr> ep_ip = addr, ep_port = pi_memory_port p,
         ep_free_ram_bytes = pi_free_ram_bytes p, ep_free_vram_bytes = pi_free_vram_bytes p \<rparr>)"

text \<open>\<open>ipc\<close> is the round trip on discoveryd's control socket; an exception gives no peers.\<close>

definition query_discovery :: "control_codec \<Rightarrow> (bytes \<Rightarrow> cpp_error + bytes) \<Rightarrow> PeerEndpoint list" where
  "query_discovery c ipc =
    (case ipc (finish_control_request c \<lparr> cq_command = ControlCommand_LIST_PEERS, cq_request_id = 0 \<rparr>) of
       Inl e \<Rightarrow> []
     | Inr resp_buf \<Rightarrow>
         if length resp_buf < 4 then []
         else if \<not> verify_control_response c resp_buf then []
         else case cr_peers (get_control_response c resp_buf) of
           None \<Rightarrow> []
         | Some peers \<Rightarrow> List.map_filter endpoint_of peers)"

definition note_endpoint :: "nat \<Rightarrow> PeerEndpoint \<Rightarrow> 'w MemoryClient \<Rightarrow> 'w MemoryClient" where
  "note_endpoint now ep m =
    (case ensure_peer (ep_ip ep) (ep_port ep) m of (i, created, m1) \<Rightarrow>
       let m2 = upd_peer i (\<lambda>p. p \<lparr> rp_free_ram_bytes := ep_free_ram_bytes ep,
             rp_free_vram_bytes := ep_free_vram_bytes ep, rp_capacity_known := True,
             rp_last_capacity_update := now \<rparr>) m1
       in if rp_connected (mc_peers m2 ! i) then m2
          else m2 \<lparr> mc_pending_connects := mc_pending_connects m2 @ [i] \<rparr>)"

definition connect_to_peers :: "nat \<Rightarrow> PeerEndpoint list \<Rightarrow> 'w MemoryClient \<Rightarrow> 'w MemoryClient" where
  "connect_to_peers now discovered m = fold (note_endpoint now) discovered m"

text \<open>What happens while a caller sleeps: the peers discovery reported, how the connection
  attempts of the network thread go, and for each attempt in flight the status its callback
  gets, unless it is still undecided.\<close>

record network_round =
  nr_discovered :: "PeerEndpoint list"
  nr_attempt :: "nat \<Rightarrow> connect_attempt"
  nr_status :: "nat \<Rightarrow> int option"

definition complete_connect :: "(nat \<Rightarrow> int option) \<Rightarrow> nat \<Rightarrow> 'w MemoryClient \<Rightarrow> 'w MemoryClient" where
  "complete_connect status i m =
    (if rp_socket (mc_peers m ! i) \<and> \<not> rp_connected (mc_peers m ! i)
     then (case status i of None \<Rightarrow> m | Some st \<Rightarrow> on_connect st i m) else m)"

definition run_round :: "nat \<Rightarrow> network_round \<Rightarrow> 'w MemoryClient \<Rightarrow> 'w MemoryClient" where
  "run_round now r m =
    (let m1 = drain_pending_connects (nr_attempt r) (connect_to_peers now (nr_discovered r) m)
     in fold (complete_connect (nr_status r)) [0..<length (mc_peers m1)] m1)"

text \<open>The list of rounds ends with the deadline.\<close>

primrec wait_for_connected_peer ::
  "nat \<Rightarrow> network_round list \<Rightarrow> 'w MemoryClient \<Rightarrow> bool \<times> 'w MemoryClient" where
  "wait_for_connected_peer now [] m = (connected_peers m \<noteq> [], m)"
| "wait_for_connected_peer now (r # rs) m =
    (if connected_peers m \<noteq> [] then (True, m) else wait_for_connected_peer now rs (run_round now r m))"

text \<open>The background thread, for as many intervals as the client runs.\<close>

primrec discovery_loop :: "nat \<Rightarrow> network_round list \<Rightarrow> 'w MemoryClient \<Rightarrow> 'w MemoryClient" where
  "discovery_loop now [] m = m"
| "discovery_loop now (r # rs) m = discovery_loop now rs (run_round now r m)"

definition PEER_CAPACITY_TTL :: nat where
  "PEER_CAPACITY_TTL = 5000"

definition need_refresh :: "nat \<Rightarrow> 'w MemoryClient \<Rightarrow> bool" where
  "need_refresh now m \<longleftrightarrow> \<not> (\<exists>p \<in> set (mc_peers m). rp_connected p \<and> rp_capacity_known p \<and>
     now - rp_last_capacity_update p < PEER_CAPACITY_TTL)"

text \<open>The scan of \<open>select_best_peer\<close>: the best known peer so far with its free RAM, and the
  first peer of unknown capacity.\<close>

fun best_scan ::
  "nat \<Rightarrow> nat \<Rightarrow> RemotePeer list \<Rightarrow> (nat option \<times> nat) \<times> nat option \<Rightarrow> (nat option \<times> nat) \<times> nat option" where
  "best_scan need i [] acc = acc"
| "best_scan need i (p # ps) ((best, best_free), unknown) =
    best_scan need (Suc i) ps
     (if \<not> rp_connected p then ((best, best_free), unknown)
      else if \<not> rp_capacity_known p then ((best, best_free), if unknown = None then Some i else unknown)
      else if need \<le> rp_free_ram_bytes p \<and> best_free < rp_free_ram_bytes p
        then ((Some i, rp_free_ram_bytes p), unknown)
      else ((best, best_free), unknown))"

definition select_best_peer ::
  "nat \<Rightarrow> PeerEndpoint list \<Rightarrow> nat \<Rightarrow> 'w MemoryClient \<Rightarrow> nat option \<times> 'w MemoryClient" where
  "select_best_peer now discovered size_needed m =
    (let m1 = (if need_refresh now m then connect_to_peers now discovered m else m)
     in case best_scan size_needed 0 (mc_peers m1) ((None, 0), None) of
          ((Some i, _), _) \<Rightarrow> (Some i, m1)
        | ((None, _), unknown) \<Rightarrow> (unknown, m1))"

section \<open>Requests in flight\<close>

text \<open>The first half of \<open>sync_remote_call\<close>: register the request and queue its payload.\<close>

definition begin_call :: "nat \<Rightarrow> bytes \<Rightarrow> uint64 \<Rightarrow> 'w MemoryClient \<Rightarrow> 'w MemoryClient" where
  "begin_call i payload request_id m = m \<lparr> mc_pending := insert request_id (mc_pending m),
     mc_outbound := mc_outbound m @ [(i, payload)] \<rparr>"

text \<open>The second half: the promise is resolved in time, or the call throws.\<close>

definition end_call :: "uint64 \<Rightarrow> 'w MemoryClient \<Rightarrow> cpp_error + bytes" where
  "end_call request_id m =
    (case mc_resolved m request_id of
       Some resp \<Rightarrow> Inr resp
     | None \<Rightarrow> Inl (RuntimeError ''Remote call timed out''))"

text \<open>The wakeup callback: the payloads written to the sockets, in queue order. A payload for
  a peer that is not connected is dropped.\<close>

definition flush_outbound :: "'w MemoryClient \<Rightarrow> (nat \<times> bytes) list \<times> 'w MemoryClient" where
  "flush_outbound m =
    (filter (\<lambda>(i, payload). i < length (mc_peers m) \<and> rp_connected (mc_peers m ! i)) (mc_outbound m),
     m \<lparr> mc_outbound := [] \<rparr>)"

definition resolve_request :: "uint64 \<Rightarrow> bytes \<Rightarrow> 'w MemoryClient \<Rightarrow> 'w MemoryClient" where
  "resolve_request request_id resp m =
    (if request_id \<in> mc_pending m
     then m \<lparr> mc_pending := mc_pending m - {request_id}, mc_resolved := (mc_resolved m)(request_id \<mapsto> resp) \<rparr>
     else m)"

definition fail_pending_requests :: "'w MemoryClient \<Rightarrow> 'w MemoryClient" where
  "fail_pending_requests m = m \<lparr> mc_pending := {},
     mc_resolved := (\<lambda>r. if r \<in> mc_pending m then Some [] else mc_resolved m r) \<rparr>"

text \<open>The framing loop of \<open>on_peer_read\<close> on the peer's buffer: the requests it resolves in
  order, the rest of the buffer, and whether it closed the stream.\<close>

function peer_frames ::
  "memory_codec \<Rightarrow> (bytes \<Rightarrow> uint32) \<Rightarrow> bytes \<Rightarrow> (uint64 \<times> bytes) list \<times> bytes \<times> bool" where
  "peer_frames c prefixed_size b =
    (if length b < 4 then ([], b, False)
     else
       let sz = unat (prefixed_size (take 4 b)) in
       if 64 * 1024 * 1024 < sz then ([], b, True)
       else if sz \<le> length b - 4 then
         let frame = take (sz + 4) b in
         if \<not> verify_response c frame then ([], b, True)
         else (case peer_frames c prefixed_size (drop (sz + 4) b) of
             (rs, rest, closed) \<Rightarrow> ((resp_request_id (get_response c frame), frame) # rs, rest, closed))
       else ([], b, False))"
  by pat_completeness auto
termination
  by (relation "measure (\<lambda>(c, p, b). length b)") auto

declare peer_frames.simps [simp del]

datatype peer_event = PeerData bytes | PeerEof | PeerNothing

definition on_peer_read ::
  "memory_codec \<Rightarrow> (bytes \<Rightarrow> uint32) \<Rightarrow> nat \<Rightarrow> peer_event \<Rightarrow> 'w MemoryClient \<Rightarrow> 'w MemoryClient" where
  "on_peer_read c prefixed_size i ev m =
    (case ev of
       PeerData bs \<Rightarrow>
         (case peer_frames c prefixed_size (rp_read_buffer (mc_peers m ! i) @ bs) of
           (rs, rest, closed) \<Rightarrow>
             upd_peer i (\<lambda>p. p \<lparr> rp_read_buffer := rest,
                 rp_close_calls := (if closed then Suc (rp_close_calls p) else rp_close_calls p) \<rparr>)
               (fold (\<lambda>(r, frame). resolve_request r frame) rs m))
     | PeerEof \<Rightarrow>
         let m1 = fail_pending_requests (upd_peer i (\<lambda>p. p \<lparr> rp_connected := False \<rparr>) m)
         in if rp_close_calls (mc_peers m ! i) = 0
            then upd_peer i (\<lambda>p. p \<lparr> rp_socket := False, rp_close_calls := 1 \<rparr>) m1 else m1
     | PeerNothing \<Rightarrow> m)"

section \<open>Choice of a peer\<close>

definition usable :: "nat \<Rightarrow> RemotePeer \<Rightarrow> bool" where
  "usable need p \<longleftrightarrow> rp_connected p \<and> rp_capacity_known p \<and> need \<le> rp_free_ram_bytes p \<and> 0 < rp_free_ram_bytes p"

definition scan_ok :: "nat \<Rightarrow> RemotePeer list \<Rightarrow> (nat option \<times> nat) \<times> nat option \<Rightarrow> bool" where
  "scan_ok need ps acc \<longleftrightarrow> (case acc of ((best, best_free), unknown) \<Rightarrow>
     (case best of
        None \<Rightarrow> best_free = 0 \<and> (\<forall>p \<in> set ps. \<not> usable need p)
      | Some i \<Rightarrow> i < length ps \<and> usable need (ps ! i) \<and> rp_free_ram_bytes (ps ! i) = best_free \<and>
          (\<forall>p \<in> set ps. usable need p \<longrightarrow> rp_free_ram_bytes p \<le> best_free)) \<and>
     (case unknown of
        None \<Rightarrow> \<forall>p \<in> set ps. rp_connected p \<longrightarrow> rp_capacity_known p
      | Some i \<Rightarrow> i < length ps \<and> rp_connected (ps ! i) \<and> \<not> rp_capacity_known (ps ! i)))"

lemma best_scan_ok:
  "scan_ok need qs acc \<Longrightarrow> scan_ok need (qs @ ps) (best_scan need (length qs) ps acc)"
proof (induction ps arbitrary: qs acc)
  case Nil
  then show ?case by simp
next
  case (Cons p ps)
  obtain best bf unk where acc: "acc = ((best, bf), unk)" by (metis surj_pair)
  let ?acc = "if \<not> rp_connected p then ((best, bf), unk)
      else if \<not> rp_capacity_known p then ((best, bf), if unk = None then Some (length qs) else unk)
      else if need \<le> rp_free_ram_bytes p \<and> bf < rp_free_ram_bytes p
        then ((Some (length qs), rp_free_ram_bytes p), unk)
      else ((best, bf), unk)"
  have "scan_ok need (qs @ [p]) ?acc"
    using Cons.prems unfolding acc
    by (auto simp: scan_ok_def usable_def nth_append split: option.splits if_splits)
  from Cons.IH [OF this] show ?case by (simp add: acc)
qed

lemma best_scan_peers: "scan_ok need ps (best_scan need 0 ps ((None, 0), None))"
  using best_scan_ok [of need "[]" "((None, 0), None)" ps] by (simp add: scan_ok_def)

text \<open>
  \<open>select_best_peer\<close> returns a connected peer. If some peer reported enough free
  RAM it returns one with the most; otherwise one whose capacity is unknown, if any; and it
  returns none only when every connected peer is known to be too small.
\<close>

lemma select_best_peer_optimal:
  assumes "select_best_peer now discovered need m = (r, m')"
  shows "case r of
      None \<Rightarrow> \<forall>p \<in> set (mc_peers m'). rp_connected p \<longrightarrow> rp_capacity_known p \<and> \<not> usable need p
    | Some i \<Rightarrow> i < length (mc_peers m') \<and> rp_connected (mc_peers m' ! i) \<and>
        (usable need (mc_peers m' ! i) \<and>
           (\<forall>p \<in> set (mc_peers m'). usable need p \<longrightarrow> rp_free_ram_bytes p \<le> rp_free_ram_bytes (mc_peers m' ! i))
         \<or> \<not> rp_capacity_known (mc_peers m' ! i) \<and> (\<forall>p \<in> set (mc_peers m'). \<not> usable need p))"
proof -
  obtain best bf unk where scan: "best_scan need 0 (mc_peers m') ((None, 0), None) = ((best, bf), unk)"
    by (metis surj_pair)
  have r: "r = (case best of Some i \<Rightarrow> Some i | None \<Rightarrow> unk)"
    using assms scan by (auto simp: select_best_peer_def Let_def split: prod.splits option.splits if_splits)
  show ?thesis
    using best_scan_peers [of need "mc_peers m'"] unfolding scan r
    by (auto simp: scan_ok_def usable_def split: option.splits)
qed

section \<open>Matching of responses\<close>

lemma upd_peer_sel [simp]:
  "mc_resolved (upd_peer i f m) = mc_resolved m" "mc_pending (upd_peer i f m) = mc_pending m"
  "mc_outbound (upd_peer i f m) = mc_outbound m" "length (mc_peers (upd_peer i f m)) = length (mc_peers m)"
  "mc_pending_connects (upd_peer i f m) = mc_pending_connects m" "mc_world (upd_peer i f m) = mc_world m"
  "mc_remote (upd_peer i f m) = mc_remote m" "mc_cache (upd_peer i f m) = mc_cache m"
  by (simp_all add: upd_peer_def)

lemma upd_peer_nth [simp]:
  "j < length (mc_peers m) \<Longrightarrow> mc_peers (upd_peer i f m) ! j = (if i = j then f (mc_peers m ! j) else mc_peers m ! j)"
  by (simp add: upd_peer_def)

lemma resolve_request_peers [simp]: "mc_peers (resolve_request r b m) = mc_peers m"
  by (simp add: resolve_request_def)

lemma fold_resolve_peers [simp]:
  "mc_peers (fold (\<lambda>(r, frame). resolve_request r frame) rs m) = mc_peers m"
  by (induction rs arbitrary: m) (auto split: prod.splits)

definition answers :: "memory_codec \<Rightarrow> uint64 \<Rightarrow> bytes \<Rightarrow> bool" where
  "answers c r b \<longleftrightarrow> verify_response c b \<and> resp_request_id (get_response c b) = r"

lemma peer_frames_answers:
  "(r, b) \<in> set (fst (peer_frames c ps buf)) \<Longrightarrow> answers c r b"
proof (induction c ps buf rule: peer_frames.induct)
  case (1 c ps b)
  then show ?case
    by (subst (asm) (2) peer_frames.simps)
      (auto simp: Let_def answers_def split: if_splits prod.splits)
qed

lemma fold_resolve_answers:
  assumes "\<forall>r b. mc_resolved m r = Some b \<longrightarrow> b = [] \<or> answers c r b"
    and "\<forall>(r, b) \<in> set rs. answers c r b"
  shows "\<forall>r b. mc_resolved (fold (\<lambda>(r, frame). resolve_request r frame) rs m) r = Some b \<longrightarrow> b = [] \<or> answers c r b"
  using assms
proof (induction rs arbitrary: m)
  case (Cons x rs)
  obtain r b where x: "x = (r, b)" by (metis surj_pair)
  have "\<forall>r' b'. mc_resolved (resolve_request r b m) r' = Some b' \<longrightarrow> b' = [] \<or> answers c r' b'"
    using Cons.prems x by (auto simp: resolve_request_def)
  then show ?case using Cons.IH [of "resolve_request r b m"] Cons.prems(2) by (simp add: x)
qed simp

text \<open>What the application threads and the network thread do to the requests in flight, in
  any order: a call is registered, the queue is flushed, a socket is read.\<close>

datatype net_event = Call nat bytes uint64 | Flush | Read nat peer_event

primrec net_apply ::
  "memory_codec \<Rightarrow> (bytes \<Rightarrow> uint32) \<Rightarrow> net_event \<Rightarrow> 'w MemoryClient \<Rightarrow> 'w MemoryClient" where
  "net_apply c ps (Call i payload r) m = begin_call i payload r m"
| "net_apply c ps Flush m = snd (flush_outbound m)"
| "net_apply c ps (Read i ev) m = on_peer_read c ps i ev m"

lemma net_apply_resolved:
  assumes "\<forall>r b. mc_resolved m r = Some b \<longrightarrow> b = [] \<or> answers c r b"
  shows "\<forall>r b. mc_resolved (net_apply c ps e m) r = Some b \<longrightarrow> b = [] \<or> answers c r b"
proof (cases e)
  case (Read i ev)
  show ?thesis
  proof (cases ev)
    case (PeerData bs)
    let ?f = "peer_frames c ps (rp_read_buffer (mc_peers m ! i) @ bs)"
    have "\<forall>(r, b) \<in> set (fst ?f). answers c r b" using peer_frames_answers by fastforce
    from fold_resolve_answers [OF assms this] show ?thesis
      by (auto simp: Read PeerData on_peer_read_def split: prod.splits)
  qed (use assms Read in \<open>auto simp: on_peer_read_def fail_pending_requests_def Let_def split: if_splits\<close>)
qed (use assms in \<open>auto simp: begin_call_def flush_outbound_def\<close>)

text \<open>
  Property C14. Whatever calls, flushes and socket reads are interleaved, on whichever peers, a
  remote call returns either the empty buffer that stands for a lost peer or a verified
  response that carries the identifier of that very request; otherwise it times out.
\<close>

theorem responses_matched:
  assumes "mc_resolved m = Map.empty"
    and "end_call r (fold (net_apply c ps) es m) = Inr b"
  shows "b = [] \<or> (verify_response c b \<and> resp_request_id (get_response c b) = r)"
proof -
  have "\<forall>r b. mc_resolved (fold (net_apply c ps) es m) r = Some b \<longrightarrow> b = [] \<or> answers c r b"
    using assms(1)
    by (intro fold_invariant [where P = "\<lambda>m. \<forall>r b. mc_resolved m r = Some b \<longrightarrow> b = [] \<or> answers c r b"
          and Q = "\<lambda>_. True"]) (simp_all add: net_apply_resolved)
  then show ?thesis using assms(2) by (auto simp: end_call_def answers_def split: option.splits)
qed

section \<open>Chunks\<close>

lemma peer_frames_append:
  assumes "peer_frames c p b = (rs, rest, False)"
  shows "peer_frames c p (b @ x) = (case peer_frames c p (rest @ x) of (rs', rest', closed) \<Rightarrow> (rs @ rs', rest', closed))"
  using assms
proof (induction c p b arbitrary: rs rule: peer_frames.induct)
  case (1 c p b)
  let ?sz = "unat (p (take 4 b))"
  show ?case
  proof (cases "4 \<le> length b \<and> ?sz \<le> length b - 4")
    case False
    then have "rs = []" "rest = b"
      using 1(2) by (subst (asm) peer_frames.simps; auto simp: Let_def split: if_splits)+
    then show ?thesis by (auto split: prod.splits)
  next
    case True
    then have len: "\<not> length b < 4" "?sz \<le> length b - 4" by auto
    have ok: "\<not> 64 * 1024 * 1024 < ?sz" "verify_response c (take (?sz + 4) b)"
      using 1(2) len by (subst (asm) peer_frames.simps; auto simp: Let_def split: if_splits prod.splits)+
    obtain rs0 where rs0: "peer_frames c p (drop (?sz + 4) b) = (rs0, rest, False)"
      and rs: "rs = (resp_request_id (get_response c (take (?sz + 4) b)), take (?sz + 4) b) # rs0"
      using 1(2) len ok by (subst (asm) peer_frames.simps) (auto simp: Let_def split: if_splits prod.splits)
    have ih: "peer_frames c p (drop (?sz + 4) b @ x) =
        (case peer_frames c p (rest @ x) of (rs', rest', closed) \<Rightarrow> (rs0 @ rs', rest', closed))"
      using 1(1) [OF len(1) refl _ len(2) refl _ rs0] ok by simp
    have tk: "take 4 (b @ x) = take 4 b" "take (?sz + 4) (b @ x) = take (?sz + 4) b"
      "drop (?sz + 4) (b @ x) = drop (?sz + 4) b @ x" "?sz \<le> length (b @ x) - 4" "\<not> length (b @ x) < 4"
      using True by auto
    show ?thesis
      by (subst peer_frames.simps) (use tk ok ih rs in \<open>auto simp: Let_def split: prod.splits\<close>)
  qed
qed

text \<open>What is left in the buffer holds no complete frame.\<close>

lemma peer_frames_rest:
  "peer_frames c p b = (rs, rest, False) \<Longrightarrow> peer_frames c p rest = ([], rest, False)"
proof (induction c p b arbitrary: rs rule: peer_frames.induct)
  case (1 c p b)
  note ih = 1(1) and run = 1(2)
  show ?case
  proof (cases "rs = []")
    case True
    then have "rest = b"
      using run by (subst (asm) peer_frames.simps) (auto simp: Let_def split: if_splits prod.splits)
    then show ?thesis using run True by simp
  next
    case False
    then have g: "\<not> length b < 4" "\<not> 64 * 1024 * 1024 < unat (p (take 4 b))" "unat (p (take 4 b)) \<le> length b - 4"
      "\<not> \<not> verify_response c (take (unat (p (take 4 b)) + 4) b)"
      using run by (subst (asm) peer_frames.simps; auto simp: Let_def split: if_splits prod.splits)+
    then obtain rs0 where "peer_frames c p (drop (unat (p (take 4 b)) + 4) b) = (rs0, rest, False)"
      using run by (subst (asm) peer_frames.simps) (auto simp: Let_def split: if_splits prod.splits)
    from ih [OF g(1) refl g(2,3) refl g(4) this] show ?thesis .
  qed
qed

definition feed_peer ::
  "memory_codec \<Rightarrow> (bytes \<Rightarrow> uint32) \<Rightarrow> nat \<Rightarrow> bytes list \<Rightarrow> 'w MemoryClient \<Rightarrow> 'w MemoryClient" where
  "feed_peer c ps i chunks m = fold (\<lambda>bs. on_peer_read c ps i (PeerData bs)) chunks m"

lemma read_incomplete:
  assumes "i < length (mc_peers m)" "peer_frames c ps (rp_read_buffer (mc_peers m ! i) @ bs) = ([], rest, False)"
  shows "on_peer_read c ps i (PeerData bs) m = upd_peer i (\<lambda>p. p \<lparr> rp_read_buffer := rest \<rparr>) m"
  using assms by (simp add: on_peer_read_def)

definition is_response_frame :: "memory_codec \<Rightarrow> (bytes \<Rightarrow> uint32) \<Rightarrow> bytes \<Rightarrow> bool" where
  "is_response_frame c ps f \<longleftrightarrow> 4 \<le> length f \<and> unat (ps (take 4 f)) = length f - 4 \<and>
     length f - 4 \<le> 64 * 1024 * 1024 \<and> verify_response c f"

lemma peer_frames_prefix:
  assumes "is_response_frame c ps f" "f = b @ x" "x \<noteq> []"
  shows "peer_frames c ps b = ([], b, False)"
proof (cases "length b < 4")
  case False
  then have "take 4 b = take 4 f" "length b < length f" using assms(2,3) by auto
  then show ?thesis using assms(1) False
    by (subst peer_frames.simps) (auto simp: Let_def is_response_frame_def)
qed (subst peer_frames.simps, simp)

lemma peer_frames_one:
  assumes "is_response_frame c ps f"
  shows "peer_frames c ps f = ([(resp_request_id (get_response c f), f)], [], False)"
proof -
  have "peer_frames c ps [] = ([], [], False)" by (subst peer_frames.simps) simp
  then show ?thesis using assms
    by (subst peer_frames.simps) (auto simp: Let_def is_response_frame_def)
qed

lemma end_call_upd_peer [simp]: "end_call r (upd_peer i f m) = end_call r m"
  by (simp add: end_call_def)

lemma feed_peer_delivers:
  assumes "is_response_frame c ps f" "answers c r f" "r \<in> mc_pending m" "i < length (mc_peers m)"
    and "rp_read_buffer (mc_peers m ! i) @ concat chunks = f" "rp_read_buffer (mc_peers m ! i) \<noteq> f"
  shows "end_call r (feed_peer c ps i chunks m) = Inr f"
  using assms(3-)
proof (induction chunks arbitrary: m)
  case (Cons bs chunks)
  let ?b = "rp_read_buffer (mc_peers m ! i) @ bs"
  show ?case
  proof (cases "?b = f")
    case False
    have f: "f = ?b @ concat chunks" using Cons.prems(3) by simp
    then have "concat chunks \<noteq> []" using False by (metis append_Nil2)
    from peer_frames_prefix [OF assms(1) f this] have frames: "peer_frames c ps ?b = ([], ?b, False)" .
    let ?m = "upd_peer i (\<lambda>p. p \<lparr> rp_read_buffer := ?b \<rparr>) m"
    have "feed_peer c ps i (bs # chunks) m = feed_peer c ps i chunks ?m"
      using read_incomplete [OF Cons.prems(2) frames] by (simp add: feed_peer_def)
    moreover have "end_call r (feed_peer c ps i chunks ?m) = Inr f"
      using Cons.prems False by (intro Cons.IH) auto
    ultimately show ?thesis by simp
  next
    case True
    let ?m = "upd_peer i (\<lambda>p. p \<lparr> rp_read_buffer := [] \<rparr>) (resolve_request r f m)"
    have id: "resp_request_id (get_response c f) = r" using assms(2) by (simp add: answers_def)
    have step: "on_peer_read c ps i (PeerData bs) m = ?m"
      using peer_frames_one [OF assms(1)] True by (simp add: on_peer_read_def id)
    have "?b @ concat chunks = ?b @ []"
      using Cons.prems(3) True by (metis append_Nil2 append_assoc concat.simps(2))
    then have rest: "concat chunks = []" by (simp only: same_append_eq)
    have keep: "feed_peer c ps i cs ?m = ?m" if "concat cs = []" for cs
      using that
    proof (induction cs)
      case (Cons x cs)
      have "peer_frames c ps [] = ([], [], False)" by (subst peer_frames.simps) simp
      then have "on_peer_read c ps i (PeerData []) ?m = ?m"
        by (subst read_incomplete) (use Cons.prems \<open>i < length (mc_peers m)\<close> in \<open>simp_all add: upd_peer_def\<close>)
      then show ?case using Cons by (simp add: feed_peer_def)
    qed (simp add: feed_peer_def)
    have "feed_peer c ps i (bs # chunks) m = ?m"
      using step keep [OF rest] by (simp add: feed_peer_def)
    then show ?thesis using Cons.prems(1) by (simp add: end_call_def resolve_request_def)
  qed
qed simp

text \<open>
  Property C22. A response that arrives reaches its caller: when the frame that answers a
  pending request comes in on a connection, cut into chunks at any places, the call returns
  exactly that frame.
\<close>

theorem response_delivered:
  assumes "is_response_frame c ps f" "resp_request_id (get_response c f) = r"
    and "r \<in> mc_pending m" "i < length (mc_peers m)" "rp_read_buffer (mc_peers m ! i) = []"
    and "concat chunks = f"
  shows "end_call r (feed_peer c ps i chunks m) = Inr f"
proof (rule feed_peer_delivers)
  show "answers c r f" using assms(1,2) by (simp add: answers_def is_response_frame_def)
qed (use assms in \<open>auto simp: is_response_frame_def\<close>)

definition demo_client :: "unit MemoryClient" where
  "demo_client = \<lparr> mc_cache = LRUCache_new 8, mc_remote = Map.empty,
     mc_peers = [(RemotePeer_new ''10.0.0.1'' 1) \<lparr> rp_socket := True, rp_connected := True \<rparr>],
     mc_pending_connects = [], mc_outbound = [], mc_pending = {}, mc_resolved = Map.empty,
     mc_next_request_id = 1, mc_next_local_handle = 1, mc_world = () \<rparr>"

text \<open>A response is its request id in the fifth byte.\<close>

definition demo_response_codec :: memory_codec where
  "demo_response_codec = \<lparr> verify_request = (\<lambda>b. True),
     get_request = (\<lambda>b. demo_request 0 0 0 0 None), finish_response = (\<lambda>r. [1]),
     verify_response = (\<lambda>b. length b = 5),
     get_response = (\<lambda>b. reply (demo_request 0 0 0 0 None \<lparr> req_request_id := ucast (last b) \<rparr>) OK []),
     finish_request = (\<lambda>_. []) \<rparr>"

theorem responses_matched_witness:
  "verify_response demo_response_codec [1, 0, 0, 0, 9] \<and>
   resp_request_id (get_response demo_response_codec [1, 0, 0, 0, 9]) = 9"
proof -
  have "peer_frames demo_response_codec (\<lambda>b. ucast (hd b)) [1, 0, 0, 0, 9] = ([(9, [1, 0, 0, 0, 9])], [], False)"
    by (subst peer_frames_one)
      (simp_all add: is_response_frame_def demo_response_codec_def build_response_def)
  then have "end_call 9 (fold (net_apply demo_response_codec (\<lambda>b. ucast (hd b)))
      [Call 0 [] 9, Flush, Call 0 [] 8, Read 0 (PeerData [1, 0, 0, 0, 9])] demo_client) = Inr [1, 0, 0, 0, 9]"
    by (simp add: demo_client_def begin_call_def flush_outbound_def on_peer_read_def RemotePeer_new_def
        end_call_def resolve_request_def)
  then show ?thesis using responses_matched [of demo_client 9 demo_response_codec "\<lambda>b. ucast (hd b)"
      "[Call 0 [] 9, Flush, Call 0 [] 8, Read 0 (PeerData [1, 0, 0, 0, 9])]" "[1, 0, 0, 0, 9]"]
    by (simp add: demo_client_def)
qed

theorem response_delivered_witness:
  "end_call 9 (feed_peer demo_response_codec (\<lambda>b. ucast (hd b)) 0 [[1], [0, 0, 0], [9]]
     (begin_call 0 [] 9 demo_client)) = Inr [1, 0, 0, 0, 9]"
  by (rule response_delivered)
    (simp_all add: is_response_frame_def demo_response_codec_def build_response_def begin_call_def
      demo_client_def RemotePeer_new_def)

section \<open>Reconnection\<close>

lemma find_peer_SomeD:
  "find_peer ip port ps = Some i \<Longrightarrow> i < length ps \<and> rp_ip (ps ! i) = ip \<and> rp_port (ps ! i) = port"
  by (induction ps arbitrary: i) (auto split: if_splits)

lemma ensure_peer_ok:
  assumes "ensure_peer ip port m = (i, created, m')"
  shows "i < length (mc_peers m')" "rp_ip (mc_peers m' ! i) = ip" "rp_port (mc_peers m' ! i) = port"
    "\<exists>new. mc_peers m' = mc_peers m @ new" "mc_pending_connects m' = mc_pending_connects m"
  using assms by (auto simp: ensure_peer_def RemotePeer_new_def split: option.splits dest: find_peer_SomeD)

text \<open>An endpoint is taken care of: its peer is connected or queued for a connection.\<close>

definition tracked :: "string \<Rightarrow> nat \<Rightarrow> 'w MemoryClient \<Rightarrow> bool" where
  "tracked ip port m \<longleftrightarrow> (\<exists>i < length (mc_peers m). rp_ip (mc_peers m ! i) = ip \<and> rp_port (mc_peers m ! i) = port \<and>
     (rp_connected (mc_peers m ! i) \<or> i \<in> set (mc_pending_connects m)))"

lemma note_endpoint_tracks: "tracked (ep_ip ep) (ep_port ep) (note_endpoint now ep m)"
proof -
  obtain i created m1 where e: "ensure_peer (ep_ip ep) (ep_port ep) m = (i, created, m1)" by (metis prod_cases3)
  note ok = ensure_peer_ok [OF e]
  show ?thesis
    unfolding tracked_def
    by (rule exI [of _ i]) (use ok(1-3) in \<open>auto simp: note_endpoint_def e Let_def\<close>)
qed

lemma note_endpoint_keeps:
  assumes "tracked ip port m"
  shows "tracked ip port (note_endpoint now ep m)"
proof -
  obtain i created m1 where e: "ensure_peer (ep_ip ep) (ep_port ep) m = (i, created, m1)" by (metis prod_cases3)
  obtain new where new: "mc_peers m1 = mc_peers m @ new" using ensure_peer_ok(4) [OF e] by blast
  obtain j where "j < length (mc_peers m)" "rp_ip (mc_peers m ! j) = ip" "rp_port (mc_peers m ! j) = port"
    "rp_connected (mc_peers m ! j) \<or> j \<in> set (mc_pending_connects m)"
    using assms unfolding tracked_def by blast
  then show ?thesis
    unfolding tracked_def
    by (intro exI [of _ j]) (auto simp: note_endpoint_def e Let_def new nth_append ensure_peer_ok(5) [OF e])
qed

lemma connect_to_peers_tracks:
  assumes "ep \<in> set discovered"
  shows "tracked (ep_ip ep) (ep_port ep) (connect_to_peers now discovered m)"
proof -
  have keep: "tracked ip port (fold (note_endpoint now) eps m)" if "tracked ip port m" for ip port eps and m :: "'a MemoryClient"
    using that by (induction eps arbitrary: m) (auto simp: note_endpoint_keeps)
  show ?thesis
    using assms unfolding connect_to_peers_def
    by (induction discovered arbitrary: m) (auto simp: keep note_endpoint_tracks)
qed

lemma start_connect_keeps [simp]:
  "length (mc_peers (start_connect a i m)) = length (mc_peers m)"
  by (auto simp: start_connect_def split: connect_attempt.splits)

lemma start_connect_peer:
  assumes "j < length (mc_peers m)"
  shows "rp_ip (mc_peers (start_connect a i m) ! j) = rp_ip (mc_peers m ! j)"
    "rp_port (mc_peers (start_connect a i m) ! j) = rp_port (mc_peers m ! j)"
    "rp_connected (mc_peers (start_connect a i m) ! j) = rp_connected (mc_peers m ! j)"
    "rp_socket (mc_peers m ! j) \<Longrightarrow> rp_socket (mc_peers (start_connect a i m) ! j)"
  using assms by (auto simp: start_connect_def split: connect_attempt.splits)

text \<open>The same peer later on: address kept, connection not lost.\<close>

definition later :: "nat \<Rightarrow> 'w MemoryClient \<Rightarrow> 'w MemoryClient \<Rightarrow> bool" where
  "later j m m' \<longleftrightarrow> length (mc_peers m') = length (mc_peers m) \<and>
     rp_ip (mc_peers m' ! j) = rp_ip (mc_peers m ! j) \<and> rp_port (mc_peers m' ! j) = rp_port (mc_peers m ! j) \<and>
     (rp_connected (mc_peers m ! j) \<longrightarrow> rp_connected (mc_peers m' ! j))"

lemma later_refl: "later j m m"
  by (simp add: later_def)

lemma later_trans: "later j m m1 \<Longrightarrow> later j m1 m2 \<Longrightarrow> later j m m2"
  by (simp add: later_def)

lemma start_connect_later: "j < length (mc_peers m) \<Longrightarrow> later j m (start_connect a i m)"
  by (simp add: later_def start_connect_peer)

lemma fold_start_connect:
  assumes "j < length (mc_peers m)"
  shows "later j m (fold (\<lambda>i. start_connect (a i) i) is m) \<and>
    (rp_socket (mc_peers m ! j) \<or> j \<in> set is \<and> a j = InFlight \<longrightarrow>
      rp_socket (mc_peers (fold (\<lambda>i. start_connect (a i) i) is m) ! j))"
  using assms
proof (induction "is" arbitrary: m)
  case Nil
  then show ?case by (simp add: later_refl)
next
  case (Cons i "is")
  let ?m = "start_connect (a i) i m"
  have "rp_socket (mc_peers ?m ! j)" if "rp_socket (mc_peers m ! j) \<or> j = i \<and> a j = InFlight"
    using that Cons.prems by (auto simp: start_connect_def split: connect_attempt.splits)
  then show ?case
    using Cons.IH [of ?m] Cons.prems start_connect_later [OF Cons.prems, of "a i" i] by (auto intro: later_trans)
qed

lemma complete_connect_later:
  "j < length (mc_peers m) \<Longrightarrow> later j m (complete_connect st i m)"
  by (auto simp: later_def complete_connect_def on_connect_def split: option.splits)

lemma fold_complete_connect:
  assumes "j < length (mc_peers m)"
  shows "later j m (fold (complete_connect st) is m) \<and>
    (rp_socket (mc_peers m ! j) \<and> st j = Some 0 \<and> j \<in> set is \<longrightarrow>
      rp_connected (mc_peers (fold (complete_connect st) is m) ! j))"
  using assms
proof (induction "is" arbitrary: m)
  case Nil
  then show ?case by (simp add: later_refl)
next
  case (Cons i "is")
  let ?m = "complete_connect st i m"
  have l: "later j m ?m" "j < length (mc_peers ?m)"
    using complete_connect_later [OF Cons.prems] Cons.prems by (auto simp: later_def)
  note ih = Cons.IH [OF l(2)]
  let ?m' = "fold (complete_connect st) is ?m"
  have here: "rp_connected (mc_peers ?m ! j)" if "i = j" "rp_socket (mc_peers m ! j)" "st j = Some 0"
    using that Cons.prems by (auto simp: complete_connect_def on_connect_def)
  have other: "mc_peers ?m ! j = mc_peers m ! j" if "i \<noteq> j"
    using that Cons.prems by (auto simp: complete_connect_def on_connect_def split: option.splits)
  have kept: "rp_connected (mc_peers ?m ! j) \<Longrightarrow> rp_connected (mc_peers ?m' ! j)"
    using ih by (simp add: later_def)
  have "rp_connected (mc_peers ?m' ! j)"
    if "rp_socket (mc_peers m ! j)" "st j = Some 0" "j \<in> set (i # is)"
  proof (cases "i = j")
    case True
    then show ?thesis using that here kept by blast
  next
    case False
    then show ?thesis using that other ih by simp
  qed
  moreover have "later j m ?m'" using later_trans [OF l(1)] ih by blast
  ultimately show ?case by simp
qed

lemma run_round_connects:
  assumes "ep \<in> set (nr_discovered r)" "\<And>i. nr_attempt r i = InFlight" "\<And>i. nr_status r i = Some 0"
  shows "\<exists>i < length (mc_peers (run_round now r m)). rp_ip (mc_peers (run_round now r m) ! i) = ep_ip ep \<and>
    rp_port (mc_peers (run_round now r m) ! i) = ep_port ep \<and> rp_connected (mc_peers (run_round now r m) ! i)"
proof -
  let ?m0 = "connect_to_peers now (nr_discovered r) m"
  let ?m1 = "drain_pending_connects (nr_attempt r) ?m0"
  obtain i where i: "i < length (mc_peers ?m0)" "rp_ip (mc_peers ?m0 ! i) = ep_ip ep"
      "rp_port (mc_peers ?m0 ! i) = ep_port ep"
    and queued: "rp_connected (mc_peers ?m0 ! i) \<or> i \<in> set (mc_pending_connects ?m0)"
    using connect_to_peers_tracks [OF assms(1), of now m] unfolding tracked_def by blast
  have drained: "later i ?m0 ?m1" "i \<in> set (mc_pending_connects ?m0) \<Longrightarrow> rp_socket (mc_peers ?m1 ! i)"
    using fold_start_connect [of i "?m0 \<lparr> mc_pending_connects := [] \<rparr>" "nr_attempt r" "mc_pending_connects ?m0"]
      i(1) assms(2) by (auto simp: drain_pending_connects_def later_def)
  then have len: "i < length (mc_peers ?m1)" using i(1) by (simp add: later_def)
  note completed = fold_complete_connect [OF len, of "nr_status r" "[0..<length (mc_peers ?m1)]"]
  show ?thesis
    by (rule exI [of _ i]) (use i queued drained completed len assms(3) in \<open>auto simp: run_round_def Let_def later_def\<close>)
qed

lemma connected_peersI:
  "i < length (mc_peers m) \<Longrightarrow> rp_connected (mc_peers m ! i) \<Longrightarrow> connected_peers m \<noteq> []"
  by (auto simp: connected_peers_def filter_empty_conv)

lemma wait_connected: "connected_peers m \<noteq> [] \<Longrightarrow> wait_for_connected_peer now rs m = (True, m)"
  by (cases rs) auto



text \<open>A peer whose stream was closed because of a bad frame is never tried again: it still
  counts as connected, so discovery does not queue it.\<close>

lemma bad_frame_keeps_connected:
  assumes "i < length (mc_peers m)" "rp_connected (mc_peers m ! i)"
    and "peer_frames c ps (rp_read_buffer (mc_peers m ! i) @ bs) = (rs, rest, True)"
  shows "rp_connected (mc_peers (on_peer_read c ps i (PeerData bs) m) ! i)"
    "rp_close_calls (mc_peers (on_peer_read c ps i (PeerData bs) m) ! i) = Suc (rp_close_calls (mc_peers m ! i))"
  using assms by (simp_all add: on_peer_read_def)

text \<open>The bytes of an incomplete response survive the loss of the connection and the
  reconnection, and are read as the start of the first response on the new one.\<close>

lemma stale_buffer_kept:
  assumes "i < length (mc_peers m)"
  shows "rp_read_buffer (mc_peers (on_connect 0 i (start_connect InFlight i (on_peer_read c ps i PeerEof m))) ! i) =
    rp_read_buffer (mc_peers m ! i)"
  using assms by (auto simp: on_connect_def start_connect_def on_peer_read_def Let_def fail_pending_requests_def)

end
