(* ===== verification/ClientRemote.thy ===== *)
theory ClientRemote
  imports ClientPeers
begin

text \<open>
  The remote operations of the client (\<open>memclient/src/client_api.cpp\<close>): allocation on one peer
  or striped over several, and freeing, writing and reading an allocation. The environment
  answers remote calls. A \<open>while\<close> loop whose body changed nothing runs for ever, which is the
  value \<open>Inl Nontermination\<close>.
\<close>

section \<open>Environment\<close>

text \<open>\<open>env_call i payload w\<close> is what happens to a request to peer \<open>i\<close> within the ten seconds
  of a remote call: the buffer the promise gets, if any, the peers whose connection is lost,
  and the new world. The other fields are what the client observes when it waits for a peer
  and when it asks the memory monitor.\<close>

record 'w env =
  env_codec :: memory_codec
  env_call :: "nat \<Rightarrow> bytes \<Rightarrow> 'w \<Rightarrow> bytes option \<times> nat list \<times> 'w"
  env_now :: nat
  env_rounds :: "'w \<Rightarrow> network_round list"
  env_available_bytes :: "'w \<Rightarrow> nat"

definition drop_peers :: "nat list \<Rightarrow> 'w MemoryClient \<Rightarrow> 'w MemoryClient" where
  "drop_peers lost m = fold (\<lambda>i. upd_peer i (\<lambda>p. p \<lparr> rp_connected := False \<rparr>)) lost m"

definition sync_remote_call :: "'w env \<Rightarrow> nat \<Rightarrow> MemoryRequest \<Rightarrow> 'w MemoryClient \<Rightarrow> (cpp_error + bytes) \<times> 'w MemoryClient" where
  "sync_remote_call E i q m =
    (case env_call E i (finish_request (env_codec E) q) (mc_world m) of (r, lost, w) \<Rightarrow>
       ((case r of Some resp \<Rightarrow> Inr resp | None \<Rightarrow> Inl (RuntimeError ''Remote call timed out'')),
        drop_peers lost (m \<lparr> mc_world := w \<rparr>)))"

text \<open>\<open>next_request_id_++\<close>\<close>

definition next_request :: "'w MemoryClient \<Rightarrow> 'w MemoryClient" where
  "next_request m = m \<lparr> mc_next_request_id := mc_next_request_id m + 1 \<rparr>"

definition alloc_request :: "uint64 \<Rightarrow> nat \<Rightarrow> MemoryRequest" where
  "alloc_request r sz = \<lparr> req_protocol_version = MEMINFO_PROTOCOL_VERSION, req_request_id = r,
     req_op = OpCode_ALLOC, req_handle = 0, req_size = of_nat sz, req_offset = 0, req_data = None, req_checksum = 0 \<rparr>"

definition free_request :: "uint64 \<Rightarrow> uint64 \<Rightarrow> MemoryRequest" where
  "free_request r h = \<lparr> req_protocol_version = MEMINFO_PROTOCOL_VERSION, req_request_id = r,
     req_op = OpCode_FREE, req_handle = h, req_size = 0, req_offset = 0, req_data = None, req_checksum = 0 \<rparr>"

definition write_request :: "uint64 \<Rightarrow> uint64 \<Rightarrow> nat \<Rightarrow> bytes \<Rightarrow> MemoryRequest" where
  "write_request r h off data = \<lparr> req_protocol_version = MEMINFO_PROTOCOL_VERSION, req_request_id = r,
     req_op = OpCode_WRITE, req_handle = h, req_size = 0, req_offset = of_nat off, req_data = Some data,
     req_checksum = crc32c data \<rparr>"

definition read_request :: "uint64 \<Rightarrow> uint64 \<Rightarrow> nat \<Rightarrow> nat \<Rightarrow> MemoryRequest" where
  "read_request r h off sz = \<lparr> req_protocol_version = MEMINFO_PROTOCOL_VERSION, req_request_id = r,
     req_op = OpCode_READ, req_handle = h, req_size = of_nat sz, req_offset = of_nat off, req_data = None,
     req_checksum = 0 \<rparr>"

primrec what :: "cpp_error \<Rightarrow> string" where
  "what (InvalidArgument s) = s"
| "what (OutOfRange s) = s"
| "what (RuntimeError s) = s"
| "what PermissionDeniedError = ''Permission denied: handle owned by another session''"
| "what BadAlloc = ''std::bad_alloc''"
| "what UndefinedBehaviour = []"
| "what Nontermination = []"

text \<open>\<open>catch (const std::exception& e) throw std::runtime_error(prefix + e.what())\<close>\<close>

definition rethrow :: "string \<Rightarrow> cpp_error \<Rightarrow> cpp_error" where
  "rethrow prefix e = (if is_exception e then RuntimeError (prefix @ what e) else e)"

section \<open>Free\<close>

definition free_one :: "'w env \<Rightarrow> nat \<Rightarrow> uint64 \<Rightarrow> 'w MemoryClient \<Rightarrow> 'w MemoryClient" where
  "free_one E i h m = snd (sync_remote_call E i (free_request (mc_next_request_id m) h) (next_request m))"

definition peer_connected :: "'w MemoryClient \<Rightarrow> nat \<Rightarrow> bool" where
  "peer_connected m i \<longleftrightarrow> i < length (mc_peers m) \<and> rp_connected (mc_peers m ! i)"

primrec free_stripes :: "'w env \<Rightarrow> Stripe list \<Rightarrow> 'w MemoryClient \<Rightarrow> 'w MemoryClient" where
  "free_stripes E [] m = m"
| "free_stripes E (s # ss) m =
    free_stripes E ss (if peer_connected m (stripe_peer s) then free_one E (stripe_peer s) (stripe_handle s) m else m)"

text \<open>The failures of the calls are logged and dropped.\<close>

definition free_remote :: "'w env \<Rightarrow> RemoteAllocation \<Rightarrow> 'w MemoryClient \<Rightarrow> 'w MemoryClient" where
  "free_remote E a m =
    (if ra_is_striped a then free_stripes E (ra_stripes a) m
     else case ra_peer a of
       None \<Rightarrow> m
     | Some i \<Rightarrow> if peer_connected m i then free_one E i (ra_handle a) m else m)"

section \<open>Allocate\<close>

text \<open>Known capacity first, then most free RAM.\<close>

definition candidate_rank :: "RemotePeer \<Rightarrow> nat" where
  "candidate_rank p = (if rp_capacity_known p then 0 else W64) + (W64 - rp_free_ram_bytes p)"

definition candidates :: "'w MemoryClient \<Rightarrow> nat list" where
  "candidates m = sort_key (\<lambda>i. candidate_rank (mc_peers m ! i)) (connected_peers m)"

text \<open>The handle in a usable reply to an allocation; a failed call gives none.\<close>

definition alloc_reply :: "memory_codec \<Rightarrow> cpp_error + bytes \<Rightarrow> uint64 option" where
  "alloc_reply c r =
    (case r of
       Inl e \<Rightarrow> None
     | Inr resp \<Rightarrow>
         if resp = [] \<or> \<not> verify_response c resp then None
         else if resp_status (get_response c resp) = OK then Some (resp_handle (get_response c resp)) else None)"

definition alloc_one :: "'w env \<Rightarrow> nat \<Rightarrow> nat \<Rightarrow> 'w MemoryClient \<Rightarrow> uint64 option \<times> 'w MemoryClient" where
  "alloc_one E i sz m =
    (case sync_remote_call E i (alloc_request (mc_next_request_id m) sz) (next_request m) of
       (r, m') \<Rightarrow> (alloc_reply (env_codec E) r, m'))"

primrec try_single :: "'w env \<Rightarrow> nat \<Rightarrow> nat list \<Rightarrow> 'w MemoryClient \<Rightarrow> (uint64 \<times> nat) option \<times> 'w MemoryClient" where
  "try_single E sz [] m = (None, m)"
| "try_single E sz (i # is) m =
    (if may_fit (mc_peers m ! i) sz then
       (case alloc_one E i sz m of
          (Some h, m') \<Rightarrow> (Some (h, i), m')
        | (None, m') \<Rightarrow> try_single E sz is m')
     else try_single E sz is m)"

definition chunk_size :: "RemotePeer \<Rightarrow> nat \<Rightarrow> nat" where
  "chunk_size p remaining = (if rp_capacity_known p then min remaining (rp_free_ram_bytes p) else remaining)"

primrec try_stripes ::
  "'w env \<Rightarrow> nat list \<Rightarrow> nat \<Rightarrow> nat \<Rightarrow> Stripe list \<Rightarrow> 'w MemoryClient \<Rightarrow> nat \<times> Stripe list \<times> 'w MemoryClient" where
  "try_stripes E [] remaining offset ss m = (remaining, ss, m)"
| "try_stripes E (i # is) remaining offset ss m =
    (if remaining = 0 then (remaining, ss, m)
     else
       let n = chunk_size (mc_peers m ! i) remaining in
       if n = 0 then try_stripes E is remaining offset ss m
       else case alloc_one E i n m of
         (Some h, m') \<Rightarrow> try_stripes E is (remaining - n) (offset + n)
            (ss @ [\<lparr> stripe_handle = h, stripe_offset = offset, stripe_length = n, stripe_peer = i \<rparr>]) m'
       | (None, m') \<Rightarrow> try_stripes E is remaining offset ss m')"

definition single_allocation :: "uint64 \<Rightarrow> nat \<Rightarrow> nat \<Rightarrow> RemoteAllocation" where
  "single_allocation h sz i = \<lparr> ra_handle = h, ra_size = sz, ra_peer = Some i, ra_stripes = [], ra_is_striped = False \<rparr>"

definition striped_allocation :: "nat \<Rightarrow> Stripe list \<Rightarrow> RemoteAllocation" where
  "striped_allocation sz ss = \<lparr> ra_handle = 0, ra_size = sz, ra_peer = None, ra_stripes = ss, ra_is_striped = True \<rparr>"

definition place :: "'w env \<Rightarrow> nat \<Rightarrow> 'w MemoryClient \<Rightarrow> RemoteAllocation option \<times> 'w MemoryClient" where
  "place E sz m =
    (let cs = candidates m in
     case try_single E sz cs m of
       (Some (h, i), m1) \<Rightarrow> (Some (single_allocation h sz i), m1)
     | (None, m1) \<Rightarrow>
         if length cs \<le> 1 then (None, m1)
         else case try_stripes E cs sz 0 [] m1 of (remaining, ss, m2) \<Rightarrow>
           if remaining = 0 \<and> ss \<noteq> [] then (Some (striped_allocation sz ss), m2)
           else if ss \<noteq> [] then (None, free_remote E (striped_allocation 0 ss) m2)
           else (None, m2))"

definition allocate_remote :: "'w env \<Rightarrow> nat \<Rightarrow> nat \<Rightarrow> 'w MemoryClient \<Rightarrow> (cpp_error + unit) \<times> 'w MemoryClient" where
  "allocate_remote E h sz m =
    (let m1 = (if connected_peers m = []
               then snd (wait_for_connected_peer (env_now E) (env_rounds E (mc_world m)) m) else m)
     in case place E sz m1 of
          (None, m2) \<Rightarrow> (Inl (RuntimeError ''Failed to allocate on any peer: out of memory on all peers''), m2)
        | (Some a, m2) \<Rightarrow> (Inr (), m2 \<lparr> mc_remote := (mc_remote m2)(h \<mapsto> a) \<rparr>))"

section \<open>Write\<close>

text \<open>The stripe covers byte \<open>pos\<close> of the block.\<close>

definition stripe_covers :: "Stripe \<Rightarrow> nat \<Rightarrow> bool" where
  "stripe_covers s pos \<longleftrightarrow> stripe_offset s \<le> pos \<and> pos < u64_add (stripe_offset s) (stripe_length s)"

text \<open>How much of \<open>remaining\<close> bytes from byte \<open>pos\<close> on goes to the stripe.\<close>

definition stripe_share :: "Stripe \<Rightarrow> nat \<Rightarrow> nat \<Rightarrow> nat" where
  "stripe_share s pos remaining = min remaining (u64_sub (stripe_length s) (u64_sub pos (stripe_offset s)))"

text \<open>One pass of the \<open>for\<close> loop over the stripes; the result is the new \<open>data_offset\<close>.\<close>

fun write_pass ::
  "'w env \<Rightarrow> Stripe list \<Rightarrow> nat \<Rightarrow> bytes \<Rightarrow> nat \<Rightarrow> 'w MemoryClient \<Rightarrow> (cpp_error + nat) \<times> 'w MemoryClient" where
  "write_pass E [] offset data d m = (Inr d, m)"
| "write_pass E (s # ss) offset data d m =
    (if length data \<le> d then (Inr d, m)
     else
       let pos = u64_add offset d in
       if \<not> stripe_covers s pos then write_pass E ss offset data d m
       else
         let n = stripe_share s pos (length data - d) in
         case sync_remote_call E (stripe_peer s)
             (write_request (mc_next_request_id m) (stripe_handle s) (u64_sub pos (stripe_offset s)) (take n (drop d data)))
             (next_request m) of
           (Inl e, m') \<Rightarrow> (Inl (rethrow ''Failed to write stripe: '' e), m')
         | (Inr _, m') \<Rightarrow> write_pass E ss offset data (d + n) m')"

lemma write_pass_mono: "write_pass E ss offset data d m = (Inr d', m') \<Longrightarrow> d \<le> d'"
  by (induction E ss offset data d m rule: write_pass.induct)
    (fastforce simp: Let_def split: if_splits prod.splits sum.splits)+

function write_striped ::
  "'w env \<Rightarrow> Stripe list \<Rightarrow> nat \<Rightarrow> bytes \<Rightarrow> nat \<Rightarrow> 'w MemoryClient \<Rightarrow> (cpp_error + unit) \<times> 'w MemoryClient" where
  "write_striped E ss offset data d m =
    (if length data \<le> d then (Inr (), m)
     else case write_pass E ss offset data d m of
       (Inl e, m') \<Rightarrow> (Inl e, m')
     | (Inr d', m') \<Rightarrow> if d' = d then (Inl Nontermination, m') else write_striped E ss offset data d' m')"
  by pat_completeness auto
termination
proof (relation "measure (\<lambda>(E, ss, offset, data, d, m). length data - d)", goal_cases)
  case (2 E ss offset data d m x y d')
  then have "d \<le> d'" using write_pass_mono by metis
  then show ?case using 2 by simp
qed simp

declare write_striped.simps [simp del]

definition write_remote ::
  "'w env \<Rightarrow> RemoteAllocation \<Rightarrow> nat \<Rightarrow> bytes \<Rightarrow> 'w MemoryClient \<Rightarrow> (cpp_error + unit) \<times> 'w MemoryClient" where
  "write_remote E a offset data m =
    (if ra_is_striped a then write_striped E (ra_stripes a) offset data 0 m
     else case ra_peer a of
       None \<Rightarrow> (Inl (RuntimeError ''Peer not connected''), m)
     | Some i \<Rightarrow>
         if \<not> peer_connected m i then (Inl (RuntimeError ''Peer not connected''), m)
         else case sync_remote_call E i (write_request (mc_next_request_id m) (ra_handle a) offset data) (next_request m) of
           (Inl e, m') \<Rightarrow> (Inl e, m')
         | (Inr _, m') \<Rightarrow> (Inr (), m'))"

section \<open>Read\<close>

text \<open>The data of a usable reply to a read.\<close>

definition read_reply :: "memory_codec \<Rightarrow> bytes \<Rightarrow> cpp_error + bytes" where
  "read_reply c resp =
    (if resp = [] then Inl (RuntimeError ''Empty response'')
     else if \<not> verify_response c resp then Inl (RuntimeError ''Invalid MemoryResponse buffer'')
     else if resp_status (get_response c resp) \<noteq> OK then Inl (RuntimeError ''Failed to read from remote peer'')
     else case resp_data (get_response c resp) of
       None \<Rightarrow> Inl (RuntimeError ''Failed to read from remote peer'')
     | Some data \<Rightarrow> Inr data)"

definition read_one ::
  "'w env \<Rightarrow> nat \<Rightarrow> uint64 \<Rightarrow> nat \<Rightarrow> nat \<Rightarrow> 'w MemoryClient \<Rightarrow> (cpp_error + bytes) \<times> 'w MemoryClient" where
  "read_one E i h offset sz m =
    (case sync_remote_call E i (read_request (mc_next_request_id m) h offset sz) (next_request m) of
       (Inl e, m') \<Rightarrow> (Inl e, m')
     | (Inr resp, m') \<Rightarrow> (read_reply (env_codec E) resp, m'))"

text \<open>The free that follows a read when the block moves back; its reply is not looked at.\<close>

definition release ::
  "'w env \<Rightarrow> bool \<Rightarrow> nat \<Rightarrow> uint64 \<Rightarrow> 'w MemoryClient \<Rightarrow> (cpp_error + unit) \<times> 'w MemoryClient" where
  "release E release_after_read i h m =
    (if \<not> release_after_read then (Inr (), m)
     else case sync_remote_call E i (free_request (mc_next_request_id m) h) (next_request m) of
       (Inl e, m') \<Rightarrow> (Inl e, m')
     | (Inr _, m') \<Rightarrow> (Inr (), m'))"

text \<open>One pass over the stripes; the result is \<open>result\<close> and \<open>result_offset\<close>. A peer that sends
  more than what was asked overruns the buffer.\<close>

fun read_pass ::
  "'w env \<Rightarrow> bool \<Rightarrow> Stripe list \<Rightarrow> nat \<Rightarrow> bytes \<Rightarrow> nat \<Rightarrow> 'w MemoryClient \<Rightarrow> (cpp_error + bytes \<times> nat) \<times> 'w MemoryClient" where
  "read_pass E rel [] offset result d m = (Inr (result, d), m)"
| "read_pass E rel (s # ss) offset result d m =
    (if length result \<le> d then (Inr (result, d), m)
     else
       let pos = u64_add offset d in
       if \<not> stripe_covers s pos then read_pass E rel ss offset result d m
       else
         let n = stripe_share s pos (length result - d) in
         case read_one E (stripe_peer s) (stripe_handle s) (u64_sub pos (stripe_offset s)) n m of
           (Inl e, m1) \<Rightarrow> (Inl (rethrow ''Failed to read stripe: '' e), m1)
         | (Inr data, m1) \<Rightarrow>
             if length result < d + length data then (Inl UndefinedBehaviour, m1)
             else (case release E rel (stripe_peer s) (stripe_handle s) m1 of
               (Inl e, m2) \<Rightarrow> (Inl (rethrow ''Failed to read stripe: '' e), m2)
             | (Inr _, m2) \<Rightarrow> read_pass E rel ss offset (blit d data result) (d + n) m2))"

lemma read_pass_mono:
  "read_pass E rel ss offset result d m = (Inr (result', d'), m') \<Longrightarrow> d \<le> d' \<and> length result' = length result"
  by (induction E rel ss offset result d m rule: read_pass.induct)
    (fastforce simp: Let_def split: if_splits prod.splits sum.splits)+

function read_striped ::
  "'w env \<Rightarrow> bool \<Rightarrow> Stripe list \<Rightarrow> nat \<Rightarrow> bytes \<Rightarrow> nat \<Rightarrow> 'w MemoryClient \<Rightarrow> (cpp_error + bytes) \<times> 'w MemoryClient" where
  "read_striped E rel ss offset result d m =
    (if length result \<le> d then (Inr result, m)
     else case read_pass E rel ss offset result d m of
       (Inl e, m') \<Rightarrow> (Inl e, m')
     | (Inr (result', d'), m') \<Rightarrow>
         if d' = d then (Inl Nontermination, m') else read_striped E rel ss offset result' d' m')"
  by pat_completeness auto
termination
proof (relation "measure (\<lambda>(E, rel, ss, offset, result, d, m). length result - d)", goal_cases)
  case (2 E rel ss offset result d m x y z result' d')
  then have "d \<le> d' \<and> length result' = length result" using read_pass_mono by metis
  moreover have "\<not> length result \<le> d" "d' \<noteq> d" using 2 by auto
  ultimately show ?case by auto
qed simp

declare read_striped.simps [simp del]

definition read_remote ::
  "'w env \<Rightarrow> bool \<Rightarrow> RemoteAllocation \<Rightarrow> nat \<Rightarrow> nat \<Rightarrow> 'w MemoryClient \<Rightarrow> (cpp_error + bytes) \<times> 'w MemoryClient" where
  "read_remote E release_after_read a offset sz m =
    (if ra_is_striped a then read_striped E release_after_read (ra_stripes a) offset (replicate sz 0) 0 m
     else case ra_peer a of
       None \<Rightarrow> (Inl (RuntimeError ''Peer not connected''), m)
     | Some i \<Rightarrow>
         if \<not> peer_connected m i then (Inl (RuntimeError ''Peer not connected''), m)
         else case read_one E i (ra_handle a) offset sz m of
           (Inl e, m1) \<Rightarrow> (Inl e, m1)
         | (Inr data, m1) \<Rightarrow>
             (case release E release_after_read i (ra_handle a) m1 of
                (Inl e, m2) \<Rightarrow> (Inl e, m2)
              | (Inr _, m2) \<Rightarrow> (Inr data, m2)))"

section \<open>What the network leaves alone\<close>

text \<open>No network operation touches the cache, the table of remote blocks or the handle
  counter.\<close>

definition local_part :: "'w MemoryClient \<Rightarrow> LRUCache \<times> (nat \<rightharpoonup> RemoteAllocation) \<times> nat" where
  "local_part m = (mc_cache m, mc_remote m, mc_next_local_handle m)"

lemma local_partD:
  assumes "local_part m = local_part m'"
  shows "mc_cache m = mc_cache m'" "mc_remote m = mc_remote m'" "mc_next_local_handle m = mc_next_local_handle m'"
  using assms by (auto simp: local_part_def)

lemma local_part_upd_peer [simp]: "local_part (upd_peer i f m) = local_part m"
  by (simp add: local_part_def upd_peer_def)

lemma local_part_update [simp]:
  "local_part (m \<lparr> mc_world := w \<rparr>) = local_part m" "local_part (m \<lparr> mc_peers := ps \<rparr>) = local_part m"
  "local_part (m \<lparr> mc_pending_connects := q \<rparr>) = local_part m" "local_part (next_request m) = local_part m"
  by (simp_all add: local_part_def next_request_def)

lemma local_part_fold:
  assumes "\<And>x m. local_part (f x m) = local_part m"
  shows "local_part (fold f xs m) = local_part m"
  by (induction xs arbitrary: m) (simp_all add: assms)

lemma local_part_peers [simp]:
  "local_part (start_connect a i m) = local_part m" "local_part (on_connect st i m) = local_part m"
  "local_part (complete_connect sts i m) = local_part m" "local_part (note_endpoint now ep m) = local_part m"
  by (auto simp: start_connect_def on_connect_def complete_connect_def note_endpoint_def ensure_peer_def Let_def
      split: connect_attempt.splits option.splits)

lemma local_part_run_round [simp]: "local_part (run_round now r m) = local_part m"
  by (simp add: run_round_def Let_def local_part_fold drain_pending_connects_def connect_to_peers_def)

lemma local_part_wait [simp]: "local_part (snd (wait_for_connected_peer now rs m)) = local_part m"
  by (induction rs arbitrary: m) auto

lemma local_part_sync [simp]: "local_part (snd (sync_remote_call E i q m)) = local_part m"
  by (simp add: sync_remote_call_def drop_peers_def local_part_fold split: prod.splits)

lemma local_part_free [simp]:
  "local_part (free_one E i h m) = local_part m" "local_part (free_stripes E ss m) = local_part m"
  "local_part (free_remote E a m) = local_part m"
proof -
  show one: "local_part (free_one E i h m) = local_part m" for i h and m :: "'a MemoryClient"
    by (simp add: free_one_def)
  show stripes: "local_part (free_stripes E ss m) = local_part m" for ss and m :: "'a MemoryClient"
    by (induction ss arbitrary: m) (simp_all add: one)
  show "local_part (free_remote E a m) = local_part m"
    by (simp add: free_remote_def one stripes split: option.splits)
qed

lemma local_part_sync_remoteD: "sync_remote_call E i q (next_request m) = (r, m') \<Longrightarrow> local_part m' = local_part m"
  using local_part_sync by (metis local_part_update(4) snd_conv)

lemma local_part_alloc_oneD: "alloc_one E i sz m = (r, m') \<Longrightarrow> local_part m' = local_part m"
  by (auto simp: alloc_one_def dest!: local_part_sync_remoteD split: prod.splits)

lemma local_part_try_single: "local_part (snd (try_single E sz is m)) = local_part m"
  by (induction "is" arbitrary: m) (auto dest!: local_part_alloc_oneD split: prod.splits option.splits)

lemma local_part_try_singleD: "try_single E sz is m = (r, m') \<Longrightarrow> local_part m' = local_part m"
  using local_part_try_single by (metis snd_conv)

lemma local_part_try_stripes: "local_part (snd (snd (try_stripes E is rem off ss m))) = local_part m"
  by (induction "is" arbitrary: rem off ss m)
    (auto simp: Let_def dest!: local_part_alloc_oneD split: prod.splits option.splits)

lemma local_part_try_stripesD: "try_stripes E is rem off ss m = (r, ss', m') \<Longrightarrow> local_part m' = local_part m"
  using local_part_try_stripes by (metis snd_conv)

lemma local_part_place: "local_part (snd (place E sz m)) = local_part m"
  by (auto simp: place_def Let_def dest!: local_part_try_singleD local_part_try_stripesD
      split: prod.splits option.splits)

lemma local_part_placeD: "place E sz m = (r, m') \<Longrightarrow> local_part m' = local_part m"
  using local_part_place by (metis snd_conv)

lemma local_part_write_pass: "local_part (snd (write_pass E ss offset data d m)) = local_part m"
  by (induction E ss offset data d m rule: write_pass.induct)
    (auto simp: Let_def dest!: local_part_sync_remoteD split: prod.splits sum.splits)

lemma local_part_write_striped: "local_part (snd (write_striped E ss offset data d m)) = local_part m"
proof (induction E ss offset data d m rule: write_striped.induct)
  case (1 E ss offset data d m)
  show ?case
    using local_part_write_pass [of E ss offset data d m] 1
    by (subst write_striped.simps) (auto split: prod.splits sum.splits)
qed

lemma local_part_write_remote [simp]: "local_part (snd (write_remote E a offset data m)) = local_part m"
  by (auto simp: write_remote_def local_part_write_striped dest!: local_part_sync_remoteD
      split: option.splits prod.splits sum.splits)

lemma local_part_read_one: "read_one E i h offset sz m = (r, m') \<Longrightarrow> local_part m' = local_part m"
  by (auto simp: read_one_def dest!: local_part_sync_remoteD split: prod.splits sum.splits)

lemma local_part_release: "release E rel i h m = (r, m') \<Longrightarrow> local_part m' = local_part m"
  by (auto simp: release_def dest!: local_part_sync_remoteD split: prod.splits sum.splits if_splits)

lemma local_part_read_pass: "local_part (snd (read_pass E rel ss offset result d m)) = local_part m"
  by (induction E rel ss offset result d m rule: read_pass.induct)
    (auto simp: Let_def dest!: local_part_read_one local_part_release split: prod.splits sum.splits)

lemma local_part_read_striped: "local_part (snd (read_striped E rel ss offset result d m)) = local_part m"
proof (induction E rel ss offset result d m rule: read_striped.induct)
  case (1 E rel ss offset result d m)
  show ?case
    using local_part_read_pass [of E rel ss offset result d m] 1
    by (subst read_striped.simps) (auto split: prod.splits sum.splits)
qed

lemma local_part_read_remote [simp]: "local_part (snd (read_remote E rel a offset sz m)) = local_part m"
  by (auto simp: read_remote_def local_part_read_striped dest!: local_part_read_one local_part_release
      split: option.splits prod.splits sum.splits)

section \<open>Stripes tile the block\<close>

fun tiles :: "nat \<Rightarrow> Stripe list \<Rightarrow> nat \<Rightarrow> bool" where
  "tiles a [] b \<longleftrightarrow> a = b"
| "tiles a (s # ss) b \<longleftrightarrow> stripe_offset s = a \<and> 0 < stripe_length s \<and> tiles (a + stripe_length s) ss b"

lemma tiles_append: "tiles a (ss @ [s]) b \<longleftrightarrow> tiles a ss (stripe_offset s) \<and> 0 < stripe_length s \<and>
    stripe_offset s + stripe_length s = b"
  by (induction ss arbitrary: a) auto

lemma tiles_le: "tiles a ss b \<Longrightarrow> a \<le> b"
  by (induction ss arbitrary: a) fastforce+

lemma chunk_size_le: "chunk_size p n \<le> n"
  by (simp add: chunk_size_def)

lemma try_stripes_tiles:
  assumes "try_stripes E is rem off ss m = (rem', ss', m')" "tiles 0 ss off"
  shows "rem' \<le> rem \<and> tiles 0 ss' (off + rem - rem')"
  using assms
proof (induction "is" arbitrary: rem off ss m)
  case (Cons i "is")
  let ?n = "chunk_size (mc_peers m ! i) rem"
  show ?case
  proof (cases "rem = 0 \<or> ?n = 0")
    case False
    obtain r m1 where a: "alloc_one E i ?n m = (r, m1)" by (metis surj_pair)
    show ?thesis
    proof (cases r)
      case (Some h)
      let ?s = "\<lparr> stripe_handle = h, stripe_offset = off, stripe_length = ?n, stripe_peer = i \<rparr>"
      have "tiles 0 (ss @ [?s]) (off + ?n)" using Cons.prems(2) False by (simp add: tiles_append)
      moreover have "try_stripes E is (rem - ?n) (off + ?n) (ss @ [?s]) m1 = (rem', ss', m')"
        using Cons.prems(1) False a Some by (simp add: Let_def)
      ultimately show ?thesis using Cons.IH chunk_size_le [of "mc_peers m ! i" rem] by fastforce
    qed (use Cons False a in \<open>simp add: Let_def\<close>)
  qed (use Cons in \<open>auto simp: Let_def split: if_splits\<close>)
qed auto

definition well_placed :: "nat \<Rightarrow> RemoteAllocation \<Rightarrow> bool" where
  "well_placed sz a \<longleftrightarrow> ra_size a = sz \<and>
     (if ra_is_striped a then tiles 0 (ra_stripes a) sz else ra_peer a \<noteq> None)"

lemma place_well_placed: "place E sz m = (Some a, m') \<Longrightarrow> well_placed sz a"
  by (auto simp: place_def Let_def well_placed_def single_allocation_def striped_allocation_def
      split: prod.splits option.splits if_splits dest!: try_stripes_tiles)

lemma allocate_remote_placed:
  assumes "allocate_remote E h sz m = (Inr (), m')"
  shows "\<exists>a. mc_remote m' h = Some a \<and> well_placed sz a"
  using assms by (auto simp: allocate_remote_def Let_def split: prod.splits option.splits dest: place_well_placed)

lemma covers_tile:
  assumes "stripe_offset s + stripe_length s < W64" "pos < W64"
  shows "stripe_covers s pos \<longleftrightarrow> stripe_offset s \<le> pos \<and> pos < stripe_offset s + stripe_length s"
  using assms by (simp add: stripe_covers_def u64_add_exact)

lemma stripe_share_tile:
  assumes "stripe_offset s \<le> pos" "pos < stripe_offset s + stripe_length s" "stripe_offset s + stripe_length s < W64"
  shows "stripe_share s pos n = min n (stripe_offset s + stripe_length s - pos)"
    "u64_sub pos (stripe_offset s) = pos - stripe_offset s"
  using assms by (auto simp: stripe_share_def u64_sub_exact)

lemma sync_error: "sync_remote_call E i q m = (Inl e, m') \<Longrightarrow> e = RuntimeError ''Remote call timed out''"
  by (auto simp: sync_remote_call_def split: prod.splits option.splits)

lemma sync_rethrow:
  "sync_remote_call E i q m = (Inl e, m') \<Longrightarrow> rethrow pre e = RuntimeError (pre @ ''Remote call timed out'')"
  by (drule sync_error) (simp add: rethrow_def is_exception_def)

text \<open>Over stripes that tile the block, one pass writes everything.\<close>

lemma write_pass_complete:
  assumes "tiles a ss b" "b < W64" "offset + length data \<le> b" "a \<le> offset + d" "d \<le> length data"
  shows "(\<exists>m'. write_pass E ss offset data d m = (Inr (length data), m')) \<or>
    (\<exists>msg m'. write_pass E ss offset data d m = (Inl (RuntimeError msg), m'))"
  using assms
proof (induction ss arbitrary: a d m)
  case (Cons s ss)
  let ?pos = "offset + d" and ?e = "a + stripe_length s"
  have s: "stripe_offset s = a" "tiles ?e ss b" "?e \<le> b" using Cons.prems(1) tiles_le by auto
  show ?case
  proof (cases "d < length data")
    case True
    then have pos: "u64_add offset d = ?pos" "?pos < W64" using Cons.prems by (auto simp: u64_add_exact)
    have cov: "stripe_covers s ?pos \<longleftrightarrow> ?pos < ?e" using covers_tile [of s ?pos] s Cons.prems(2,4) pos by simp
    show ?thesis
    proof (cases "?pos < ?e")
      case False
      then show ?thesis using Cons.IH [OF s(2)] Cons.prems True pos cov by simp
    next
      case in_stripe: True
      let ?n = "min (length data - d) (?e - ?pos)"
      have share: "stripe_share s ?pos (length data - d) = ?n"
        using stripe_share_tile [of s ?pos] s Cons.prems(2,4) in_stripe by simp
      let ?q = "write_request (mc_next_request_id m) (stripe_handle s) (u64_sub ?pos (stripe_offset s)) (take ?n (drop d data))"
      obtain r m1 where call: "sync_remote_call E (stripe_peer s) ?q (next_request m) = (r, m1)" by (metis surj_pair)
      have step: "write_pass E (s # ss) offset data d m = (case r of
          Inl e \<Rightarrow> (Inl (rethrow ''Failed to write stripe: '' e), m1) | Inr _ \<Rightarrow> write_pass E ss offset data (d + ?n) m1)"
        using True pos cov in_stripe share call by (simp add: Let_def)
      show ?thesis
      proof (cases r)
        case (Inl e)
        from sync_rethrow [OF call [unfolded Inl]] show ?thesis unfolding step Inl by simp
      next
        case (Inr resp)
        show ?thesis
        proof (cases "d + ?n = length data")
          case True
          then have "write_pass E ss offset data (d + ?n) m1 = (Inr (length data), m1)" by (cases ss) auto
          then show ?thesis using step Inr by simp
        next
          case False
          then have "?e \<le> offset + (d + ?n)" "d + ?n \<le> length data" using True by auto
          from Cons.IH [OF s(2) Cons.prems(2,3) this] show ?thesis using step Inr by simp
        qed
      qed
    qed
  qed (use Cons.prems in auto)
qed auto

lemma write_remote_outcome:
  assumes "well_placed sz a" "offset + length data \<le> sz" "sz < W64"
  shows "fst (write_remote E a offset data m) = Inr () \<or> (\<exists>msg. fst (write_remote E a offset data m) = Inl (RuntimeError msg))"
proof (cases "ra_is_striped a")
  case True
  then have tile: "tiles 0 (ra_stripes a) sz" using assms(1) by (simp add: well_placed_def)
  have w: "write_remote E a offset data m = write_striped E (ra_stripes a) offset data 0 m"
    using True by (simp add: write_remote_def)
  show ?thesis
  proof (cases "data = []")
    case False
    from write_pass_complete [OF tile assms(3,2), of 0 E m]
    consider m' where "write_pass E (ra_stripes a) offset data 0 m = (Inr (length data), m')"
      | msg m' where "write_pass E (ra_stripes a) offset data 0 m = (Inl (RuntimeError msg), m')" by auto
    then show ?thesis
    proof cases
      case 1
      have "write_striped E (ra_stripes a) offset data (length data) m' = (Inr (), m')"
        by (subst write_striped.simps) simp
      then show ?thesis using w 1 False by (subst (asm) write_striped.simps) (simp add: split: if_splits)
    next
      case 2
      then show ?thesis using w False by (subst (asm) write_striped.simps) simp
    qed
  qed (use w in \<open>simp add: write_striped.simps\<close>)
qed (auto simp: write_remote_def split: option.splits prod.splits sum.splits dest: sync_error)

lemma read_one_error: "read_one E i h offset n m = (Inl e, m') \<Longrightarrow> \<exists>msg. e = RuntimeError msg"
  by (auto simp: read_one_def read_reply_def split: prod.splits sum.splits option.splits if_splits dest: sync_error)

lemma release_error: "release E rel i h m = (Inl e, m') \<Longrightarrow> \<exists>msg. e = RuntimeError msg"
  by (auto simp: release_def split: prod.splits sum.splits if_splits dest: sync_error)

lemma rethrow_runtime [simp]: "rethrow pre (RuntimeError msg) = RuntimeError (pre @ msg)"
  by (simp add: rethrow_def is_exception_def)

lemma read_pass_complete:
  assumes "tiles a ss b" "b < W64" "offset + length result \<le> b" "a \<le> offset + d" "d \<le> length result"
  shows "case fst (read_pass E rel ss offset result d m) of Inr (res, d') \<Rightarrow> d' = length result | Inl e \<Rightarrow> e \<noteq> Nontermination"
  using assms
proof (induction ss arbitrary: a d result m)
  case (Cons s ss)
  let ?pos = "offset + d" and ?e = "a + stripe_length s"
  have s: "stripe_offset s = a" "tiles ?e ss b" "?e \<le> b" using Cons.prems(1) tiles_le by auto
  show ?case
  proof (cases "d < length result")
    case True
    then have pos: "u64_add offset d = ?pos" "?pos < W64" using Cons.prems by (auto simp: u64_add_exact)
    have cov: "stripe_covers s ?pos \<longleftrightarrow> ?pos < ?e" using covers_tile [of s ?pos] s Cons.prems(2,4) pos by simp
    show ?thesis
    proof (cases "?pos < ?e")
      case False
      then show ?thesis using Cons.IH [OF s(2)] Cons.prems True pos cov by simp
    next
      case in_stripe: True
      let ?n = "min (length result - d) (?e - ?pos)"
      have share: "stripe_share s ?pos (length result - d) = ?n"
        using stripe_share_tile [of s ?pos] s Cons.prems(2,4) in_stripe by simp
      have cont: "case fst (read_pass E rel ss offset res (d + ?n) m1) of
          Inr (r, d') \<Rightarrow> d' = length result | Inl e \<Rightarrow> e \<noteq> Nontermination" if len: "length res = length result" for res m1
      proof (cases "d + ?n = length result")
        case True
        then have "read_pass E rel ss offset res (d + ?n) m1 = (Inr (res, length result), m1)"
          using len by (cases ss) auto
        then show ?thesis by simp
      next
        case False
        then have "?e \<le> offset + (d + ?n)" "d + ?n \<le> length res" using True len by auto
        moreover have "offset + length res \<le> b" using len Cons.prems(3) by simp
        ultimately show ?thesis using Cons.IH [OF s(2) Cons.prems(2)] len by metis
      qed
      have rest: "fst (read_pass E rel ss offset (blit d x result) (d + ?n) m1) \<noteq> Inl Nontermination"
          "fst (read_pass E rel ss offset (blit d x result) (d + ?n) m1) = Inr (r, d') \<Longrightarrow> d' = length result"
        if "\<not> length result < d + length x" for x m1 r d'
        using cont [of "blit d x result" m1] that by (auto split: sum.splits)
      show ?thesis
        using True pos cov in_stripe share rest
        by (auto simp: Let_def split: prod.splits sum.splits dest!: read_one_error release_error)
    qed
  qed (use Cons.prems in auto)
qed auto

lemma read_remote_outcome:
  assumes "well_placed sz a" "offset + n \<le> sz" "sz < W64"
  shows "fst (read_remote E rel a offset n m) \<noteq> Inl Nontermination"
proof (cases "ra_is_striped a \<and> n \<noteq> 0")
  case True
  then have tile: "tiles 0 (ra_stripes a) sz" using assms(1) by (simp add: well_placed_def)
  have len: "length (replicate n (0::byte)) = n" by simp
  obtain r m' where pass: "read_pass E rel (ra_stripes a) offset (replicate n 0) 0 m = (r, m')" by (metis surj_pair)
  have done1: "read_striped E rel ss offset res (length res) m1 = (Inr res, m1)" for ss res and m1 :: "'a MemoryClient"
    by (subst read_striped.simps) simp
  have "read_striped E rel (ra_stripes a) offset (replicate n 0) 0 m = (case r of
      Inl e \<Rightarrow> (Inl e, m') | Inr (res, d') \<Rightarrow> if d' = 0 then (Inl Nontermination, m')
        else read_striped E rel (ra_stripes a) offset res d' m')"
    using True pass by (subst read_striped.simps) simp
  moreover have "length res = n \<and> d' = n" if "r = Inr (res, d')" for res d'
    using read_pass_mono [of E rel _ offset _ 0 m res d' m'] read_pass_complete [OF tile assms(3), of offset "replicate n 0" 0 E rel m]
      pass that assms(2) by auto
  moreover have "e \<noteq> Nontermination" if "r = Inl e" for e
    using read_pass_complete [OF tile assms(3), of offset "replicate n 0" 0 E rel m] pass that assms(2) by auto
  ultimately show ?thesis using True done1
    by (auto simp: read_remote_def split: sum.splits)
next
  case False
  then show ?thesis
    by (auto simp: read_remote_def read_striped.simps split: option.splits prod.splits sum.splits
        dest!: read_one_error release_error)
qed

text \<open>A striped block that moves back is freed stripe by stripe, as it is read: when the second stripe cannot be
  read the operation fails after the first one was freed on its peer, and the table still has the block.\<close>

lemma striped_read_frees_as_it_goes:
  assumes "ra_is_striped a" "ra_stripes a = [s1, s2]" "stripe_offset s1 = 0" "stripe_length s1 = n1" "0 < n1"
    and "stripe_offset s2 = n1" "stripe_length s2 = n2" "0 < n2" "n1 + n2 < W64"
    and "read_one E (stripe_peer s1) (stripe_handle s1) 0 n1 m = (Inr data, m1)" "length data = n1"
    and "release E True (stripe_peer s1) (stripe_handle s1) m1 = (Inr (), m2)"
    and "read_one E (stripe_peer s2) (stripe_handle s2) 0 n2 m2 = (Inl e, m3)"
  shows "read_remote E True a 0 (n1 + n2) m = (Inl (rethrow ''Failed to read stripe: '' e), m3) \<and> mc_remote m3 = mc_remote m"
proof -
  have c: "stripe_covers s1 (u64_add 0 0)" "stripe_covers s2 (u64_add 0 n1)"
    using assms(3-9) by (simp_all add: stripe_covers_def u64_add_def)
  have n: "stripe_share s1 (u64_add 0 0) (n1 + n2) = n1" "stripe_share s2 (u64_add 0 n1) n2 = n2"
    "u64_sub (u64_add 0 0) (stripe_offset s1) = 0" "u64_sub (u64_add 0 n1) (stripe_offset s2) = 0"
    using assms(3-9) by (simp_all add: stripe_share_def u64_add_def u64_sub_exact)
  have "read_pass E True [s1, s2] 0 (replicate (n1 + n2) 0) 0 m = (Inl (rethrow ''Failed to read stripe: '' e), m3)"
    using assms c n by (simp add: Let_def)
  then have "read_remote E True a 0 (n1 + n2) m = (Inl (rethrow ''Failed to read stripe: '' e), m3)"
    using assms(1,2,5) by (simp add: read_remote_def read_striped.simps)
  moreover have "local_part m3 = local_part m"
    using local_part_read_one [OF assms(10)] local_part_release [OF assms(12)] local_part_read_one [OF assms(13)] by simp
  ultimately show ?thesis by (simp add: local_part_def)
qed

end
