(* ===== verification/ClientApi.thy ===== *)
theory ClientApi
  imports ClientRemote
begin

text \<open>
  The public operations of the client (\<open>memclient/src/client_api.cpp\<close>): allocate, free, read
  and write over the local cache and the peers, eviction with its rollback, and loading a
  block back. An operation returns its result or exception with the client it leaves behind.
\<close>

section \<open>Construction\<close>

definition MemoryClient_new ::
  "'w env \<Rightarrow> nat \<Rightarrow> string \<Rightarrow> int \<Rightarrow> PeerEndpoint list \<Rightarrow> (nat \<Rightarrow> connect_attempt) \<Rightarrow> 'w \<Rightarrow> 'w MemoryClient" where
  "MemoryClient_new E max_local_bytes test_ip test_port discovered attempt w =
    (let m = \<lparr> mc_cache = LRUCache_new max_local_bytes, mc_remote = Map.empty, mc_peers = [],
           mc_pending_connects = [], mc_outbound = [], mc_pending = {}, mc_resolved = Map.empty,
           mc_next_request_id = 1, mc_next_local_handle = 1, mc_world = w \<rparr>
     in if test_ip \<noteq> [] \<and> 0 < test_port
        then (case ensure_peer test_ip (nat test_port) m of (i, created, m1) \<Rightarrow> start_connect (attempt i) i m1)
        else drain_pending_connects attempt (connect_to_peers (env_now E) discovered m))"

section \<open>Eviction\<close>

text \<open>The \<open>try\<close> block: move an evicted block to a peer.\<close>

definition push_block :: "'w env \<Rightarrow> CacheBlock \<Rightarrow> 'w MemoryClient \<Rightarrow> (cpp_error + unit) \<times> 'w MemoryClient" where
  "push_block E b m =
    (case allocate_remote E (cb_handle b) (length (cb_data b)) m of
       (Inl e, m1) \<Rightarrow> (Inl e, m1)
     | (Inr _, m1) \<Rightarrow>
         (case mc_remote m1 (cb_handle b) of
            None \<Rightarrow> (Inl (RuntimeError ''Remote allocation vanished after allocate''), m1)
          | Some a \<Rightarrow> write_remote E a 0 (cb_data b) m1))"

text \<open>The \<open>catch (...)\<close> block.\<close>

definition rollback :: "'w env \<Rightarrow> CacheBlock \<Rightarrow> 'w MemoryClient \<Rightarrow> 'w MemoryClient" where
  "rollback E b m =
    (let m1 = (case mc_remote m (cb_handle b) of
                 Some orphan \<Rightarrow> free_remote E orphan (m \<lparr> mc_remote := (mc_remote m)(cb_handle b := None) \<rparr>)
               | None \<Rightarrow> m)
     in m1 \<lparr> mc_cache := snd (LRUCache_put (mc_cache m1) (cb_handle b) (cb_data b) (cb_dirty b)) \<rparr>)"

lemma allocate_remote_local:
  assumes "allocate_remote E h sz m = (r, m')"
  shows "mc_cache m' = mc_cache m" "mc_next_local_handle m' = mc_next_local_handle m"
    "mc_remote m' = mc_remote m \<or> (\<exists>a. r = Inr () \<and> mc_remote m' = (mc_remote m)(h \<mapsto> a))"
proof -
  define m0 where "m0 = (if connected_peers m = [] then snd (wait_for_connected_peer (env_now E) (env_rounds E (mc_world m)) m) else m)"
  obtain p m1 where p: "place E sz m0 = (p, m1)" by (metis surj_pair)
  have "local_part m1 = local_part m" using local_part_placeD [OF p] by (simp add: m0_def)
  note same = local_partD [OF this]
  have run: "allocate_remote E h sz m = (case p of
      None \<Rightarrow> (Inl (RuntimeError ''Failed to allocate on any peer: out of memory on all peers''), m1)
    | Some a \<Rightarrow> (Inr (), m1 \<lparr> mc_remote := (mc_remote m1)(h \<mapsto> a) \<rparr>))"
    using p by (simp add: allocate_remote_def Let_def m0_def split: option.splits)
  show "mc_cache m' = mc_cache m" "mc_next_local_handle m' = mc_next_local_handle m"
    "mc_remote m' = mc_remote m \<or> (\<exists>a. r = Inr () \<and> mc_remote m' = (mc_remote m)(h \<mapsto> a))"
    using assms same unfolding run by (auto split: option.splits)
qed

lemma write_remote_local: "write_remote E a offset data m = (r, m') \<Longrightarrow> local_part m' = local_part m"
  using local_part_write_remote by (metis snd_conv)

lemma push_block_cache:
  assumes "push_block E b m = (r, m')"
  shows "mc_cache m' = mc_cache m"
proof -
  obtain q m1 where alloc: "allocate_remote E (cb_handle b) (length (cb_data b)) m = (q, m1)" by (metis surj_pair)
  show ?thesis
    using assms allocate_remote_local(1) [OF alloc]
    by (auto simp: push_block_def alloc split: sum.splits option.splits dest!: write_remote_local local_partD(1))
qed

function evict_loop :: "'w env \<Rightarrow> nat \<Rightarrow> bool \<Rightarrow> 'w MemoryClient \<Rightarrow> (cpp_error + unit) \<times> 'w MemoryClient" where
  "evict_loop E size_needed pressure m =
    (if \<not> needs_eviction (mc_cache m) size_needed \<and> \<not> pressure then (Inr (), m)
     else case evict_one (mc_cache m) of
       (None, c) \<Rightarrow> (Inr (), m)
     | (Some b, c) \<Rightarrow>
         (case push_block E b (m \<lparr> mc_cache := c \<rparr>) of
            (Inr _, m') \<Rightarrow> evict_loop E size_needed pressure m'
          | (Inl e, m') \<Rightarrow> (Inl e, if is_exception e then rollback E b m' else m')))"
  by pat_completeness auto
termination
proof (relation "measure (\<lambda>(E, n, p, m). length (lru_list (mc_cache m)))", goal_cases)
  case (2 E n p m x c b y m')
  then have "mc_cache m' = c"
    using push_block_cache [of E b "m \<lparr> mc_cache := c \<rparr>" y m'] by simp
  moreover have "length (lru_list c) < length (lru_list (mc_cache m))"
    using 2 by (auto simp: evict_one_def pop_last_def split: if_splits)
  ultimately show ?case by simp
qed simp

declare evict_loop.simps [simp del]

definition evict_if_needed :: "'w env \<Rightarrow> nat \<Rightarrow> 'w MemoryClient \<Rightarrow> (cpp_error + unit) \<times> 'w MemoryClient" where
  "evict_if_needed E size_needed m =
    (let available = env_available_bytes E (mc_world m)
     in evict_loop E size_needed (0 < available \<and> available < 100 * 1024 * 1024) m)"

text \<open>The memory monitor's callback.\<close>

definition on_memory_pressure :: "'w env \<Rightarrow> 'w MemoryClient \<Rightarrow> (cpp_error + unit) \<times> 'w MemoryClient" where
  "on_memory_pressure E m = evict_if_needed E (max (current_bytes (mc_cache m) div 2) 1048576) m"

section \<open>Operations\<close>

definition allocate :: "'w env \<Rightarrow> nat \<Rightarrow> 'w MemoryClient \<Rightarrow> (cpp_error + nat) \<times> 'w MemoryClient" where
  "allocate E sz m0 =
    (let h = mc_next_local_handle m0; m = m0 \<lparr> mc_next_local_handle := u64_add h 1 \<rparr> in
     if max_bytes (mc_cache m) < sz then
       (case allocate_remote E h sz m of (Inl e, m1) \<Rightarrow> (Inl e, m1) | (Inr _, m1) \<Rightarrow> (Inr h, m1))
     else case evict_if_needed E sz m of
       (Inl e, m1) \<Rightarrow> (Inl e, m1)
     | (Inr _, m1) \<Rightarrow>
         (case LRUCache_put (mc_cache m1) h (replicate sz 0) False of
            (False, c) \<Rightarrow> (Inl (RuntimeError ''Failed to cache allocation locally''), m1 \<lparr> mc_cache := c \<rparr>)
          | (True, c) \<Rightarrow> (Inr h, m1 \<lparr> mc_cache := c \<rparr>)))"

definition MemoryClient_free :: "'w env \<Rightarrow> nat \<Rightarrow> 'w MemoryClient \<Rightarrow> 'w MemoryClient" where
  "MemoryClient_free E h m =
    (case LRUCache_remove (mc_cache m) h of
       (True, c) \<Rightarrow> m \<lparr> mc_cache := c \<rparr>
     | (False, c) \<Rightarrow>
         (case mc_remote m h of
            None \<Rightarrow> m
          | Some a \<Rightarrow> let m1 = free_remote E a m in m1 \<lparr> mc_remote := (mc_remote m1)(h := None) \<rparr>))"

definition oversized_remote_alloc :: "nat \<Rightarrow> 'w MemoryClient \<Rightarrow> RemoteAllocation option" where
  "oversized_remote_alloc h m =
    (case mc_remote m h of
       None \<Rightarrow> None
     | Some a \<Rightarrow> if ra_size a \<le> max_bytes (mc_cache m) then None else Some a)"

definition load_to_local :: "'w env \<Rightarrow> nat \<Rightarrow> 'w MemoryClient \<Rightarrow> (cpp_error + unit) \<times> 'w MemoryClient" where
  "load_to_local E h m =
    (case mc_remote m h of
       None \<Rightarrow> (Inl (InvalidArgument ''Invalid handle or block not found''), m)
     | Some a \<Rightarrow>
         (case evict_if_needed E (ra_size a) m of
            (Inl e, m1) \<Rightarrow> (Inl e, m1)
          | (Inr _, m1) \<Rightarrow>
              (case read_remote E True a 0 (ra_size a) m1 of
                 (Inl e, m2) \<Rightarrow> (Inl e, m2)
               | (Inr data, m2) \<Rightarrow>
                   (Inr (), m2 \<lparr> mc_remote := (mc_remote m2)(h := None),
                      mc_cache := snd (LRUCache_put (mc_cache m2) h data False) \<rparr>))))"

text \<open>\<open>offset > size || n > size - offset\<close>\<close>

definition out_of_bounds :: "nat \<Rightarrow> nat \<Rightarrow> nat \<Rightarrow> bool" where
  "out_of_bounds offset n total_sz \<longleftrightarrow> total_sz < offset \<or> total_sz - offset < n"

definition read_cached :: "nat \<Rightarrow> nat \<Rightarrow> bytes \<Rightarrow> cpp_error + bytes" where
  "read_cached offset sz local =
    (if out_of_bounds offset sz (length local) then Inl (OutOfRange ''Read out of bounds'')
     else Inr (peek offset sz local))"

definition MemoryClient_read :: "'w env \<Rightarrow> nat \<Rightarrow> nat \<Rightarrow> nat \<Rightarrow> 'w MemoryClient \<Rightarrow> (cpp_error + bytes) \<times> 'w MemoryClient" where
  "MemoryClient_read E h offset sz m =
    (case LRUCache_get (mc_cache m) h of
       (Some local, c) \<Rightarrow> (read_cached offset sz local, m \<lparr> mc_cache := c \<rparr>)
     | (None, _) \<Rightarrow>
         (case oversized_remote_alloc h m of
            Some a \<Rightarrow>
              if out_of_bounds offset sz (ra_size a) then (Inl (OutOfRange ''Read out of bounds''), m)
              else read_remote E False a offset sz m
          | None \<Rightarrow>
              (case load_to_local E h m of
                 (Inl e, m1) \<Rightarrow> (Inl e, m1)
               | (Inr _, m1) \<Rightarrow>
                   (case LRUCache_get (mc_cache m1) h of
                      (None, _) \<Rightarrow> (Inl (RuntimeError ''Failed to load block from remote''), m1)
                    | (Some local, c) \<Rightarrow> (read_cached offset sz local, m1 \<lparr> mc_cache := c \<rparr>)))))"

definition write_cached :: "nat \<Rightarrow> nat \<Rightarrow> bytes \<Rightarrow> bytes \<Rightarrow> LRUCache \<Rightarrow> (cpp_error + unit) \<times> LRUCache" where
  "write_cached h offset data local c =
    (if out_of_bounds offset (length data) (length local) then (Inl (OutOfRange ''Write out of bounds''), c)
     else (Inr (), snd (LRUCache_put c h (blit offset data local) True)))"

definition MemoryClient_write :: "'w env \<Rightarrow> nat \<Rightarrow> nat \<Rightarrow> bytes \<Rightarrow> 'w MemoryClient \<Rightarrow> (cpp_error + unit) \<times> 'w MemoryClient" where
  "MemoryClient_write E h offset data m =
    (case LRUCache_get (mc_cache m) h of
       (Some local, c) \<Rightarrow> (case write_cached h offset data local c of (r, c') \<Rightarrow> (r, m \<lparr> mc_cache := c' \<rparr>))
     | (None, _) \<Rightarrow>
         (case oversized_remote_alloc h m of
            Some a \<Rightarrow>
              if out_of_bounds offset (length data) (ra_size a) then (Inl (OutOfRange ''Write out of bounds''), m)
              else write_remote E a offset data m
          | None \<Rightarrow>
              (case load_to_local E h m of
                 (Inl e, m1) \<Rightarrow> (Inl e, m1)
               | (Inr _, m1) \<Rightarrow>
                   (case LRUCache_get (mc_cache m1) h of
                      (None, _) \<Rightarrow> (Inl (RuntimeError ''Failed to load block from remote''), m1)
                    | (Some local, c) \<Rightarrow>
                        (case write_cached h offset data local c of (r, c') \<Rightarrow> (r, m1 \<lparr> mc_cache := c' \<rparr>))))))"

section \<open>Eviction loses nothing\<close>

lemmas free_remote_local [simp] = local_partD [OF local_part_free(3)]

text \<open>A block is in the cache or on the peers, not both.\<close>

definition client_inv :: "'w MemoryClient \<Rightarrow> bool" where
  "client_inv m \<longleftrightarrow> lru_inv (mc_cache m) \<and> lru_map (mc_cache m) \<inter> dom (mc_remote m) = {}"

definition moved_only :: "'w MemoryClient \<Rightarrow> 'w MemoryClient \<Rightarrow> bool" where
  "moved_only m m' \<longleftrightarrow> client_inv m' \<and> max_bytes (mc_cache m') = max_bytes (mc_cache m) \<and>
     set (lru_list (mc_cache m')) \<subseteq> set (lru_list (mc_cache m)) \<and> mc_remote m \<subseteq>\<^sub>m mc_remote m' \<and>
     (\<forall>b \<in> set (lru_list (mc_cache m)). b \<in> set (lru_list (mc_cache m')) \<or>
        (\<exists>a. mc_remote m' (cb_handle b) = Some a \<and> well_placed (length (cb_data b)) a)) \<and>
     dom (mc_remote m') \<subseteq> dom (mc_remote m) \<union> lru_map (mc_cache m)"

lemma moved_only_refl: "client_inv m \<Longrightarrow> moved_only m m"
  by (simp add: moved_only_def)

lemma moved_only_trans:
  assumes "moved_only m m1" "moved_only m1 m2" "client_inv m"
  shows "moved_only m m2"
proof -
  note m1 = assms(1) [unfolded moved_only_def] and m2 = assms(2) [unfolded moved_only_def]
  have sub: "lru_map (mc_cache m1) \<subseteq> lru_map (mc_cache m)"
    using m1 assms(3) by (auto simp: client_inv_def lru_inv_def)
  have stay: "mc_remote m2 h = Some a" if "mc_remote m1 h = Some a" for h a
    using that m2 by (metis domI map_le_def)
  have all: "b \<in> set (lru_list (mc_cache m2)) \<or>
      (\<exists>a. mc_remote m2 (cb_handle b) = Some a \<and> well_placed (length (cb_data b)) a)"
    if "b \<in> set (lru_list (mc_cache m))" for b
    using that m1 m2 stay by blast
  have dom: "dom (mc_remote m2) \<subseteq> dom (mc_remote m) \<union> lru_map (mc_cache m)" using m1 m2 sub by blast
  have le: "mc_remote m \<subseteq>\<^sub>m mc_remote m2" using m1 m2 map_le_trans by blast
  show ?thesis unfolding moved_only_def using m1 m2 all dom le by auto
qed

lemma push_block_outcome:
  assumes "push_block E b m = (r, m')" "length (cb_data b) < W64"
  shows "(r = Inr () \<and> (\<exists>a. mc_remote m' = (mc_remote m)(cb_handle b \<mapsto> a) \<and> well_placed (length (cb_data b)) a)) \<or>
    ((\<exists>msg. r = Inl (RuntimeError msg)) \<and>
     (mc_remote m' = mc_remote m \<or> (\<exists>a. mc_remote m' = (mc_remote m)(cb_handle b \<mapsto> a))))"
proof -
  let ?n = "length (cb_data b)"
  obtain q m1 where alloc: "allocate_remote E (cb_handle b) ?n m = (q, m1)" by (metis surj_pair)
  note remote = allocate_remote_local(3) [OF alloc]
  show ?thesis
  proof (cases q)
    case (Inl e)
    then have "e = RuntimeError ''Failed to allocate on any peer: out of memory on all peers''"
      using alloc by (auto simp: allocate_remote_def Let_def split: prod.splits option.splits)
    then show ?thesis using assms(1) alloc Inl remote by (auto simp: push_block_def)
  next
    case (Inr u)
    then obtain a where a: "mc_remote m1 (cb_handle b) = Some a" "well_placed ?n a"
      using allocate_remote_placed [of E "cb_handle b" ?n m m1] alloc by auto
    then have upd: "mc_remote m1 = (mc_remote m)(cb_handle b \<mapsto> a)" using remote by (auto simp: fun_upd_idem)
    have w: "write_remote E a 0 (cb_data b) m1 = (r, m')" using assms(1) alloc Inr a by (simp add: push_block_def)
    then have "mc_remote m' = mc_remote m1" using write_remote_local local_partD(2) by blast
    then show ?thesis using write_remote_outcome [OF a(2) _ assms(2), of 0 "cb_data b" E m1] w upd a(2) by auto
  qed
qed

lemma rollback_restores:
  assumes inv: "lru_inv c" "lru_list c \<noteq> []" and b: "b = last (lru_list c)"
    and cache: "mc_cache m' = pop_last c"
    and remote: "mc_remote m' = R \<or> (\<exists>a. mc_remote m' = R(cb_handle b \<mapsto> a))" "R (cb_handle b) = None"
  shows "mc_remote (rollback E b m') = R" "lru_inv (mc_cache (rollback E b m'))"
    "max_bytes (mc_cache (rollback E b m')) = max_bytes c"
    "set (lru_list (mc_cache (rollback E b m'))) = set (lru_list c)"
proof -
  note pop = pop_last_ok [OF inv]
  have split: "lru_list c = butlast (lru_list c) @ [b]" using inv(2) b by simp
  have "distinct (map cb_handle (butlast (lru_list c) @ [b]))" using lru_invD(4) [OF inv(1)] split by metis
  then have wo: "without (cb_handle b) (butlast (lru_list c)) = butlast (lru_list c)"
    by (intro without_absent) auto
  have total: "total_bytes (lru_list c) = total_bytes (butlast (lru_list c)) + length (cb_data b)"
    by (subst split) simp
  then have fit: "length (cb_data b) \<le> max_bytes (pop_last c)"
    using lru_invD(2,3) [OF inv(1)] pop(3) by simp
  from LRUCache_put_ok [OF pop(1) fit, of "cb_handle b" "cb_dirty b"] obtain k c' where
    put: "LRUCache_put (pop_last c) (cb_handle b) (cb_data b) (cb_dirty b) = (True, c')" "lru_inv c'"
      "max_bytes c' = max_bytes c" "lru_list c' = b # take k (butlast (lru_list c))"
    and minimal: "\<forall>j. k < j \<longrightarrow> j \<le> length (butlast (lru_list c)) \<longrightarrow>
      max_bytes c < total_bytes (take j (butlast (lru_list c))) + length (cb_data b)"
    using pop(2,3) wo by auto
  have "\<not> k < length (butlast (lru_list c))"
    using minimal lru_invD(2,3) [OF inv(1)] total by (metis linorder_not_less order_refl take_all)
  then have list: "set (lru_list c') = set (lru_list c)" using put(4) by (subst split) auto
  have c'': "mc_cache (rollback E b m') = c'"
    using put(1) cache by (auto simp: rollback_def Let_def split: option.splits)
  show "mc_remote (rollback E b m') = R"
    using remote by (auto simp: rollback_def Let_def fun_upd_idem split: option.splits)
  show "lru_inv (mc_cache (rollback E b m'))" "max_bytes (mc_cache (rollback E b m')) = max_bytes c"
    "set (lru_list (mc_cache (rollback E b m'))) = set (lru_list c)"
    using c'' put list by auto
qed

lemma evicted_block:
  assumes "client_inv m" "evict_one (mc_cache m) = (Some b, c)"
  shows "b \<in> set (lru_list (mc_cache m))" "b = last (lru_list (mc_cache m))" "c = pop_last (mc_cache m)"
    "lru_list (mc_cache m) \<noteq> []" "mc_remote m (cb_handle b) = None" "length (cb_data b) < W64"
    "lru_map c = lru_map (mc_cache m) - {cb_handle b}"
proof -
  show e: "b = last (lru_list (mc_cache m))" "c = pop_last (mc_cache m)" "lru_list (mc_cache m) \<noteq> []"
    using assms(2) by (auto simp: evict_one_def split: if_splits)
  then show mem: "b \<in> set (lru_list (mc_cache m))" by simp
  have inv: "lru_inv (mc_cache m)" using assms(1) by (simp add: client_inv_def)
  then have "cb_handle b \<in> lru_map (mc_cache m)" using mem lru_invD(5) by auto
  then show "mc_remote m (cb_handle b) = None" using assms(1) by (auto simp: client_inv_def)
  have "length (cb_data b) \<le> total_bytes (lru_list (mc_cache m))"
    using mem unfolding total_bytes_def by (intro member_le_sum_list) auto
  then show "length (cb_data b) < W64" using lru_invD(1-3) [OF inv] by linarith
  show "lru_map c = lru_map (mc_cache m) - {cb_handle b}" using e by (simp add: pop_last_def)
qed

lemma evicted_moves:
  assumes inv: "client_inv m" and e: "evict_one (mc_cache m) = (Some b, c)"
    and m': "mc_cache m' = c" "mc_remote m' = (mc_remote m)(cb_handle b \<mapsto> a)" "well_placed (length (cb_data b)) a"
  shows "moved_only m m'"
proof -
  note b = evicted_block [OF inv e]
  have lru: "lru_inv (mc_cache m)" and disj: "lru_map (mc_cache m) \<inter> dom (mc_remote m) = {}"
    using inv by (auto simp: client_inv_def)
  note pop = pop_last_ok [OF lru b(4), folded b(3)]
  have list: "set (lru_list (mc_cache m)) = insert b (set (lru_list c))"
    using b(2,4) pop(2) by (metis append_butlast_last_id list.simps(15) rotate1.simps(2) set_rotate1)
  have handle: "cb_handle b \<in> lru_map (mc_cache m)" using b(1) lru_invD(5) [OF lru] by auto
  have ci: "client_inv m'" using pop(1) b(7) disj m' by (auto simp: client_inv_def)
  have le: "mc_remote m \<subseteq>\<^sub>m mc_remote m'" using b(5) m'(2) by (auto simp: map_le_def)
  show ?thesis unfolding moved_only_def
    using ci le list pop(3) m' handle by auto
qed

lemma evict_loop_moves:
  assumes "evict_loop E n p m = (r, m')" "client_inv m"
  shows "moved_only m m' \<and> (r = Inr () \<or> (\<exists>msg. r = Inl (RuntimeError msg))) \<and>
    (r = Inr () \<longrightarrow> \<not> needs_eviction (mc_cache m') n \<or> lru_list (mc_cache m') = [])"
  using assms
proof (induction E n p m rule: evict_loop.induct)
  case (1 E n p m)
  show ?case
  proof (cases "\<not> needs_eviction (mc_cache m) n \<and> \<not> p \<or> lru_list (mc_cache m) = []")
    case True
    then have "r = Inr ()" "m' = m"
      using 1(2) by (subst (asm) evict_loop.simps; auto simp: evict_one_def split: if_splits)+
    then show ?thesis using True 1(3) moved_only_refl by auto
  next
    case go: False
    obtain b c where e: "evict_one (mc_cache m) = (Some b, c)" using go by (simp add: evict_one_def)
    note blk = evicted_block [OF 1(3) e]
    obtain q m1 where q: "push_block E b (m \<lparr> mc_cache := c \<rparr>) = (q, m1)" by (metis surj_pair)
    have cache: "mc_cache m1 = c" using push_block_cache [OF q] by simp
    have run: "(r, m') = (case q of Inr _ \<Rightarrow> evict_loop E n p m1
        | Inl err \<Rightarrow> (Inl err, if is_exception err then rollback E b m1 else m1))"
      using 1(2) go e q by (subst (asm) evict_loop.simps) (auto split: sum.splits)
    from push_block_outcome [OF q blk(6)] consider
      (moved) a where "q = Inr ()" "mc_remote m1 = (mc_remote m)(cb_handle b \<mapsto> a)" "well_placed (length (cb_data b)) a"
      | (failed) msg where "q = Inl (RuntimeError msg)"
          "mc_remote m1 = mc_remote m \<or> (\<exists>a. mc_remote m1 = (mc_remote m)(cb_handle b \<mapsto> a))" by auto
    then show ?thesis
    proof cases
      case moved
      have mv: "moved_only m m1" by (rule evicted_moves [OF 1(3) e cache moved(2,3)])
      then have "client_inv m1" by (simp add: moved_only_def)
      moreover have "evict_loop E n p m1 = (r, m')" using run moved by simp
      ultimately show ?thesis
        using 1(1) [OF _ e [symmetric] refl q [symmetric] moved(1)] go mv moved_only_trans [OF mv _ 1(3)] by auto
    next
      case failed
      then have out: "r = Inl (RuntimeError msg)" "m' = rollback E b m1" using run by (auto simp: is_exception_def)
      have lru: "lru_inv (mc_cache m)" using 1(3) by (simp add: client_inv_def)
      note rb = rollback_restores [OF lru blk(4,2) cache [unfolded blk(3)] failed(2) blk(5), of E]
      have "lru_map (mc_cache m') = lru_map (mc_cache m)"
        using rb(2,4) lru out(2) by (simp add: lru_invD(5))
      then have "moved_only m m'" using rb out 1(3) by (auto simp: moved_only_def client_inv_def)
      then show ?thesis using out by simp
    qed
  qed
qed


definition demo_env :: "unit env" where
  "demo_env = \<lparr> env_codec = demo_response_codec, env_call = (\<lambda>_ _ w. (Some [1, 0, 0, 0, 9], [], w)),
     env_now = 0, env_rounds = (\<lambda>_. []), env_available_bytes = (\<lambda>_. 0) \<rparr>"

definition demo_caching :: "unit MemoryClient" where
  "demo_caching = demo_client \<lparr> mc_cache := snd (LRUCache_put (LRUCache_new 8) 1 [1, 2] True) \<rparr>"

lemma demo_caching_inv: "client_inv demo_caching"
proof -
  have "lru_inv (lru_apply (Put 1 [1, 2] True) (LRUCache_new 8))"
    by (intro lru_apply_inv LRUCache_new_inv) (simp add: W64_def)
  then show ?thesis by (simp add: client_inv_def demo_caching_def demo_client_def)
qed


text \<open>
  Property C18. Reading and writing a remote block always returns: for a block that
  \<open>allocate_remote\<close> placed, striped or not, and any range inside it, the loops over the stripes
  end whatever the peers answer and whatever was done to the client since. A write succeeds
  or throws; it never touches memory outside the caller's buffer.
\<close>

theorem remote_io_terminates:
  assumes "allocate_remote E h sz m = (Inr (), m1)" "sz < W64"
    and "offset + length data \<le> sz" "offset + n \<le> sz"
  shows "\<exists>a. mc_remote m1 h = Some a \<and> ra_size a = sz \<and>
    (fst (write_remote E a offset data m2) = Inr () \<or>
      (\<exists>msg. fst (write_remote E a offset data m2) = Inl (RuntimeError msg))) \<and>
    fst (read_remote E rel a offset n m2) \<noteq> Inl Nontermination"
proof -
  obtain a where a: "mc_remote m1 h = Some a" "well_placed sz a" using allocate_remote_placed [OF assms(1)] by blast
  then have "ra_size a = sz" by (simp add: well_placed_def)
  then show ?thesis
    using a write_remote_outcome [OF a(2) assms(3,2)] read_remote_outcome [OF a(2) assms(4,2)] by blast
qed

definition demo_two_peers :: "unit MemoryClient" where
  "demo_two_peers = demo_client \<lparr> mc_peers :=
     [(RemotePeer_new ''10.0.0.1'' 1) \<lparr> rp_connected := True, rp_free_ram_bytes := 4, rp_capacity_known := True \<rparr>,
      (RemotePeer_new ''10.0.0.2'' 1) \<lparr> rp_connected := True, rp_free_ram_bytes := 3, rp_capacity_known := True \<rparr>] \<rparr>"

lemma demo_striped:
  "fst (allocate_remote demo_env 5 6 demo_two_peers) = Inr ()"
  "map_option (map stripe_length \<circ> ra_stripes) (mc_remote (snd (allocate_remote demo_env 5 6 demo_two_peers)) 5) = Some [4, 2]"
  by code_simp+

theorem remote_io_terminates_witness:
  "\<exists>a. mc_remote (snd (allocate_remote demo_env 5 6 demo_two_peers)) 5 = Some a \<and>
     fst (read_remote demo_env False a 2 3 demo_two_peers) \<noteq> Inl Nontermination"
proof -
  have run: "allocate_remote demo_env 5 6 demo_two_peers = (Inr (), snd (allocate_remote demo_env 5 6 demo_two_peers))"
    using demo_striped(1) by (metis prod.collapse)
  have "(6 :: nat) < W64" by (simp add: W64_def)
  from remote_io_terminates [OF run this, of 2 "[7, 8]" 3 demo_two_peers False] show ?thesis by auto
qed

end
