(* ===== verification/PeerMemory.thy ===== *)
theory PeerMemory
  imports ClientApi
begin

text \<open>
  What the client's memory is worth over peers that do their part. The locale \<open>peer_memory\<close>
  states what the client relies on: a peer that grants a block keeps it, zeroed, under a handle
  nobody else of this client holds; a write inside a block changes exactly that range; a read
  returns the bytes; nothing else of this client changes. Over such peers the client, with its
  cache, evictions, stripes and reloads, implements one table of byte blocks: the theory gives
  that specification and shows that every operation refines it.
\<close>

section \<open>Cells\<close>

text \<open>A cell is a block of a peer that this client holds, named by peer and handle. Outside \<open>X\<close>
  no cell is lost or changed.\<close>

definition kept :: "('w \<Rightarrow> 'c \<rightharpoonup> bytes) \<Rightarrow> 'c set \<Rightarrow> 'w \<Rightarrow> 'w \<Rightarrow> bool" where
  "kept cell X w w' \<longleftrightarrow> (\<forall>p bs. p \<notin> X \<longrightarrow> cell w p = Some bs \<longrightarrow> cell w' p = Some bs)"

lemma kept_refl [simp]: "kept cell X w w"
  by (simp add: kept_def)

lemma kept_trans: "kept cell X w w1 \<Longrightarrow> kept cell Y w1 w2 \<Longrightarrow> kept cell (X \<union> Y) w w2"
  by (auto simp: kept_def)

lemma kept_trans_same: "kept cell X w w1 \<Longrightarrow> kept cell X w1 w2 \<Longrightarrow> kept cell X w w2"
  by (auto simp: kept_def)

lemma keptD: "kept cell X w w' \<Longrightarrow> cell w p = Some bs \<Longrightarrow> p \<notin> X \<Longrightarrow> cell w' p = Some bs"
  by (auto simp: kept_def)

lemma kept_fresh: "kept cell X w w' \<Longrightarrow> (\<And>p. p \<in> X \<Longrightarrow> cell w p = None) \<Longrightarrow> kept cell {} w w'"
  unfolding kept_def by (metis empty_iff option.distinct(1))

lemma kept_mono: "kept cell X w w' \<Longrightarrow> X \<subseteq> Y \<Longrightarrow> kept cell Y w w'"
  by (auto simp: kept_def)

text \<open>The parts of an allocation: its stripes, or one part for a block on a single peer.\<close>

definition parts :: "RemoteAllocation \<Rightarrow> Stripe list" where
  "parts a = (if ra_is_striped a then ra_stripes a
     else [\<lparr> stripe_handle = ra_handle a, stripe_offset = 0, stripe_length = ra_size a, stripe_peer = the (ra_peer a) \<rparr>])"

definition part_ref :: "Stripe \<Rightarrow> nat \<times> uint64" where
  "part_ref s = (stripe_peer s, stripe_handle s)"

definition part_bytes :: "('w \<Rightarrow> nat \<times> uint64 \<rightharpoonup> bytes) \<Rightarrow> 'w \<Rightarrow> Stripe list \<Rightarrow> bytes" where
  "part_bytes cell w ss = concat (map (\<lambda>s. the (cell w (part_ref s))) ss)"

definition parts_held :: "('w \<Rightarrow> nat \<times> uint64 \<rightharpoonup> bytes) \<Rightarrow> 'w \<Rightarrow> Stripe list \<Rightarrow> bool" where
  "parts_held cell w ss \<longleftrightarrow> distinct (map part_ref ss) \<and>
     (\<forall>s \<in> set ss. \<exists>bs. cell w (part_ref s) = Some bs \<and> length bs = stripe_length s)"

text \<open>From \<open>m\<close> to \<open>m'\<close> no connection was lost and no cell outside \<open>X\<close> was touched.\<close>

definition quiet ::
  "('w \<Rightarrow> bool) \<Rightarrow> ('w \<Rightarrow> nat \<times> uint64 \<rightharpoonup> bytes) \<Rightarrow> (nat \<times> uint64) set \<Rightarrow> 'w MemoryClient \<Rightarrow> 'w MemoryClient \<Rightarrow> bool" where
  "quiet good cell X m m' \<longleftrightarrow> good (mc_world m') \<and> mc_peers m' = mc_peers m \<and> kept cell X (mc_world m) (mc_world m')"

lemma quietD:
  assumes "quiet good cell X m m'"
  shows "good (mc_world m')" "mc_peers m' = mc_peers m" "kept cell X (mc_world m) (mc_world m')"
  using assms by (auto simp: quiet_def)

lemma quiet_refl: "good (mc_world m) \<Longrightarrow> quiet good cell X m m"
  by (simp add: quiet_def)

lemma quiet_trans: "quiet good cell X m m1 \<Longrightarrow> quiet good cell Y m1 m2 \<Longrightarrow> quiet good cell (X \<union> Y) m m2"
  using kept_trans by (fastforce simp: quiet_def)

lemma quiet_trans_same: "quiet good cell X m m1 \<Longrightarrow> quiet good cell X m1 m2 \<Longrightarrow> quiet good cell X m m2"
  using quiet_trans by fastforce

lemma quiet_mono: "quiet good cell X m m' \<Longrightarrow> X \<subseteq> Y \<Longrightarrow> quiet good cell Y m m'"
  using kept_mono [of cell X "mc_world m" "mc_world m'" Y] by (simp add: quiet_def)

lemma part_bytes_simps [simp]:
  "part_bytes cell w [] = []"
  "part_bytes cell w (s # ss) = the (cell w (part_ref s)) @ part_bytes cell w ss"
  "part_bytes cell w (ss @ rs) = part_bytes cell w ss @ part_bytes cell w rs"
  by (simp_all add: part_bytes_def)

lemma parts_held_Cons:
  "parts_held cell w (s # ss) \<longleftrightarrow> part_ref s \<notin> part_ref ` set ss \<and>
     (\<exists>bs. cell w (part_ref s) = Some bs \<and> length bs = stripe_length s) \<and> parts_held cell w ss"
  by (auto simp: parts_held_def)

lemma parts_held_snoc:
  "parts_held cell w (ss @ [s]) \<longleftrightarrow> part_ref s \<notin> part_ref ` set ss \<and>
     (\<exists>bs. cell w (part_ref s) = Some bs \<and> length bs = stripe_length s) \<and> parts_held cell w ss"
  by (auto simp: parts_held_def)

lemma parts_kept:
  assumes "kept cell X w w'" "parts_held cell w ss" "part_ref ` set ss \<inter> X = {}"
  shows "parts_held cell w' ss" "part_bytes cell w' ss = part_bytes cell w ss"
proof -
  have same: "cell w' (part_ref s) = cell w (part_ref s)" if s: "s \<in> set ss" for s
  proof -
    obtain bs where bs: "cell w (part_ref s) = Some bs" using s assms(2) by (auto simp: parts_held_def)
    moreover have "part_ref s \<notin> X" using s assms(3) by blast
    ultimately show ?thesis using keptD [OF assms(1) bs] by simp
  qed
  show "parts_held cell w' ss" using assms(2) same by (auto simp: parts_held_def)
  show "part_bytes cell w' ss = part_bytes cell w ss"
    unfolding part_bytes_def using same by (metis (mono_tags, lifting) map_eq_conv)
qed

lemma length_part_bytes: "parts_held cell w ss \<Longrightarrow> tiles a ss b \<Longrightarrow> length (part_bytes cell w ss) = b - a"
proof (induction ss arbitrary: a)
  case (Cons s ss)
  then have "tiles (a + stripe_length s) ss b" "parts_held cell w ss" "length (the (cell w (part_ref s))) = stripe_length s"
    by (auto simp: parts_held_Cons)
  moreover have "a + stripe_length s \<le> b" using tiles_le calculation(1) .
  ultimately show ?case using Cons.IH [of "a + stripe_length s"] by simp
qed simp

lemma blit_append_right: "length xs \<le> off \<Longrightarrow> blit off ys (xs @ zs) = xs @ blit (off - length xs) ys zs"
proof -
  assume "length xs \<le> off"
  then have "off + length ys - length xs = off - length xs + length ys" by simp
  then show ?thesis using \<open>length xs \<le> off\<close> by (simp add: blit_def)
qed

lemma blit_append_split:
  assumes "off \<le> length xs" "off + length ys \<le> length xs + length zs" "n = min (length ys) (length xs - off)"
  shows "blit off ys (xs @ zs) = blit off (take n ys) xs @ blit 0 (drop n ys) zs"
proof (cases "length ys \<le> length xs - off")
  case True
  then show ?thesis using assms by (simp add: blit_def)
next
  case False
  then have "n = length xs - off" "off + n = length xs" using assms by auto
  then show ?thesis using assms False append_take_drop_id [of n ys] by (simp add: blit_def add.commute)
qed

lemma peek_append_right: "length xs \<le> off \<Longrightarrow> peek off n (xs @ zs) = peek (off - length xs) n zs"
  by (simp add: peek_def)

lemma peek_append_split:
  assumes "off \<le> length xs" "k = min n (length xs - off)"
  shows "peek off n (xs @ zs) = peek off k xs @ peek 0 (n - k) zs"
  using assms by (auto simp: peek_def min_def)

text \<open>The peers hold every part of the allocation.\<close>

definition held :: "('w \<Rightarrow> nat \<times> uint64 \<rightharpoonup> bytes) \<Rightarrow> 'w MemoryClient \<Rightarrow> RemoteAllocation \<Rightarrow> bool" where
  "held cell m a \<longleftrightarrow> well_placed (ra_size a) a \<and> parts_held cell (mc_world m) (parts a) \<and>
     (\<not> ra_is_striped a \<longrightarrow> peer_connected m (the (ra_peer a)))"

abbreviation refs :: "RemoteAllocation \<Rightarrow> (nat \<times> uint64) set" where
  "refs a \<equiv> part_ref ` set (parts a)"

abbreviation alloc_bytes :: "('w \<Rightarrow> nat \<times> uint64 \<rightharpoonup> bytes) \<Rightarrow> 'w MemoryClient \<Rightarrow> RemoteAllocation \<Rightarrow> bytes" where
  "alloc_bytes cell m a \<equiv> part_bytes cell (mc_world m) (parts a)"

lemma tiles_parts: "well_placed (ra_size a) a \<Longrightarrow> 0 < ra_size a \<Longrightarrow> tiles 0 (parts a) (ra_size a)"
  by (auto simp: well_placed_def parts_def)

lemma length_alloc_bytes:
  "held cell m a \<Longrightarrow> 0 < ra_size a \<Longrightarrow> length (alloc_bytes cell m a) = ra_size a"
  using length_part_bytes [OF _ tiles_parts] by (fastforce simp: held_def)

lemma held_kept:
  assumes "quiet good cell X m m'" "held cell m a" "refs a \<inter> X = {}"
  shows "held cell m' a" "alloc_bytes cell m' a = alloc_bytes cell m a"
  using assms parts_kept [of cell X "mc_world m" "mc_world m'" "parts a"]
  by (auto simp: held_def quiet_def peer_connected_def)

lemma peer_connected_iff: "peer_connected m i \<longleftrightarrow> i \<in> set (connected_peers m)"
  by (auto simp: peer_connected_def connected_peers_def)

text \<open>Waiting for a peer makes no remote call.\<close>

lemma world_fold: "(\<And>x m. mc_world (f x m) = mc_world m) \<Longrightarrow> mc_world (fold f xs m) = mc_world m"
  by (induction xs arbitrary: m) simp_all

lemma world_peers [simp]:
  "mc_world (start_connect t i m) = mc_world m" "mc_world (complete_connect sts i m) = mc_world m"
  "mc_world (note_endpoint now ep m) = mc_world m"
  by (auto simp: start_connect_def on_connect_def complete_connect_def note_endpoint_def ensure_peer_def Let_def
      split: connect_attempt.splits option.splits)

lemma world_wait [simp]: "mc_world (snd (wait_for_connected_peer now rs m)) = mc_world m"
proof (induction rs arbitrary: m)
  case (Cons r rs)
  have "mc_world (run_round now r m) = mc_world m"
    by (simp add: run_round_def Let_def world_fold drain_pending_connects_def connect_to_peers_def)
  then show ?case using Cons by simp
qed simp

lemma held_wait:
  assumes "held cell m a" "connected_peers m = []" "mc_world m' = mc_world m"
  shows "held cell m' a" "alloc_bytes cell m' a = alloc_bytes cell m a"
  using assms by (auto simp: held_def peer_connected_iff)

abbreviation out_of_memory :: cpp_error where
  "out_of_memory \<equiv> RuntimeError ''Failed to allocate on any peer: out of memory on all peers''"

section \<open>The interface\<close>

text \<open>\<open>clock\<close> counts the requests the peers have served. The laws hold while it is below
  \<open>limit\<close>, so that no handle counter of a peer wraps, and for payloads up to \<open>room\<close> bytes, which
  fit in one message.\<close>

locale peer_memory =
  fixes E :: "'w env" and good :: "'w \<Rightarrow> bool" and cell :: "'w \<Rightarrow> nat \<times> uint64 \<rightharpoonup> bytes"
    and clock :: "'w \<Rightarrow> nat" and limit :: nat and room :: nat
  assumes room_bound: "room < W64"
    and clock_mono: "env_call E i p w = (r, lost, w') \<Longrightarrow> clock w \<le> clock w'"
    and call_alloc: "good w \<Longrightarrow> 0 < sz \<Longrightarrow> sz \<le> room \<Longrightarrow>
      env_call E i (finish_request (env_codec E) (alloc_request q sz)) w = (r, lost, w') \<Longrightarrow> clock w' < limit \<Longrightarrow>
      good w' \<and> lost = [] \<and> kept cell {} w w' \<and>
      (\<forall>resp h. r = Some resp \<longrightarrow> alloc_reply (env_codec E) (Inr resp) = Some h \<longrightarrow>
         cell w (i, h) = None \<and> cell w' (i, h) = Some (replicate sz 0))"
    and call_write: "good w \<Longrightarrow> cell w (i, h) = Some bs \<Longrightarrow> off + length d \<le> length bs \<Longrightarrow> length d \<le> room \<Longrightarrow>
      env_call E i (finish_request (env_codec E) (write_request q h off d)) w = (r, lost, w') \<Longrightarrow> clock w' < limit \<Longrightarrow>
      good w' \<and> lost = [] \<and> r \<noteq> None \<and> kept cell {(i, h)} w w' \<and> cell w' (i, h) = Some (blit off d bs)"
    and call_read: "good w \<Longrightarrow> cell w (i, h) = Some bs \<Longrightarrow> off + n \<le> length bs \<Longrightarrow> 0 < n \<Longrightarrow> n \<le> room \<Longrightarrow>
      env_call E i (finish_request (env_codec E) (read_request q h off n)) w = (r, lost, w') \<Longrightarrow> clock w' < limit \<Longrightarrow>
      good w' \<and> lost = [] \<and> kept cell {} w w' \<and>
      (\<exists>resp. r = Some resp \<and> read_reply (env_codec E) resp = Inr (peek off n bs))"
    and call_free: "good w \<Longrightarrow> cell w (i, h) = Some bs \<Longrightarrow>
      env_call E i (finish_request (env_codec E) (free_request q h)) w = (r, lost, w') \<Longrightarrow> clock w' < limit \<Longrightarrow>
      good w' \<and> lost = [] \<and> r \<noteq> None \<and> kept cell {(i, h)} w w'"
begin

text \<open>The state of the client between two calls.\<close>

abbreviation now :: "'w MemoryClient \<Rightarrow> nat" where "now m \<equiv> clock (mc_world m)"

lemma world_drop_peers [simp]: "mc_world (drop_peers lost m) = mc_world m"
  by (simp add: drop_peers_def fold_invariant [where P = "\<lambda>x. mc_world x = mc_world m" and Q = "\<lambda>_. True"])

lemma now_sync: "sync_remote_call E i q (next_request m) = (r, m') \<Longrightarrow> now m \<le> now m'"
  by (cases "env_call E i (finish_request (env_codec E) q) (mc_world m)")
    (auto simp: sync_remote_call_def next_request_def intro: clock_mono)

text \<open>No operation turns the clock back.\<close>

lemma now_next_request [simp]: "mc_world (next_request m) = mc_world m"
  by (simp add: next_request_def)

lemma now_free_one: "now m \<le> now (free_one E i h m)"
  unfolding free_one_def using now_sync by (metis prod.collapse)

lemma now_free_stripes: "now m \<le> now (free_stripes E ss m)"
  by (induction ss arbitrary: m) (auto intro: order_trans [OF now_free_one])

lemma now_free_remote: "now m \<le> now (free_remote E a m)"
  by (simp add: free_remote_def now_free_stripes now_free_one split: option.split)

lemma now_alloc_one: "alloc_one E i sz m = (r, m') \<Longrightarrow> now m \<le> now m'"
  by (auto simp: alloc_one_def dest!: now_sync split: prod.splits)

lemma now_try_single: "try_single E sz is m = (r, m') \<Longrightarrow> now m \<le> now m'"
  by (induction "is" arbitrary: m) (fastforce dest: now_alloc_one split: if_splits prod.splits option.splits)+

lemma now_try_stripes: "try_stripes E is rem off ss m = (r, ss', m') \<Longrightarrow> now m \<le> now m'"
  by (induction "is" arbitrary: rem off ss m)
    (fastforce simp: Let_def dest: now_alloc_one split: if_splits prod.splits option.splits)+

lemma now_place: "place E sz m = (r, m') \<Longrightarrow> now m \<le> now m'"
  by (auto simp: place_def Let_def dest!: now_try_single now_try_stripes split: prod.splits option.splits if_splits
      intro: order_trans [OF _ order_trans [OF _ now_free_remote]])

lemma now_write_pass: "write_pass E ss offset data d m = (r, m') \<Longrightarrow> now m \<le> now m'"
proof (induction ss arbitrary: d m)
  case (Cons s ss)
  then show ?case
    by (auto simp: Let_def dest!: now_sync split: if_splits prod.splits sum.splits) (meson order_trans)
qed simp

lemma now_write_striped: "write_striped E ss offset data d m = (r, m') \<Longrightarrow> now m \<le> now m'"
proof (induction "length data - d" arbitrary: d m rule: less_induct)
  case less
  obtain q m1 where pass: "write_pass E ss offset data d m = (q, m1)" by (metis surj_pair)
  have "now m1 \<le> now m'" if "q = Inr d'" "d' \<noteq> d" "\<not> length data \<le> d" for d'
    using less.hyps [of d' m1] less.prems that pass write_pass_mono [of E ss offset data d m d' m1]
    by (simp add: write_striped.simps [of E ss offset data d m] diff_less_mono2)
  then show ?case using less.prems now_write_pass [OF pass] pass
    by (fastforce simp: write_striped.simps [of E ss offset data d m] split: if_splits sum.splits)
qed

lemma now_write_remote: "write_remote E a offset data m = (r, m') \<Longrightarrow> now m \<le> now m'"
  by (auto simp: write_remote_def dest!: now_sync now_write_striped split: if_splits option.splits prod.splits sum.splits)

lemma now_read_one: "read_one E i h offset sz m = (r, m') \<Longrightarrow> now m \<le> now m'"
  by (auto simp: read_one_def dest!: now_sync split: prod.splits sum.splits)

lemma now_release: "release E rel i h m = (r, m') \<Longrightarrow> now m \<le> now m'"
  by (auto simp: release_def dest!: now_sync split: if_splits prod.splits sum.splits)

lemma now_read_pass: "read_pass E rel ss offset result d m = (r, m') \<Longrightarrow> now m \<le> now m'"
proof (induction ss arbitrary: result d m)
  case (Cons s ss)
  then show ?case
    by (auto simp: Let_def dest!: now_read_one now_release split: if_splits prod.splits sum.splits)
      (meson order_trans)+
qed simp

lemma now_read_striped: "read_striped E rel ss offset result d m = (r, m') \<Longrightarrow> now m \<le> now m'"
proof (induction "length result - d" arbitrary: result d m rule: less_induct)
  case less
  obtain q m1 where pass: "read_pass E rel ss offset result d m = (q, m1)" by (metis surj_pair)
  have "now m1 \<le> now m'" if "q = Inr (res, d')" "d' \<noteq> d" "\<not> length result \<le> d" for res d'
    using less.hyps [of res d' m1] less.prems that pass read_pass_mono [of E rel ss offset result d m res d' m1]
    by (simp add: read_striped.simps [of E rel ss offset result d m] diff_less_mono2)
  then show ?case using less.prems now_read_pass [OF pass] pass
    by (fastforce simp: read_striped.simps [of E rel ss offset result d m] split: if_splits sum.splits)
qed

lemma now_read_remote: "read_remote E rel a offset sz m = (r, m') \<Longrightarrow> now m \<le> now m'"
  by (auto simp: read_remote_def dest!: now_read_striped now_read_one now_release
      split: if_splits option.splits prod.splits sum.splits)

text \<open>One call.\<close>

abbreviation cells :: "'w MemoryClient \<Rightarrow> nat \<times> uint64 \<rightharpoonup> bytes" where "cells m \<equiv> cell (mc_world m)"

lemma sync_call:
  assumes "sync_remote_call E i q (next_request m) = (r, m')"
  obtains x lost where "env_call E i (finish_request (env_codec E) q) (mc_world m) = (x, lost, mc_world m')"
    "r = (case x of Some resp \<Rightarrow> Inr resp | None \<Rightarrow> Inl (RuntimeError ''Remote call timed out''))"
    "lost = [] \<Longrightarrow> mc_peers m' = mc_peers m"
proof (cases "env_call E i (finish_request (env_codec E) q) (mc_world m)")
  case (fields x lost w)
  then show ?thesis using assms that [of x lost]
    by (auto simp: sync_remote_call_def) (simp add: drop_peers_def next_request_def)
qed

lemma alloc_one_ok:
  assumes "good (mc_world m)" "0 < sz" "sz \<le> room" "alloc_one E i sz m = (r, m')" "now m' < limit"
  shows "quiet good cell {} m m'" "r = Some h \<Longrightarrow> cells m (i, h) = None"
    "r = Some h \<Longrightarrow> cells m' (i, h) = Some (replicate sz 0)"
proof -
  obtain y where sync: "sync_remote_call E i (alloc_request (mc_next_request_id m) sz) (next_request m) = (y, m')"
    and r: "r = alloc_reply (env_codec E) y"
    using assms(4) by (auto simp: alloc_one_def split: prod.splits)
  from sync show "quiet good cell {} m m'" "r = Some h \<Longrightarrow> cells m (i, h) = None"
    "r = Some h \<Longrightarrow> cells m' (i, h) = Some (replicate sz 0)"
  proof (atomize (full), cases rule: sync_call)
    case (1 x lost)
    note law = call_alloc [OF assms(1-3) 1(1) assms(5)]
    have none: "alloc_reply (env_codec E) (Inl e) = None" for e by (simp add: alloc_reply_def)
    show "quiet good cell {} m m' \<and> (r = Some h \<longrightarrow> cells m (i, h) = None) \<and>
        (r = Some h \<longrightarrow> cells m' (i, h) = Some (replicate sz 0))"
      using law 1(2,3) r by (auto simp: quiet_def none split: option.splits)
  qed
qed

lemma free_one_ok:
  assumes "good (mc_world m)" "cells m (i, h) = Some bs" "now (free_one E i h m) < limit"
  shows "quiet good cell {(i, h)} m (free_one E i h m)"
proof -
  obtain y where "sync_remote_call E i (free_request (mc_next_request_id m) h) (next_request m) = (y, free_one E i h m)"
    unfolding free_one_def by (metis prod.collapse)
  then show ?thesis
  proof (cases rule: sync_call)
    case (1 x lost)
    show ?thesis using call_free [OF assms(1,2) 1(1) assms(3)] 1(3) by (simp add: quiet_def)
  qed
qed

lemma write_call_ok:
  assumes "good (mc_world m)" "cells m (i, h) = Some bs" "off + length d \<le> length bs" "length d \<le> room"
    and "sync_remote_call E i (write_request q h off d) (next_request m) = (r, m')" "now m' < limit"
  shows "quiet good cell {(i, h)} m m'" "\<exists>resp. r = Inr resp" "cells m' (i, h) = Some (blit off d bs)"
  using assms(5)
proof (atomize (full), cases rule: sync_call)
  case (1 x lost)
  show "quiet good cell {(i, h)} m m' \<and> (\<exists>resp. r = Inr resp) \<and> cells m' (i, h) = Some (blit off d bs)"
    using call_write [OF assms(1-4) 1(1) assms(6)] 1(2,3) by (auto simp: quiet_def)
qed

lemma read_one_ok:
  assumes "good (mc_world m)" "cells m (i, h) = Some bs" "off + n \<le> length bs" "0 < n" "n \<le> room"
    and "read_one E i h off n m = (r, m')" "now m' < limit"
  shows "quiet good cell {} m m'" "r = Inr (peek off n bs)"
proof -
  obtain y where sync: "sync_remote_call E i (read_request (mc_next_request_id m) h off n) (next_request m) = (y, m')"
    and r: "r = (case y of Inl e \<Rightarrow> Inl e | Inr resp \<Rightarrow> read_reply (env_codec E) resp)"
    using assms(6) by (auto simp: read_one_def split: prod.splits sum.splits)
  from sync show "quiet good cell {} m m'" "r = Inr (peek off n bs)"
  proof (atomize (full), cases rule: sync_call)
    case (1 x lost)
    show "quiet good cell {} m m' \<and> r = Inr (peek off n bs)"
      using call_read [OF assms(1-5) 1(1) assms(7)] 1(2,3) r by (auto simp: quiet_def)
  qed
qed

lemma release_ok:
  assumes "good (mc_world m)" "cells m (i, h) = Some bs" "release E True i h m = (r, m')" "now m' < limit"
  shows "quiet good cell {(i, h)} m m'" "r = Inr ()"
proof -
  obtain y where sync: "sync_remote_call E i (free_request (mc_next_request_id m) h) (next_request m) = (y, m')"
    and r: "r = (case y of Inl e \<Rightarrow> Inl e | Inr resp \<Rightarrow> Inr ())"
    using assms(3) by (auto simp: release_def split: prod.splits sum.splits)
  from sync show "quiet good cell {(i, h)} m m'" "r = Inr ()"
  proof (atomize (full), cases rule: sync_call)
    case (1 x lost)
    show "quiet good cell {(i, h)} m m' \<and> r = Inr ()"
      using call_free [OF assms(1,2) 1(1) assms(4)] 1(2,3) r by (auto simp: quiet_def)
  qed
qed

text \<open>Placing a block.\<close>

lemma try_single_ok:
  assumes "good (mc_world m)" "0 < sz" "sz \<le> room" "try_single E sz is m = (r, m')" "now m' < limit"
  shows "quiet good cell {} m m' \<and> (\<forall>h i. r = Some (h, i) \<longrightarrow> i \<in> set is \<and>
    cells m (i, h) = None \<and> cells m' (i, h) = Some (replicate sz 0))"
  using assms(1,4)
proof (induction "is" arbitrary: m)
  case Nil
  then show ?case by (simp add: quiet_refl)
next
  case (Cons i "is")
  show ?case
  proof (cases "may_fit (mc_peers m ! i) sz")
    case False
    then show ?thesis using Cons by auto
  next
    case True
    obtain q m1 where a: "alloc_one E i sz m = (q, m1)" by (metis surj_pair)
    show ?thesis
    proof (cases q)
      case (Some h)
      then have "r = Some (h, i)" "m' = m1" using Cons.prems(2) True a by auto
      then show ?thesis using alloc_one_ok [OF Cons.prems(1) assms(2,3) a] assms(5) Some by auto
    next
      case None
      then have run: "try_single E sz is m1 = (r, m')" using Cons.prems(2) True a by simp
      have "now m1 < limit" using now_try_single [OF run] assms(5) by simp
      note one = alloc_one_ok(1) [OF Cons.prems(1) assms(2,3) a this]
      note ih = Cons.IH [OF quietD(1) [OF one] run]
      have "cells m p = None" if "cells m1 p = None" for p
        using that keptD [OF quietD(3) [OF one]] by (cases "cells m p") auto
      then show ?thesis using ih quiet_trans_same [OF one] by auto
    qed
  qed
qed

lemma free_stripes_ok:
  assumes "good (mc_world m)" "parts_held cell (mc_world m) ss" "now (free_stripes E ss m) < limit"
  shows "quiet good cell (part_ref ` set ss) m (free_stripes E ss m)"
  using assms
proof (induction ss arbitrary: m)
  case Nil
  then show ?case by (simp add: quiet_refl)
next
  case (Cons s ss)
  define m1 where "m1 = (if peer_connected m (stripe_peer s) then free_one E (stripe_peer s) (stripe_handle s) m else m)"
  have run: "free_stripes E (s # ss) m = free_stripes E ss m1" by (simp add: m1_def)
  have "now m1 < limit" using now_free_stripes [of m1 ss] Cons.prems(3) run by simp
  then have one: "quiet good cell {part_ref s} m m1"
    using free_one_ok [OF Cons.prems(1)] Cons.prems(1,2)
    by (auto simp: m1_def parts_held_Cons part_ref_def quiet_refl)
  have "parts_held cell (mc_world m1) ss"
    using parts_kept(1) [OF quietD(3) [OF one]] Cons.prems(2) by (auto simp: parts_held_Cons)
  from quiet_trans [OF one Cons.IH [OF quietD(1) [OF one] this]] show ?case
    using Cons.prems(3) unfolding run by simp
qed

text \<open>What the striping loop has gathered: new cells, all zero.\<close>

definition gathered :: "'w MemoryClient \<Rightarrow> Stripe list \<Rightarrow> 'w MemoryClient \<Rightarrow> bool" where
  "gathered m ss m' \<longleftrightarrow> quiet good cell {} m m' \<and> parts_held cell (mc_world m') ss \<and>
     (\<forall>s \<in> set ss. cells m (part_ref s) = None) \<and> set (part_bytes cell (mc_world m') ss) \<subseteq> {0}"

lemma gathered_quiet:
  assumes "gathered m ss m1" "quiet good cell {} m1 m2"
  shows "gathered m ss m2"
  using assms parts_kept [OF quietD(3) [OF assms(2)], of ss] quiet_trans_same [OF _ assms(2)]
  by (auto simp: gathered_def)

lemma gathered_more:
  assumes g: "gathered m ss m1" and q: "quiet good cell {} m1 m2"
    and c: "cells m1 (i, h) = None" "cells m2 (i, h) = Some (replicate n 0)"
  shows "gathered m (ss @ [\<lparr> stripe_handle = h, stripe_offset = off, stripe_length = n, stripe_peer = i \<rparr>]) m2"
proof -
  have k: "kept cell {} (mc_world m) (mc_world m1)" using g by (auto simp: gathered_def quiet_def)
  then have "cells m (i, h) = None" using c(1) keptD [OF k] by (cases "cells m (i, h)") auto
  moreover have "(i, h) \<notin> part_ref ` set ss" using g c(1) by (fastforce simp: gathered_def parts_held_def)
  ultimately show ?thesis
    using gathered_quiet [OF g q] c(2) by (auto simp: gathered_def parts_held_snoc) (auto simp: part_ref_def)
qed

lemma try_stripes_ok:
  assumes "gathered m0 ss m" "rem \<le> room" "try_stripes E is rem off ss m = (rem', ss', m')" "now m' < limit"
  shows "gathered m0 ss' m'"
  using assms(1-3)
proof (induction "is" arbitrary: rem off ss m)
  case (Cons i "is")
  let ?n = "chunk_size (mc_peers m ! i) rem"
  show ?case
  proof (cases "rem = 0 \<or> ?n = 0")
    case True
    then show ?thesis using Cons by (auto simp: Let_def split: if_splits)
  next
    case False
    have good: "good (mc_world m)" using Cons.prems(1) by (auto simp: gathered_def quiet_def)
    have n: "0 < ?n" "?n \<le> room" using False chunk_size_le [of "mc_peers m ! i" rem] Cons.prems(2) by auto
    obtain q m1 where a: "alloc_one E i ?n m = (q, m1)" by (metis surj_pair)
    have run: "(case q of Some h \<Rightarrow> try_stripes E is (rem - ?n) (off + ?n)
          (ss @ [\<lparr> stripe_handle = h, stripe_offset = off, stripe_length = ?n, stripe_peer = i \<rparr>]) m1
        | None \<Rightarrow> try_stripes E is rem off ss m1) = (rem', ss', m')"
      using Cons.prems(3) False a by (simp add: Let_def split: option.splits)
    then have "now m1 < limit" using assms(4) by (auto split: option.splits dest!: now_try_stripes)
    note one = alloc_one_ok [OF good n a this]
    show ?thesis
    proof (cases q)
      case (Some h)
      have "rem - ?n \<le> room" using Cons.prems(2) by simp
      from Cons.IH [OF gathered_more [OF Cons.prems(1) one(1) one(2,3) [OF Some]] this] show ?thesis
        using run Some by simp
    next
      case None
      then show ?thesis using Cons.IH [OF gathered_quiet [OF Cons.prems(1) one(1)] Cons.prems(2)] run by simp
    qed
  qed
qed simp

definition granted :: "'w MemoryClient \<Rightarrow> nat \<Rightarrow> RemoteAllocation \<Rightarrow> 'w MemoryClient \<Rightarrow> bool" where
  "granted m sz a m' \<longleftrightarrow> held cell m' a \<and> ra_size a = sz \<and> (\<forall>p \<in> refs a. cells m p = None) \<and>
     alloc_bytes cell m' a = replicate sz 0"

lemma granted_single:
  assumes "quiet good cell {} m m'" "peer_connected m i" "cells m (i, h) = None" "cells m' (i, h) = Some (replicate sz 0)"
  shows "granted m sz (single_allocation h sz i) m'"
  using assms by (auto simp: granted_def held_def single_allocation_def well_placed_def parts_def parts_held_def
      part_ref_def peer_connected_def quiet_def)

lemma granted_striped:
  assumes "gathered m ss m'" "tiles 0 ss sz"
  shows "granted m sz (striped_allocation sz ss) m'"
proof -
  have "length (part_bytes cell (mc_world m') ss) = sz"
    using length_part_bytes [OF _ assms(2)] assms(1) by (auto simp: gathered_def)
  moreover have "set (part_bytes cell (mc_world m') ss) \<subseteq> {0}" using assms(1) by (simp add: gathered_def)
  ultimately have "part_bytes cell (mc_world m') ss = replicate sz 0"
    by (metis (no_types, lifting) replicate_eqI singletonD subsetD)
  then show ?thesis
    using assms by (auto simp: granted_def held_def striped_allocation_def well_placed_def parts_def gathered_def)
qed

lemma quiet_fresh:
  assumes "quiet good cell X m m'" "\<And>p. p \<in> X \<Longrightarrow> cells m p = None"
  shows "quiet good cell {} m m'"
  using assms kept_fresh [of cell X "mc_world m" "mc_world m'"] by (simp add: quiet_def)

lemma stripe_attempt_ok:
  assumes "quiet good cell {} m m1" "sz \<le> room" "try_stripes E is sz 0 [] m1 = (rem, ss, m2)"
    and "(if rem = 0 \<and> ss \<noteq> [] then (Some (striped_allocation sz ss), m2)
        else if ss \<noteq> [] then (None, free_remote E (striped_allocation 0 ss) m2) else (None, m2)) = (p, m')"
    and "now m' < limit"
  shows "quiet good cell {} m m' \<and> (\<forall>a. p = Some a \<longrightarrow> granted m sz a m')"
proof -
  have free: "free_remote E (striped_allocation 0 ss) m2 = free_stripes E ss m2"
    by (simp add: free_remote_def striped_allocation_def)
  have "now m2 < limit" using assms(4,5) now_free_stripes [of m2 ss] unfolding free by (auto split: if_splits)
  moreover have "gathered m [] m1" using assms(1) by (simp add: gathered_def parts_held_def)
  ultimately have g: "gathered m ss m2" using try_stripes_ok assms(2,3) by blast
  then have q2: "quiet good cell {} m m2" "parts_held cell (mc_world m2) ss"
    "\<And>x. x \<in> part_ref ` set ss \<Longrightarrow> cells m x = None" by (auto simp: gathered_def)
  show ?thesis
  proof (cases "rem = 0 \<or> ss = []")
    case True
    moreover have "tiles 0 ss sz" if "rem = 0" using try_stripes_tiles [OF assms(3)] that by simp
    ultimately show ?thesis using assms(4) granted_striped [OF g] q2(1) by (auto split: if_splits)
  next
    case False
    then have "p = None" "m' = free_stripes E ss m2" using assms(4) free by (auto split: if_splits)
    moreover have "quiet good cell (part_ref ` set ss) m (free_stripes E ss m2)"
      using quiet_trans [OF q2(1) free_stripes_ok [OF quietD(1) [OF q2(1)] q2(2)]] assms(5) calculation by simp
    ultimately show ?thesis using quiet_fresh q2(3) by auto
  qed
qed

lemma place_ok:
  assumes "good (mc_world m)" "0 < sz" "sz \<le> room" "place E sz m = (p, m')" "now m' < limit"
  shows "quiet good cell {} m m' \<and> (\<forall>a. p = Some a \<longrightarrow> granted m sz a m')"
proof -
  obtain q m1 where single: "try_single E sz (candidates m) m = (q, m1)" by (metis surj_pair)
  obtain rem ss m2 where stripes: "try_stripes E (candidates m) sz 0 [] m1 = (rem, ss, m2)" by (metis surj_pair)
  have connected: "peer_connected m i" if "i \<in> set (candidates m)" for i
    using that by (simp add: peer_connected_iff candidates_def)
  have run: "(case q of Some (h, i) \<Rightarrow> (Some (single_allocation h sz i), m1)
      | None \<Rightarrow> if length (candidates m) \<le> 1 then (None, m1)
          else if rem = 0 \<and> ss \<noteq> [] then (Some (striped_allocation sz ss), m2)
          else if ss \<noteq> [] then (None, free_remote E (striped_allocation 0 ss) m2) else (None, m2)) = (p, m')"
    unfolding assms(4) [symmetric] place_def Let_def single by (simp add: stripes split: option.split)
  have "now m1 < limit"
    using run now_try_stripes [OF stripes] now_free_remote [of m2] assms(5)
    by (auto split: option.splits if_splits intro: le_less_trans)
  note q1 = try_single_ok [OF assms(1-3) single this]
  show ?thesis
  proof (cases "q = None \<and> 1 < length (candidates m)")
    case True
    then show ?thesis using stripe_attempt_ok [OF _ assms(3) stripes _ assms(5)] q1 run by simp
  next
    case False
    then consider "p = None" "m' = m1" | h i where "q = Some (h, i)" "p = Some (single_allocation h sz i)" "m' = m1"
      using run by (auto split: option.splits if_splits)
    then show ?thesis using q1 granted_single connected by cases auto
  qed
qed

text \<open>What the client holds stays held, with its bytes.\<close>

definition undisturbed :: "'w MemoryClient \<Rightarrow> 'w MemoryClient \<Rightarrow> bool" where
  "undisturbed m m' \<longleftrightarrow> good (mc_world m') \<and>
     (\<forall>b. held cell m b \<longrightarrow> held cell m' b \<and> alloc_bytes cell m' b = alloc_bytes cell m b)"

lemma undisturbed_trans: "undisturbed m m1 \<Longrightarrow> undisturbed m1 m2 \<Longrightarrow> undisturbed m m2"
  by (auto simp: undisturbed_def)

lemma undisturbed_quiet: "quiet good cell {} m m' \<Longrightarrow> undisturbed m m'"
  using held_kept [of good cell "{}" m m'] quietD(1) [of good cell "{}" m m'] by (simp add: undisturbed_def)

lemma held_remote [simp]: "held cell (m \<lparr> mc_remote := R \<rparr>) a = held cell m a"
  "held cell (m \<lparr> mc_cache := c \<rparr>) a = held cell m a"
  by (simp_all add: held_def peer_connected_def)

lemma allocate_remote_ok:
  assumes "good (mc_world m)" "0 < sz" "sz \<le> room" "allocate_remote E h sz m = (r, m')" "now m' < limit"
  shows "undisturbed m m'"
    "r = Inl out_of_memory \<and> mc_remote m' = mc_remote m \<or>
     r = Inr () \<and> (\<exists>a. mc_remote m' = (mc_remote m)(h \<mapsto> a) \<and> granted m sz a m')"
proof -
  define m0 where "m0 = (if connected_peers m = [] then snd (wait_for_connected_peer (env_now E) (env_rounds E (mc_world m)) m) else m)"
  have m0: "mc_world m0 = mc_world m" "mc_remote m0 = mc_remote m" by (auto simp: m0_def local_partD [OF local_part_wait])
  have u0: "undisturbed m m0"
    using assms(1) m0(1) held_wait [of cell m _ m0] by (auto simp: undisturbed_def m0_def)
  obtain p m1 where p: "place E sz m0 = (p, m1)" by (metis surj_pair)
  have out: "m' = (case p of None \<Rightarrow> m1 | Some a \<Rightarrow> m1 \<lparr> mc_remote := (mc_remote m1)(h \<mapsto> a) \<rparr>)"
    "r = (case p of None \<Rightarrow> Inl out_of_memory | Some a \<Rightarrow> Inr ())"
    using assms(4) p by (auto simp: allocate_remote_def Let_def m0_def split: option.splits)
  then have w: "mc_world m' = mc_world m1" "held cell m' b = held cell m1 b" for b by (auto split: option.splits)
  have "quiet good cell {} m0 m1 \<and> (\<forall>a. p = Some a \<longrightarrow> granted m0 sz a m1)"
    using place_ok [OF _ assms(2,3) p] assms(1,5) m0 w by simp
  then have u1: "undisturbed m m1" and g: "\<And>a. p = Some a \<Longrightarrow> granted m sz a m'"
    using undisturbed_trans [OF u0] undisturbed_quiet w m0(1) by (auto simp: granted_def)
  then show "undisturbed m m'" using w by (simp add: undisturbed_def)
  have "mc_remote m1 = mc_remote m" using local_partD(2) [OF local_part_placeD [OF p]] m0(2) by simp
  then show "r = Inl out_of_memory \<and> mc_remote m' = mc_remote m \<or>
     r = Inr () \<and> (\<exists>a. mc_remote m' = (mc_remote m)(h \<mapsto> a) \<and> granted m sz a m')"
    using out g by (auto split: option.splits)
qed

text \<open>Writing. Where the range starts beyond the first part only the others are written; where it
  starts inside it, the part takes its share and the others the rest.\<close>

lemma parts_after:
  assumes "parts_held cell (mc_world m) (s # ss)" "quiet good cell (part_ref ` set ss) m m'" "parts_held cell (mc_world m') ss"
  shows "parts_held cell (mc_world m') (s # ss)" "cells m' (part_ref s) = cells m (part_ref s)"
proof -
  obtain bs where "cells m (part_ref s) = Some bs" "length bs = stripe_length s" "part_ref s \<notin> part_ref ` set ss"
    using assms(1) by (auto simp: parts_held_Cons)
  moreover from keptD [OF quietD(3) [OF assms(2)] this(1,3)] have "cells m' (part_ref s) = Some bs" .
  ultimately show "parts_held cell (mc_world m') (s # ss)" "cells m' (part_ref s) = cells m (part_ref s)"
    using assms(3) by (auto simp: parts_held_Cons)
qed

lemma quiet_Cons:
  assumes "quiet good cell {part_ref s} m m1" "quiet good cell (part_ref ` set ss) m1 m'"
  shows "quiet good cell (part_ref ` set (s # ss)) m m'"
  using quiet_trans [OF assms] by simp

definition written :: "'w MemoryClient \<Rightarrow> Stripe list \<Rightarrow> nat \<Rightarrow> bytes \<Rightarrow> 'w MemoryClient \<Rightarrow> bool" where
  "written m ss off data m' \<longleftrightarrow> quiet good cell (part_ref ` set ss) m m' \<and> parts_held cell (mc_world m') ss \<and>
     part_bytes cell (mc_world m') ss = blit off data (part_bytes cell (mc_world m) ss)"

lemma written_beyond:
  assumes "parts_held cell (mc_world m) (s # ss)" "written m ss off data m'"
  shows "written m (s # ss) (stripe_length s + off) data m'"
proof -
  note w = assms(2) [unfolded written_def]
  note after = parts_after [OF assms(1) w [THEN conjunct1] w [THEN conjunct2, THEN conjunct1]]
  have "length (the (cells m (part_ref s))) = stripe_length s" using assms(1) by (auto simp: parts_held_Cons)
  moreover have "quiet good cell (part_ref ` set (s # ss)) m m'"
    using quiet_mono [OF w [THEN conjunct1], of "part_ref ` set (s # ss)"] by auto
  ultimately show ?thesis using after w by (simp add: written_def blit_append_right)
qed

lemma written_inside:
  assumes m: "parts_held cell (mc_world m) (s # ss)" and bs: "cells m (part_ref s) = Some bs"
    and one: "quiet good cell {part_ref s} m m1" "cells m1 (part_ref s) = Some (blit off (take n data) bs)"
    and n: "n = min (length data) (length bs - off)" "off \<le> length bs"
    and fit: "off + length data \<le> length bs + length (part_bytes cell (mc_world m) ss)"
    and rest: "parts_held cell (mc_world m1) ss \<Longrightarrow> written m1 ss 0 (drop n data) m'"
  shows "written m (s # ss) off data m'"
proof -
  have part: "part_ref s \<notin> part_ref ` set ss" "parts_held cell (mc_world m) ss" "length bs = stripe_length s"
    using m bs by (auto simp: parts_held_Cons)
  note same = parts_kept [OF quietD(3) [OF one(1)] part(2)]
  have m1: "parts_held cell (mc_world m1) (s # ss)" using same part one(2) n by (auto simp: parts_held_Cons)
  then have w: "written m1 ss 0 (drop n data) m'" using rest by (simp add: parts_held_Cons)
  note after = parts_after [OF m1]
  show ?thesis
    using w after quiet_Cons [OF one(1)] blit_append_split [OF n(2) fit n(1)] same one(2) bs part
    by (simp add: written_def)
qed

lemma write_pass_stop: "write_pass E ss offset data (length data) m = (Inr (length data), m)"
  by (cases ss) auto

lemma written_nothing: "good (mc_world m) \<Longrightarrow> parts_held cell (mc_world m) ss \<Longrightarrow> written m ss off [] m"
  by (simp add: written_def quiet_refl)

text \<open>One turn of the loop on a part that covers the position.\<close>

lemma write_pass_step:
  assumes s: "stripe_offset s = a" "a \<le> offset + d" "offset + d < a + stripe_length s" "a + stripe_length s \<le> room"
    and d: "d < length data" and bs: "good (mc_world m)" "cells m (part_ref s) = Some bs" "length bs = stripe_length s"
    and n: "n = min (length data - d) (a + stripe_length s - (offset + d))"
    and run: "write_pass E (s # ss) offset data d m = (r, m')" "now m' < limit"
  obtains m1 where "quiet good cell {part_ref s} m m1"
    "cells m1 (part_ref s) = Some (blit (offset + d - a) (take n (drop d data)) bs)"
    "write_pass E ss offset data (d + n) m1 = (r, m')"
proof -
  let ?pos = "offset + d"
  have W: "a + stripe_length s < W64" using s(4) room_bound by simp
  then have pos: "u64_add offset d = ?pos" "?pos < W64" using s(3) by (auto simp: u64_add_exact)
  have cov: "stripe_covers s ?pos" using covers_tile [of s ?pos] s W pos by simp
  have share: "stripe_share s ?pos (length data - d) = n" "u64_sub ?pos (stripe_offset s) = ?pos - a"
    using stripe_share_tile [of s ?pos] s W n by auto
  obtain q m1 where call: "sync_remote_call E (stripe_peer s)
      (write_request (mc_next_request_id m) (stripe_handle s) (?pos - a) (take n (drop d data))) (next_request m) = (q, m1)"
    by (metis surj_pair)
  have step: "(case q of Inl e \<Rightarrow> (Inl (rethrow ''Failed to write stripe: '' e), m1)
      | Inr _ \<Rightarrow> write_pass E ss offset data (d + n) m1) = (r, m')"
    using run(1) d pos cov share call by (simp add: Let_def)
  have "now m1 < limit" using step run(2) by (auto split: sum.splits dest!: now_write_pass)
  moreover have "?pos - a + length (take n (drop d data)) \<le> length bs" "length (take n (drop d data)) \<le> room"
    using s bs(3) n by auto
  ultimately have "quiet good cell {part_ref s} m m1" "\<exists>x. q = Inr x"
      "cells m1 (part_ref s) = Some (blit (?pos - a) (take n (drop d data)) bs)"
    using write_call_ok [OF bs(1) bs(2) [unfolded part_ref_def] _ _ call] by (auto simp: part_ref_def)
  then show ?thesis using that [of m1] step by auto
qed

lemma write_pass_ok:
  assumes "tiles a ss b" "b \<le> room" "offset + length data \<le> b" "a \<le> offset + d" "d \<le> length data"
    and "good (mc_world m)" "parts_held cell (mc_world m) ss" "write_pass E ss offset data d m = (r, m')" "now m' < limit"
  shows "r = Inr (length data) \<and> written m ss (offset + d - a) (drop d data) m'"
  using assms(1,4-8)
proof (induction ss arbitrary: a d m)
  case Nil
  then show ?case using assms(3) written_nothing by auto
next
  case (Cons s ss)
  let ?pos = "offset + d" and ?e = "a + stripe_length s"
  have s: "stripe_offset s = a" "tiles ?e ss b" "?e \<le> b" using Cons.prems(1) tiles_le by auto
  obtain bs where bs: "cells m (part_ref s) = Some bs" "length bs = stripe_length s" "parts_held cell (mc_world m) ss"
      "part_ref s \<notin> part_ref ` set ss"
    using Cons.prems(5) by (auto simp: parts_held_Cons)
  consider (finished) "d = length data" | (beyond) "d < length data" "?e \<le> ?pos" | (inside) "d < length data" "?pos < ?e"
    using Cons.prems(3) by linarith
  then show ?case
  proof cases
    case finished
    then show ?thesis using Cons.prems(4-6) write_pass_stop written_nothing by auto
  next
    case beyond
    then have "?pos < W64" using assms(2,3) room_bound by simp
    then have "write_pass E ss offset data d m = (r, m')"
      using Cons.prems(6) beyond covers_tile [of s ?pos] s assms(2) room_bound by (simp add: u64_add_exact)
    from Cons.IH [OF s(2) beyond(2) Cons.prems(3,4) bs(3) this] show ?thesis
      using written_beyond [OF Cons.prems(5), of "?pos - ?e"] beyond by simp
  next
    case inside
    define n where "n = min (length data - d) (?e - ?pos)"
    have "?e \<le> room" using s(3) assms(2) by simp
    from write_pass_step [OF s(1) Cons.prems(2) inside(2) this inside(1) Cons.prems(4) bs(1,2) n_def Cons.prems(6) assms(9)]
    obtain m1 where one: "quiet good cell {part_ref s} m m1"
      "cells m1 (part_ref s) = Some (blit (?pos - a) (take n (drop d data)) bs)"
      and run: "write_pass E ss offset data (d + n) m1 = (r, m')" .
    have held1: "parts_held cell (mc_world m1) ss" using parts_kept(1) [OF quietD(3) [OF one(1)] bs(3)] bs(4) by simp
    have rest: "r = Inr (length data) \<and> written m1 ss 0 (drop (d + n) data) m'"
    proof (cases "d + n = length data")
      case True
      then have "(r, m') = (Inr (length data), m1)" using run write_pass_stop by metis
      then show ?thesis using written_nothing [OF quietD(1) [OF one(1)] held1] True by simp
    next
      case False
      then have "offset + (d + n) = ?e" "d + n \<le> length data" using inside by (auto simp: n_def)
      then show ?thesis using Cons.IH [OF s(2) _ _ quietD(1) [OF one(1)] held1 run] by simp
    qed
    have fit: "?pos - a + length (drop d data) \<le> length bs + length (part_bytes cell (mc_world m) ss)"
      using length_part_bytes [OF bs(3) s(2)] assms(3) bs(2) s(3) Cons.prems(2) inside by simp
    have "n = min (length (drop d data)) (length bs - (?pos - a))" "?pos - a \<le> length bs"
      using inside Cons.prems(2) bs(2) by (auto simp: n_def)
    from written_inside [OF Cons.prems(5) bs(1) one this fit] rest show ?thesis by (simp add: add.commute)
  qed
qed

text \<open>Reading, with or without giving the parts back.\<close>

abbreviation taken :: "bool \<Rightarrow> Stripe list \<Rightarrow> (nat \<times> uint64) set" where
  "taken rel ss \<equiv> (if rel then part_ref ` set ss else {})"

lemma read_pass_stop: "read_pass E rel ss offset result (length result) m = (Inr (result, length result), m)"
  by (cases ss) auto

lemma read_pass_step:
  assumes s: "stripe_offset s = a" "a \<le> offset + d" "offset + d < a + stripe_length s" "a + stripe_length s \<le> room"
    and d: "d < length result" and bs: "good (mc_world m)" "cells m (part_ref s) = Some bs" "length bs = stripe_length s"
    and n: "n = min (length result - d) (a + stripe_length s - (offset + d))"
    and run: "read_pass E rel (s # ss) offset result d m = (r, m')" "now m' < limit"
  obtains m1 where "quiet good cell (taken rel [s]) m m1"
    "read_pass E rel ss offset (blit d (peek (offset + d - a) n bs) result) (d + n) m1 = (r, m')"
proof -
  let ?pos = "offset + d" and ?x = "peek (offset + d - a) n bs"
  have W: "a + stripe_length s < W64" using s(4) room_bound by simp
  then have pos: "u64_add offset d = ?pos" "?pos < W64" using s(3) by (auto simp: u64_add_exact)
  have cov: "stripe_covers s ?pos" using covers_tile [of s ?pos] s W pos by simp
  have share: "stripe_share s ?pos (length result - d) = n" "u64_sub ?pos (stripe_offset s) = ?pos - a"
    using stripe_share_tile [of s ?pos] s W n by auto
  have fit: "?pos - a + n \<le> length bs" "0 < n" "n \<le> room" "d + n \<le> length result" using s bs(3) n d by auto
  obtain q m1 where call: "read_one E (stripe_peer s) (stripe_handle s) (?pos - a) n m = (q, m1)" by (metis surj_pair)
  have step: "(case q of Inl e \<Rightarrow> (Inl (rethrow ''Failed to read stripe: '' e), m1)
      | Inr data \<Rightarrow> if length result < d + length data then (Inl UndefinedBehaviour, m1)
          else (case release E rel (stripe_peer s) (stripe_handle s) m1 of
            (Inl e, m2) \<Rightarrow> (Inl (rethrow ''Failed to read stripe: '' e), m2)
          | (Inr _, m2) \<Rightarrow> read_pass E rel ss offset (blit d data result) (d + n) m2)) = (r, m')"
    using run(1) d pos cov share call by (simp add: Let_def)
  obtain u m2 where rel: "release E rel (stripe_peer s) (stripe_handle s) m1 = (u, m2)" by (metis surj_pair)
  have late: "now m1 < limit" "q = Inr data \<Longrightarrow> \<not> length result < d + length data \<Longrightarrow> now m2 < limit" for data
    using step run(2) rel by (auto split: sum.splits if_splits dest!: now_release now_read_pass)
  note one = read_one_ok [OF bs(1) bs(2) [unfolded part_ref_def] fit(1-3) call late(1)]
  have len: "length ?x = n" using fit(1) by simp
  have "now m2 < limit" using late(2) [OF one(2)] fit(4) len by simp
  moreover have "cells m1 (stripe_peer s, stripe_handle s) = Some bs"
    using keptD [OF quietD(3) [OF one(1)] bs(2)] by (simp add: part_ref_def)
  ultimately have two: "quiet good cell (taken rel [s]) m1 m2" "u = Inr ()"
    using release_ok [OF quietD(1) [OF one(1)], of "stripe_peer s" "stripe_handle s" bs u m2] rel quiet_refl quietD(1) [OF one(1)]
    by (auto simp: part_ref_def release_def split: if_splits)
  have "quiet good cell (taken rel [s]) m m2" using quiet_trans [OF one(1) two(1)] by simp
  then show ?thesis using that [of m2] step one(2) two(2) rel len fit(4) by simp
qed

lemma read_beyond:
  assumes "cells m (part_ref s) = Some bs" "length bs = stripe_length s" "quiet good cell (taken rel ss) m m'"
  shows "quiet good cell (taken rel (s # ss)) m m'"
    "peek (stripe_length s + k) n (part_bytes cell (mc_world m) (s # ss)) = peek k n (part_bytes cell (mc_world m) ss)"
proof -
  have "taken rel ss \<subseteq> taken rel (s # ss)" by auto
  from quiet_mono [OF assms(3) this] show "quiet good cell (taken rel (s # ss)) m m'" .
qed (use assms in \<open>simp add: peek_append_right\<close>)

lemma read_inside:
  assumes "k \<le> length bs" "n = min (length result - d) (length bs - k)" "d + n \<le> length result"
    and "length result - d \<le> length bs - k + length rest"
  shows "blit (d + n) (peek 0 (length result - (d + n)) rest) (blit d (peek k n bs) result) =
    blit d (peek k (length result - d) (bs @ rest)) result"
proof -
  have len: "length (peek k n bs) = n" using assms(1,2) by simp
  have "blit (d + n) (peek 0 (length result - (d + n)) rest) (blit d (peek k n bs) result) =
      blit d (peek k n bs @ peek 0 (length result - (d + n)) rest) result"
    using blit_blit_adjacent [of d "peek k n bs" "peek 0 (length result - (d + n)) rest" result] assms(3) unfolding len by simp
  then show ?thesis using peek_append_split [OF assms(1,2)] by simp
qed

lemma read_pass_ok:
  assumes "tiles a ss b" "b \<le> room" "offset + length result \<le> b" "a \<le> offset + d" "d \<le> length result"
    and "good (mc_world m)" "parts_held cell (mc_world m) ss" "read_pass E rel ss offset result d m = (r, m')" "now m' < limit"
  shows "r = Inr (blit d (peek (offset + d - a) (length result - d) (part_bytes cell (mc_world m) ss)) result, length result) \<and>
    quiet good cell (taken rel ss) m m'"
  using assms(1,3-8)
proof (induction ss arbitrary: a d m result)
  case Nil
  then show ?case by (auto simp: quiet_refl)
next
  case (Cons s ss)
  let ?pos = "offset + d" and ?e = "a + stripe_length s"
  have s: "stripe_offset s = a" "tiles ?e ss b" "?e \<le> b" using Cons.prems(1) tiles_le by auto
  obtain bs where bs: "cells m (part_ref s) = Some bs" "length bs = stripe_length s" "parts_held cell (mc_world m) ss"
      "part_ref s \<notin> part_ref ` set ss"
    using Cons.prems(6) by (auto simp: parts_held_Cons)
  consider (finished) "d = length result" | (beyond) "d < length result" "?e \<le> ?pos" | (inside) "d < length result" "?pos < ?e"
    using Cons.prems(4) by linarith
  then show ?case
  proof cases
    case finished
    then show ?thesis using Cons.prems(5,7) read_pass_stop by (auto simp: quiet_refl)
  next
    case beyond
    then have "?pos < W64" using assms(2) Cons.prems(2) room_bound by simp
    then have "read_pass E rel ss offset result d m = (r, m')"
      using Cons.prems(7) beyond covers_tile [of s ?pos] s assms(2) room_bound by (simp add: u64_add_exact)
    from Cons.IH [OF s(2) Cons.prems(2) beyond(2) Cons.prems(4,5) bs(3) this] show ?thesis
      using read_beyond(1) [OF bs(1,2)] read_beyond(2) [OF bs(1,2), of rel ss m' "?pos - ?e"] beyond(2) by simp
  next
    case inside
    define n where "n = min (length result - d) (?e - ?pos)"
    define res where "res = blit d (peek (?pos - a) n bs) result"
    have "?e \<le> room" using s(3) assms(2) by simp
    from read_pass_step [OF s(1) Cons.prems(3) inside(2) this inside(1) Cons.prems(5) bs(1,2) n_def Cons.prems(7) assms(9)]
    obtain m1 where one: "quiet good cell (taken rel [s]) m m1"
      and run: "read_pass E rel ss offset res (d + n) m1 = (r, m')" unfolding res_def .
    have n: "n = min (length result - d) (length bs - (?pos - a))" "?pos - a \<le> length bs" "d + n \<le> length result"
      using inside Cons.prems(3) bs(2) by (auto simp: n_def)
    have len: "length res = length result" using n by (simp add: res_def)
    note same = parts_kept [OF quietD(3) [OF one] bs(3)]
    have rest: "r = Inr (blit (d + n) (peek 0 (length result - (d + n)) (part_bytes cell (mc_world m1) ss)) res, length result) \<and>
        quiet good cell (taken rel ss) m1 m'"
    proof (cases "d + n = length result")
      case True
      then have "(r, m') = (Inr (res, length result), m1)" using run read_pass_stop len by metis
      then show ?thesis using True quietD(1) [OF one] quiet_refl [of good m1 cell "taken rel ss"] by simp
    next
      case False
      then have "offset + (d + n) = ?e" using inside by (auto simp: n_def)
      then show ?thesis using Cons.IH [OF s(2) _ _ _ quietD(1) [OF one] same(1) run] len n(3) Cons.prems(2) bs(4) by auto
    qed
    have "length result - d \<le> length bs - (?pos - a) + length (part_bytes cell (mc_world m) ss)"
      using length_part_bytes [OF bs(3) s(2)] Cons.prems(2,3) bs(2) s(3) inside by simp
    from read_inside [OF n(2,1,3) this] rest show ?thesis
      using same(2) bs(1,4) quiet_trans [OF one conjunct2 [OF rest]] by (auto simp: res_def)
  qed
qed

text \<open>The three operations on a held allocation.\<close>

lemma heldD:
  assumes "held cell m a"
  shows "well_placed (ra_size a) a" "parts_held cell (mc_world m) (parts a)"
  using assms by (auto simp: held_def)

lemma held_single:
  assumes "held cell m a" "\<not> ra_is_striped a"
  obtains i bs where "ra_peer a = Some i" "peer_connected m i" "cells m (i, ra_handle a) = Some bs" "length bs = ra_size a"
    "parts a = [\<lparr> stripe_handle = ra_handle a, stripe_offset = 0, stripe_length = ra_size a, stripe_peer = i \<rparr>]"
    "refs a = {(i, ra_handle a)}"
  using assms by (auto simp: held_def well_placed_def parts_def parts_held_def part_ref_def)

lemma write_striped_ok:
  assumes "good (mc_world m)" "parts_held cell (mc_world m) ss" "tiles 0 ss b" "b \<le> room" "offset + length data \<le> b"
    and "write_striped E ss offset data 0 m = (r, m')" "now m' < limit"
  shows "r = Inr () \<and> written m ss offset data m'"
proof (cases "data = []")
  case True
  then show ?thesis using assms(6) written_nothing [OF assms(1,2)] by (simp add: write_striped.simps)
next
  case False
  obtain q m1 where pass: "write_pass E ss offset data 0 m = (q, m1)" by (metis surj_pair)
  have again: "write_striped E ss offset data (length data) m1 = (Inr (), m1)"
    by (subst write_striped.simps) simp
  have step: "(case q of Inl e \<Rightarrow> (Inl e, m1)
      | Inr d \<Rightarrow> if d = 0 then (Inl Nontermination, m1) else write_striped E ss offset data d m1) = (r, m')"
    using assms(6) pass False by (subst (asm) write_striped.simps) simp
  have "now m1 < limit" using step assms(7) by (auto split: sum.splits if_splits dest!: now_write_striped)
  from write_pass_ok [OF assms(3,4,5) _ _ assms(1,2) pass this] show ?thesis using step again False by simp
qed

lemma write_remote_ok:
  assumes "good (mc_world m)" "held cell m a" "0 < ra_size a" "ra_size a \<le> room" "offset + length data \<le> ra_size a"
    and "write_remote E a offset data m = (r, m')" "now m' < limit"
  shows "r = Inr () \<and> quiet good cell (refs a) m m' \<and> held cell m' a \<and>
    alloc_bytes cell m' a = blit offset data (alloc_bytes cell m a)"
proof -
  note w = heldD [OF assms(2)]
  have "r = Inr () \<and> written m (parts a) offset data m'"
  proof (cases "ra_is_striped a")
    case True
    then have "write_striped E (parts a) offset data 0 m = (r, m')"
      using assms(6) by (simp add: write_remote_def parts_def)
    from write_striped_ok [OF assms(1) w(2) tiles_parts [OF w(1) assms(3)] assms(4,5) this assms(7)] show ?thesis .
  next
    case False
    with assms(2) obtain i bs where i: "ra_peer a = Some i" "peer_connected m i"
      and bs: "cells m (i, ra_handle a) = Some bs" "length bs = ra_size a"
      and p: "parts a = [\<lparr> stripe_handle = ra_handle a, stripe_offset = 0, stripe_length = ra_size a, stripe_peer = i \<rparr>]"
      by (rule held_single)
    obtain q where call: "sync_remote_call E i (write_request (mc_next_request_id m) (ra_handle a) offset data) (next_request m) = (q, m')"
      and r: "r = map_sum (\<lambda>e. e) (\<lambda>_. ()) q"
      using assms(6) False i by (auto simp: write_remote_def split: prod.splits sum.splits)
    have "offset + length data \<le> length bs" "length data \<le> room" using bs assms(4,5) by auto
    from write_call_ok [OF assms(1) bs(1) this call assms(7)] show ?thesis
      using bs assms(5) r by (auto simp: written_def p parts_held_def part_ref_def)
  qed
  moreover have "held cell m' a" if "quiet good cell (refs a) m m'" "parts_held cell (mc_world m') (parts a)"
    using that assms(2) by (auto simp: held_def quiet_def peer_connected_def)
  ultimately show ?thesis by (auto simp: written_def)
qed

lemma read_striped_ok:
  assumes "good (mc_world m)" "parts_held cell (mc_world m) ss" "tiles 0 ss b" "b \<le> room" "offset + n \<le> b" "0 < n"
    and "read_striped E rel ss offset (replicate n 0) 0 m = (r, m')" "now m' < limit"
  shows "r = Inr (peek offset n (part_bytes cell (mc_world m) ss)) \<and> quiet good cell (taken rel ss) m m'"
proof -
  let ?bs = "peek offset n (part_bytes cell (mc_world m) ss)"
  have len: "length ?bs = n" using length_part_bytes [OF assms(2,3)] assms(5) by simp
  obtain q m1 where pass: "read_pass E rel ss offset (replicate n 0) 0 m = (q, m1)" by (metis surj_pair)
  have again: "read_striped E rel ss offset res (length res) m1 = (Inr res, m1)" for res
    by (subst read_striped.simps) simp
  have step: "(case q of Inl e \<Rightarrow> (Inl e, m1) | Inr (res, d) \<Rightarrow> if d = 0 then (Inl Nontermination, m1)
      else read_striped E rel ss offset res d m1) = (r, m')"
    using assms(6,7) pass by (subst (asm) read_striped.simps) simp
  have "now m1 < limit" using step assms(8) by (auto split: sum.splits prod.splits if_splits dest!: now_read_striped)
  from read_pass_ok [OF assms(3,4) _ _ _ assms(1,2) pass this] assms(5)
  have "q = Inr (?bs, n) \<and> quiet good cell (taken rel ss) m m1" using blit_all [of ?bs "replicate n 0"] len by simp
  then show ?thesis using step again [of ?bs] assms(6) unfolding len by auto
qed

lemma read_remote_ok:
  assumes "good (mc_world m)" "held cell m a" "0 < ra_size a" "ra_size a \<le> room" "offset + n \<le> ra_size a" "0 < n"
    and "read_remote E rel a offset n m = (r, m')" "now m' < limit"
  shows "r = Inr (peek offset n (alloc_bytes cell m a)) \<and> quiet good cell (taken rel (parts a)) m m'"
proof (cases "ra_is_striped a")
  case True
  then have "read_striped E rel (parts a) offset (replicate n 0) 0 m = (r, m')"
    using assms(7) by (simp add: read_remote_def parts_def)
  from read_striped_ok [OF assms(1) heldD(2) [OF assms(2)] tiles_parts [OF heldD(1) [OF assms(2)] assms(3)] assms(4-6) this assms(8)]
  show ?thesis .
next
  case False
  with assms(2) obtain i bs where i: "ra_peer a = Some i" "peer_connected m i"
    and bs: "cells m (i, ra_handle a) = Some bs" "length bs = ra_size a"
    and p: "parts a = [\<lparr> stripe_handle = ra_handle a, stripe_offset = 0, stripe_length = ra_size a, stripe_peer = i \<rparr>]"
    by (rule held_single)
  obtain q m1 where one: "read_one E i (ra_handle a) offset n m = (q, m1)" by (metis surj_pair)
  obtain u m2 where rel: "release E rel i (ra_handle a) m1 = (u, m2)" by (metis surj_pair)
  have step: "(case q of Inl e \<Rightarrow> (Inl e, m1) | Inr data \<Rightarrow> (case u of Inl e \<Rightarrow> (Inl e, m2) | Inr _ \<Rightarrow> (Inr data, m2))) = (r, m')"
    using assms(7) False i one rel by (auto simp: read_remote_def split: sum.splits)
  have late: "now m1 < limit" "q = Inr data \<Longrightarrow> now m2 < limit" for data
    using step assms(8) rel by (auto split: sum.splits dest!: now_release)
  have "offset + n \<le> length bs" "n \<le> room" using bs assms(4,5) by auto
  note got = read_one_ok [OF assms(1) bs(1) this(1) assms(6) this(2) one late(1)]
  have "cells m1 (i, ra_handle a) = Some bs" using keptD [OF quietD(3) [OF got(1)] bs(1)] by simp
  then have two: "quiet good cell (taken rel (parts a)) m1 m2" "u = Inr ()"
    using release_ok [OF quietD(1) [OF got(1)], of i "ra_handle a" bs u m2] rel late(2) [OF got(2)] quietD(1) [OF got(1)]
      quiet_refl [of good m1 cell "{}"]
    by (auto simp: p part_ref_def release_def split: if_splits)
  show ?thesis using quiet_trans [OF got(1) two(1)] step got(2) two(2) bs by (simp add: p part_ref_def)
qed

lemma free_remote_ok:
  assumes "good (mc_world m)" "held cell m a" "now (free_remote E a m) < limit"
  shows "quiet good cell (refs a) m (free_remote E a m)"
proof (cases "ra_is_striped a")
  case True
  then show ?thesis using free_stripes_ok [OF assms(1), of "parts a"] assms(2,3)
    by (simp add: free_remote_def parts_def held_def)
next
  case False
  with assms(2) obtain i bs where "ra_peer a = Some i" "peer_connected m i" "cells m (i, ra_handle a) = Some bs"
      "refs a = {(i, ra_handle a)}" by (rule held_single)
  then show ?thesis using free_one_ok [OF assms(1)] assms(3) False by (simp add: free_remote_def)
qed

end

end
