(* ===== verification/ClientMemory.thy ===== *)
theory ClientMemory
  imports PeerMemory
begin

text \<open>
  The client as one memory. The specification is a table from handles to byte blocks with
  allocate, free, read and write; the only failure it allows beyond bad arguments is that all
  peers are out of memory. Over peers that satisfy \<open>peer_memory\<close>, every operation of the client
  refines it, whatever is evicted, striped or loaded back on the way.
\<close>

section \<open>Specification\<close>

datatype client_op = OpAllocate nat | OpFree nat | OpRead nat nat nat | OpWrite nat nat bytes | OpPressure

datatype client_result = Handle nat | Bytes bytes | Done | Thrown cpp_error

inductive memory_step :: "(nat \<rightharpoonup> bytes) \<Rightarrow> client_op \<Rightarrow> client_result \<Rightarrow> (nat \<rightharpoonup> bytes) \<Rightarrow> bool" where
  allocated: "C h = None \<Longrightarrow> memory_step C (OpAllocate sz) (Handle h) (C(h \<mapsto> replicate sz 0))"
| freed: "memory_step C (OpFree h) Done (C(h := None))"
| was_read: "C h = Some bs \<Longrightarrow> off + n \<le> length bs \<Longrightarrow> memory_step C (OpRead h off n) (Bytes (peek off n bs)) C"
| read_outside: "C h = Some bs \<Longrightarrow> length bs < off + n \<Longrightarrow>
    memory_step C (OpRead h off n) (Thrown (OutOfRange ''Read out of bounds'')) C"
| read_unknown: "C h = None \<Longrightarrow>
    memory_step C (OpRead h off n) (Thrown (InvalidArgument ''Invalid handle or block not found'')) C"
| was_written: "C h = Some bs \<Longrightarrow> off + length d \<le> length bs \<Longrightarrow>
    memory_step C (OpWrite h off d) Done (C(h \<mapsto> blit off d bs))"
| write_outside: "C h = Some bs \<Longrightarrow> length bs < off + length d \<Longrightarrow>
    memory_step C (OpWrite h off d) (Thrown (OutOfRange ''Write out of bounds'')) C"
| write_unknown: "C h = None \<Longrightarrow>
    memory_step C (OpWrite h off d) (Thrown (InvalidArgument ''Invalid handle or block not found'')) C"
| relieved: "memory_step C OpPressure Done C"
| full: "\<forall>h. op \<noteq> OpFree h \<Longrightarrow> memory_step C op (Thrown out_of_memory) C"

inductive_simps memory_step_simps:
  "memory_step C (OpAllocate sz) r C'" "memory_step C (OpFree h) r C'" "memory_step C (OpRead h off n) r C'"
  "memory_step C (OpWrite h off d) r C'" "memory_step C OpPressure r C'"

inductive memory_run ::
  "(nat \<rightharpoonup> bytes) \<Rightarrow> client_op list \<Rightarrow> client_result list \<Rightarrow> (nat \<rightharpoonup> bytes) \<Rightarrow> bool" where
  run_Nil: "memory_run C [] [] C"
| run_Cons: "memory_step C op r C1 \<Longrightarrow> memory_run C1 ops rs C2 \<Longrightarrow> memory_run C (op # ops) (r # rs) C2"

section \<open>The client's operations\<close>

definition result_of :: "('a \<Rightarrow> client_result) \<Rightarrow> (cpp_error + 'a) \<times> 'w MemoryClient \<Rightarrow> client_result \<times> 'w MemoryClient" where
  "result_of f p = (case p of (Inl e, m) \<Rightarrow> (Thrown e, m) | (Inr x, m) \<Rightarrow> (f x, m))"

primrec client_apply :: "'w env \<Rightarrow> client_op \<Rightarrow> 'w MemoryClient \<Rightarrow> client_result \<times> 'w MemoryClient" where
  "client_apply E (OpAllocate sz) m = result_of Handle (allocate E sz m)"
| "client_apply E (OpFree h) m = (Done, MemoryClient_free E h m)"
| "client_apply E (OpRead h off n) m = result_of Bytes (MemoryClient_read E h off n m)"
| "client_apply E (OpWrite h off d) m = result_of (\<lambda>_. Done) (MemoryClient_write E h off d m)"
| "client_apply E OpPressure m = result_of (\<lambda>_. Done) (on_memory_pressure E m)"

primrec client_run :: "'w env \<Rightarrow> client_op list \<Rightarrow> 'w MemoryClient \<Rightarrow> client_result list \<times> 'w MemoryClient" where
  "client_run E [] m = ([], m)"
| "client_run E (op # ops) m =
    (case client_apply E op m of (r, m1) \<Rightarrow> case client_run E ops m1 of (rs, m2) \<Rightarrow> (r # rs, m2))"

text \<open>Blocks of 1 to \<open>room\<close> bytes, and reads of at least one byte: the client treats a reply
  without data as a failure, so an empty block does not survive eviction.\<close>

definition op_ok :: "nat \<Rightarrow> client_op \<Rightarrow> bool" where
  "op_ok room op \<longleftrightarrow> (case op of
     OpAllocate sz \<Rightarrow> 0 < sz \<and> sz \<le> room | OpRead h off n \<Rightarrow> 0 < n | _ \<Rightarrow> True)"

section \<open>Abstraction and invariant\<close>

definition contents :: "('w \<Rightarrow> nat \<times> uint64 \<rightharpoonup> bytes) \<Rightarrow> 'w MemoryClient \<Rightarrow> nat \<rightharpoonup> bytes" where
  "contents cell m h = (case deref (mc_cache m) h of
     Some b \<Rightarrow> Some (cb_data b) | None \<Rightarrow> map_option (alloc_bytes cell m) (mc_remote m h))"

definition remote_inv ::
  "('w \<Rightarrow> bool) \<Rightarrow> ('w \<Rightarrow> nat \<times> uint64 \<rightharpoonup> bytes) \<Rightarrow> nat \<Rightarrow> 'w MemoryClient \<Rightarrow> bool" where
  "remote_inv good cell room m \<longleftrightarrow> good (mc_world m) \<and>
     (\<forall>h a. mc_remote m h = Some a \<longrightarrow> held cell m a \<and> 0 < ra_size a \<and> ra_size a \<le> room) \<and>
     (\<forall>h h' a a'. mc_remote m h = Some a \<longrightarrow> mc_remote m h' = Some a' \<longrightarrow> h \<noteq> h' \<longrightarrow> refs a \<inter> refs a' = {})"

definition cache_inv :: "nat \<Rightarrow> 'w MemoryClient \<Rightarrow> bool" where
  "cache_inv room m \<longleftrightarrow> client_inv m \<and>
     (\<forall>b \<in> set (lru_list (mc_cache m)). 0 < length (cb_data b) \<and> length (cb_data b) \<le> room) \<and>
     (\<forall>h \<in> lru_map (mc_cache m) \<union> dom (mc_remote m). h < mc_next_local_handle m)"

definition mem_inv ::
  "('w \<Rightarrow> bool) \<Rightarrow> ('w \<Rightarrow> nat \<times> uint64 \<rightharpoonup> bytes) \<Rightarrow> nat \<Rightarrow> 'w MemoryClient \<Rightarrow> bool" where
  "mem_inv good cell room m \<longleftrightarrow> remote_inv good cell room m \<and> cache_inv room m"

section \<open>The cache\<close>

lemma deref_iff:
  assumes "lru_inv c"
  shows "deref c h = Some b \<longleftrightarrow> b \<in> set (lru_list c) \<and> cb_handle b = h"
proof
  assume "deref c h = Some b"
  then show "b \<in> set (lru_list c) \<and> cb_handle b = h"
    unfolding deref_def by (auto simp: find_Some_iff)
next
  assume b: "b \<in> set (lru_list c) \<and> cb_handle b = h"
  then obtain b' where b': "deref c h = Some b'" using deref_None_iff [of c h] by (cases "deref c h") auto
  then have "b' \<in> set (lru_list c)" "cb_handle b' = h" unfolding deref_def by (auto simp: find_Some_iff)
  then have "b' = b" using b lru_invD(4) [OF assms] by (auto simp: distinct_map dest: inj_onD)
  then show "deref c h = Some b" using b' by simp
qed

lemma deref_cong:
  assumes "lru_inv c" "lru_inv c'" "set (lru_list c') = set (lru_list c)"
  shows "deref c' h = deref c h"
  using deref_iff [OF assms(1), of h] deref_iff [OF assms(2), of h] assms(3)
  by (cases "deref c' h"; cases "deref c h") auto

lemma deref_None: "lru_inv c \<Longrightarrow> deref c h = None \<longleftrightarrow> h \<notin> lru_map c"
  using deref_None_iff lru_invD(5) by metis

lemma deref_pop:
  assumes "lru_inv c" "lru_list c \<noteq> []"
  shows "deref (pop_last c) h = (if h = cb_handle (last (lru_list c)) then None else deref c h)"
proof -
  let ?l = "last (lru_list c)"
  have split: "lru_list c = butlast (lru_list c) @ [?l]" using assms(2) by simp
  have "distinct (map cb_handle (butlast (lru_list c) @ [?l]))" using lru_invD(4) [OF assms(1)] split by metis
  then have "cb_handle ?l \<notin> cb_handle ` set (butlast (lru_list c))" by simp
  moreover have "find (\<lambda>b. cb_handle b = h) (xs @ [y]) =
      (case find (\<lambda>b. cb_handle b = h) xs of Some b \<Rightarrow> Some b | None \<Rightarrow> if cb_handle y = h then Some y else None)" for xs y
    by (induction xs) auto
  from this [of "butlast (lru_list c)" ?l] have "deref c h =
      (case deref (pop_last c) h of Some b \<Rightarrow> Some b | None \<Rightarrow> if cb_handle ?l = h then Some ?l else None)"
    using split pop_last_ok(2) [OF assms] by (simp add: deref_def)
  ultimately show ?thesis using deref_None_iff [of "pop_last c" "cb_handle ?l"] pop_last_ok(2) [OF assms]
    by (auto split: option.splits)
qed

lemma find_without:
  "find (\<lambda>b. cb_handle b = k) (without h bs) = (if k = h then None else find (\<lambda>b. cb_handle b = k) bs)"
  by (induction bs) (auto simp: without_def)

text \<open>Putting a block for which there is room drops nothing.\<close>

lemma put_with_room:
  assumes inv: "lru_inv c" and fit: "total_bytes (without h (lru_list c)) + length data \<le> max_bytes c"
  obtains c' where "LRUCache_put c h data dirty = (True, c')" "lru_inv c'" "max_bytes c' = max_bytes c"
    "lru_list c' = \<lparr> cb_handle = h, cb_data = data, cb_dirty = dirty \<rparr> # without h (lru_list c)"
    "\<And>x. map_option cb_data (deref c' x) = (if x = h then Some data else map_option cb_data (deref c x))"
proof -
  from LRUCache_put_ok [OF inv, of data h dirty] fit obtain k c' where
    p: "LRUCache_put c h data dirty = (True, c')" "lru_inv c'" "max_bytes c' = max_bytes c"
      "lru_list c' = \<lparr> cb_handle = h, cb_data = data, cb_dirty = dirty \<rparr> # take k (without h (lru_list c))"
    and minimal: "\<forall>j. k < j \<longrightarrow> j \<le> length (without h (lru_list c)) \<longrightarrow>
      max_bytes c < total_bytes (take j (without h (lru_list c))) + length data" by fastforce
  have "length (without h (lru_list c)) \<le> k" using minimal fit by (metis linorder_not_less order_refl take_all)
  then have list: "lru_list c' = \<lparr> cb_handle = h, cb_data = data, cb_dirty = dirty \<rparr> # without h (lru_list c)"
    using p(4) by simp
  have "map_option cb_data (deref c' x) = (if x = h then Some data else map_option cb_data (deref c x))" for x
    by (simp add: deref_def list find_without)
  then show ?thesis using that p list by blast
qed

lemma put_no_eviction:
  assumes "lru_inv c" "\<not> needs_eviction c (length data) \<or> lru_list c = []" "length data \<le> max_bytes c"
  shows "total_bytes (without h (lru_list c)) + length data \<le> max_bytes c"
proof -
  have le: "total_bytes (without h bs) \<le> total_bytes bs" for bs by (induction bs) (auto simp: without_def)
  show ?thesis
  proof (cases "lru_list c = []")
    case True
    then show ?thesis using assms(3) by (simp add: without_def)
  next
    case False
    then have "u64_add (current_bytes c) (length data) \<le> max_bytes c" using assms(2) by (simp add: needs_eviction_def)
    moreover have "u64_add (current_bytes c) (length data) = total_bytes (lru_list c) + length data"
      using lru_invD(1-3) [OF assms(1)] assms(3) by (subst u64_add_exact) auto
    ultimately show ?thesis using le [of "lru_list c"] by linarith
  qed
qed

section \<open>The blocks on the peers\<close>

lemma remote_invD:
  assumes "remote_inv good cell room m"
  shows "good (mc_world m)" "mc_remote m h = Some a \<Longrightarrow> held cell m a" "mc_remote m h = Some a \<Longrightarrow> 0 < ra_size a"
    "mc_remote m h = Some a \<Longrightarrow> ra_size a \<le> room"
    "mc_remote m h = Some a \<Longrightarrow> mc_remote m h' = Some a' \<Longrightarrow> h \<noteq> h' \<Longrightarrow> refs a \<inter> refs a' = {}"
  using assms unfolding remote_inv_def by blast+

text \<open>The part of the contents that is on the peers.\<close>

definition remote_contents :: "('w \<Rightarrow> nat \<times> uint64 \<rightharpoonup> bytes) \<Rightarrow> 'w MemoryClient \<Rightarrow> nat \<rightharpoonup> bytes" where
  "remote_contents cell m h = map_option (alloc_bytes cell m) (mc_remote m h)"

lemma contents_alt:
  "contents cell m h = (case map_option cb_data (deref (mc_cache m) h) of Some d \<Rightarrow> Some d | None \<Rightarrow> remote_contents cell m h)"
  by (simp add: contents_def remote_contents_def split: option.split)

lemma remote_cache [simp]:
  "remote_inv good cell room (m \<lparr> mc_cache := c \<rparr>) = remote_inv good cell room m"
  "remote_contents cell (m \<lparr> mc_cache := c \<rparr>) = remote_contents cell m"
  "remote_inv good cell room (m \<lparr> mc_next_local_handle := k \<rparr>) = remote_inv good cell room m"
  "remote_contents cell (m \<lparr> mc_next_local_handle := k \<rparr>) = remote_contents cell m"
  by (auto simp: remote_inv_def remote_contents_def held_def peer_connected_def)

lemma push_block_next: "push_block E b m = (r, m') \<Longrightarrow> mc_next_local_handle m' = mc_next_local_handle m"
  by (auto simp: push_block_def split: prod.splits sum.splits option.splits
      dest: allocate_remote_local(2) dest!: write_remote_local local_partD(3))

lemma cache_inv_moved:
  assumes "cache_inv room m" "moved_only m m'" "mc_next_local_handle m' = mc_next_local_handle m"
  shows "cache_inv room m'"
proof -
  have ci: "client_inv m" "client_inv m'" using assms by (auto simp: cache_inv_def moved_only_def)
  have sub: "set (lru_list (mc_cache m')) \<subseteq> set (lru_list (mc_cache m))" using assms(2) by (simp add: moved_only_def)
  then have "lru_map (mc_cache m') \<subseteq> lru_map (mc_cache m)"
    using ci by (auto simp: client_inv_def lru_inv_def)
  moreover have "dom (mc_remote m') \<subseteq> dom (mc_remote m) \<union> lru_map (mc_cache m)" using assms(2) by (simp add: moved_only_def)
  ultimately have "lru_map (mc_cache m') \<union> dom (mc_remote m') \<subseteq> lru_map (mc_cache m) \<union> dom (mc_remote m)" by blast
  then show ?thesis using assms(1,3) ci(2) sub unfolding cache_inv_def by (metis subsetD)
qed

context peer_memory
begin

abbreviation rinv :: "'w MemoryClient \<Rightarrow> bool" where "rinv \<equiv> remote_inv good cell room"
abbreviation rcont :: "'w MemoryClient \<Rightarrow> nat \<rightharpoonup> bytes" where "rcont \<equiv> remote_contents cell"

lemma remote_undisturbed:
  assumes "rinv m" "undisturbed m m'" "mc_remote m' = mc_remote m"
  shows "rinv m'" "rcont m' = rcont m"
proof -
  have keep: "held cell m' a \<and> alloc_bytes cell m' a = alloc_bytes cell m a" if "mc_remote m h = Some a" for h a
    using that assms(2) remote_invD(2) [OF assms(1)] by (simp add: undisturbed_def)
  show "rinv m'" using assms keep unfolding remote_inv_def undisturbed_def by auto
  show "rcont m' = rcont m"
  proof
    fix h
    show "rcont m' h = rcont m h" using keep assms(3) by (cases "mc_remote m h") (auto simp: remote_contents_def)
  qed
qed

lemma held_refs: "held cell m a \<Longrightarrow> p \<in> refs a \<Longrightarrow> cells m p \<noteq> None"
  by (auto simp: held_def parts_held_def)

lemma remote_add:
  assumes "rinv m" "undisturbed m m'" "granted m sz a m'" "mc_remote m' = (mc_remote m)(h \<mapsto> a)"
    and "0 < sz" "sz \<le> room" "mc_remote m h = None"
  shows "rinv m'" "rcont m' = (rcont m)(h \<mapsto> replicate sz 0)"
proof -
  have keep: "held cell m' b \<and> alloc_bytes cell m' b = alloc_bytes cell m b" if "mc_remote m k = Some b" for k b
    using that assms(2) remote_invD(2) [OF assms(1)] by (simp add: undisturbed_def)
  have new: "refs a \<inter> refs b = {}" if "mc_remote m k = Some b" for k b
    using held_refs [OF remote_invD(2) [OF assms(1) that]] assms(3) unfolding granted_def by blast
  have a: "held cell m' a" "ra_size a = sz" "alloc_bytes cell m' a = replicate sz 0" using assms(3) by (auto simp: granted_def)
  have each: "held cell m' b \<and> 0 < ra_size b \<and> ra_size b \<le> room" if "mc_remote m' k = Some b" for k b
    using that keep a assms(4-6) remote_invD(3,4) [OF assms(1), of k b] by (auto split: if_splits)
  have disj: "refs b \<inter> refs b' = {}" if "mc_remote m' k = Some b" "mc_remote m' k' = Some b'" "k \<noteq> k'" for k k' b b'
    using that new [of k b] new [of k' b'] remote_invD(5) [OF assms(1), of k b k' b'] assms(4)
    by (auto simp: Int_commute split: if_splits)
  have "good (mc_world m')" using assms(2) by (simp add: undisturbed_def)
  then show "rinv m'" unfolding remote_inv_def using each disj by blast
  show "rcont m' = (rcont m)(h \<mapsto> replicate sz 0)"
  proof
    fix k
    show "rcont m' k = ((rcont m)(h \<mapsto> replicate sz 0)) k"
      using keep a assms(4) by (cases "mc_remote m k") (auto simp: remote_contents_def)
  qed
qed

lemma remote_others:
  assumes "rinv m" "quiet good cell (refs a) m m'" "mc_remote m h = Some a" "mc_remote m k = Some b" "k \<noteq> h"
  shows "held cell m' b" "alloc_bytes cell m' b = alloc_bytes cell m b"
  using held_kept [OF assms(2) remote_invD(2) [OF assms(1,4)]] remote_invD(5) [OF assms(1,4,3,5)] by auto

lemma remote_drop:
  assumes "rinv m" "quiet good cell (refs a) m m'" "mc_remote m h = Some a" "mc_remote m' = mc_remote m"
  shows "rinv (m' \<lparr> mc_remote := (mc_remote m')(h := None) \<rparr>)"
    "rcont (m' \<lparr> mc_remote := (mc_remote m')(h := None) \<rparr>) = (rcont m)(h := None)"
proof -
  note keep = remote_others [OF assms(1-3)]
  have each: "held cell m' b \<and> 0 < ra_size b \<and> ra_size b \<le> room" if "mc_remote m k = Some b" "k \<noteq> h" for k b
    using keep that remote_invD(3,4) [OF assms(1)] by auto
  show "rinv (m' \<lparr> mc_remote := (mc_remote m')(h := None) \<rparr>)"
    unfolding remote_inv_def using each quietD(1) [OF assms(2)] remote_invD(5) [OF assms(1)] assms(4) by auto
  show "rcont (m' \<lparr> mc_remote := (mc_remote m')(h := None) \<rparr>) = (rcont m)(h := None)"
  proof
    fix k
    show "rcont (m' \<lparr> mc_remote := (mc_remote m')(h := None) \<rparr>) k = ((rcont m)(h := None)) k"
      using keep(2) assms(4) by (cases "mc_remote m k") (auto simp: remote_contents_def)
  qed
qed

lemma remote_written:
  assumes "rinv m" "quiet good cell (refs a) m m'" "mc_remote m h = Some a" "mc_remote m' = mc_remote m" "held cell m' a"
  shows "rinv m'" "rcont m' = (rcont m)(h \<mapsto> alloc_bytes cell m' a)"
proof -
  note keep = remote_others [OF assms(1-3)]
  have each: "held cell m' b \<and> 0 < ra_size b \<and> ra_size b \<le> room" if "mc_remote m k = Some b" for k b
    using keep(1) [OF that] that assms(3,5) remote_invD(3,4) [OF assms(1) that] by (cases "k = h") auto
  show "rinv m'"
    unfolding remote_inv_def using each quietD(1) [OF assms(2)] remote_invD(5) [OF assms(1)] assms(4) by auto
  show "rcont m' = (rcont m)(h \<mapsto> alloc_bytes cell m' a)"
  proof
    fix k
    show "rcont m' k = ((rcont m)(h \<mapsto> alloc_bytes cell m' a)) k"
      using keep(2) assms(3,4) by (cases "mc_remote m k"; cases "k = h") (auto simp: remote_contents_def)
  qed
qed

text \<open>Moving a block out.\<close>

lemma now_allocate_remote: "allocate_remote E h sz m = (r, m') \<Longrightarrow> now m \<le> now m'"
  by (auto simp: allocate_remote_def Let_def split: if_splits prod.splits option.splits dest!: now_place)

lemma now_push_block: "push_block E b m = (r, m') \<Longrightarrow> now m \<le> now m'"
  by (auto simp: push_block_def split: prod.splits sum.splits option.splits
      dest!: now_allocate_remote now_write_remote intro: order_trans)

lemma now_rollback: "now m \<le> now (rollback E b m)"
  using now_free_remote [of "m \<lparr> mc_remote := R \<rparr>" for R] by (simp add: rollback_def Let_def split: option.split)

lemma push_block_ok:
  assumes "rinv m" "mc_remote m (cb_handle b) = None" "0 < length (cb_data b)" "length (cb_data b) \<le> room"
    and "push_block E b m = (r, m')" "now m' < limit"
  shows "rinv m' \<and> (r = Inl out_of_memory \<and> mc_remote m' = mc_remote m \<and> rcont m' = rcont m \<or>
    r = Inr () \<and> (\<exists>a. mc_remote m' = (mc_remote m)(cb_handle b \<mapsto> a)) \<and> rcont m' = (rcont m)(cb_handle b \<mapsto> cb_data b))"
proof -
  let ?h = "cb_handle b" and ?n = "length (cb_data b)"
  obtain q m1 where alloc: "allocate_remote E ?h ?n m = (q, m1)" by (metis surj_pair)
  have "now m1 < limit"
    using assms(5,6) alloc by (auto simp: push_block_def split: sum.splits option.splits dest!: now_write_remote)
  note a = allocate_remote_ok [OF remote_invD(1) [OF assms(1)] assms(3,4) alloc this]
  from a(2) show ?thesis
  proof (elim disjE conjE exE)
    assume "q = Inl out_of_memory" "mc_remote m1 = mc_remote m"
    then show ?thesis using remote_undisturbed [OF assms(1) a(1)] assms(5) alloc by (simp add: push_block_def)
  next
    fix al
    assume q: "q = Inr ()" "mc_remote m1 = (mc_remote m)(?h \<mapsto> al)" "granted m ?n al m1"
    note add = remote_add [OF assms(1) a(1) q(3,2) assms(3,4,2)]
    have run: "write_remote E al 0 (cb_data b) m1 = (r, m')" using assms(5) alloc q by (simp add: push_block_def)
    have size: "ra_size al = ?n" "alloc_bytes cell m1 al = replicate ?n 0" "held cell m1 al"
      using q(3) by (auto simp: granted_def)
    then have w: "r = Inr ()" "quiet good cell (refs al) m1 m'" "held cell m' al" "alloc_bytes cell m' al = cb_data b"
      using write_remote_ok [OF remote_invD(1) [OF add(1)] size(3) _ _ _ run assms(6)] assms(3,4) by (auto simp: blit_all)
    have same: "mc_remote m' = mc_remote m1" using write_remote_local [OF run] local_partD(2) by blast
    note wr = remote_written [OF add(1) w(2) _ same w(3), of ?h]
    show ?thesis using wr w(1,4) q(2) same add(2) by auto
  qed
qed

lemma rollback_nothing:
  assumes "mc_remote m (cb_handle b) = None"
  shows "rollback E b m = m \<lparr> mc_cache := snd (LRUCache_put (mc_cache m) (cb_handle b) (cb_data b) (cb_dirty b)) \<rparr>"
  using assms by (simp add: rollback_def)

lemma now_evict_loop: "evict_loop E n p m = (r, m') \<Longrightarrow> now m \<le> now m'"
proof (induction "length (lru_list (mc_cache m))" arbitrary: m rule: less_induct)
  case less
  show ?case
  proof (cases "(\<not> needs_eviction (mc_cache m) n \<and> \<not> p) \<or> lru_list (mc_cache m) = []")
    case True
    then show ?thesis using less.prems by (subst (asm) evict_loop.simps) (auto simp: evict_one_def split: if_splits)
  next
    case False
    obtain q m1 where push: "push_block E (last (lru_list (mc_cache m))) (m \<lparr> mc_cache := pop_last (mc_cache m) \<rparr>) = (q, m1)"
      by (metis surj_pair)
    have run: "(case q of Inr _ \<Rightarrow> evict_loop E n p m1
        | Inl e \<Rightarrow> (Inl e, if is_exception e then rollback E (last (lru_list (mc_cache m))) m1 else m1)) = (r, m')"
      using less.prems False push by (subst (asm) evict_loop.simps) (auto simp: evict_one_def split: sum.splits)
    have "mc_cache m1 = pop_last (mc_cache m)" using push_block_cache [OF push] by simp
    then have "length (lru_list (mc_cache m1)) < length (lru_list (mc_cache m))" using False by (simp add: pop_last_def)
    then show ?thesis using less.hyps [of m1] run now_push_block [OF push] now_rollback [of m1 "last (lru_list (mc_cache m))"]
      by (auto split: sum.splits if_splits)
  qed
qed

lemma contents_moved_out:
  assumes inv: "client_inv m" "evict_one (mc_cache m) = (Some b, c)"
    and m1: "mc_cache m1 = c" "rcont m1 = (rcont m)(cb_handle b \<mapsto> cb_data b)"
  shows "contents cell m1 = contents cell m"
proof
  fix h
  note b = evicted_block [OF inv]
  have lru: "lru_inv (mc_cache m)" using inv(1) by (simp add: client_inv_def)
  have "deref (mc_cache m) (cb_handle b) = Some b" using deref_iff [OF lru] b(1) by simp
  then show "contents cell m1 h = contents cell m h"
    using deref_pop [OF lru b(4), of h] b(2,3) m1 by (auto simp: contents_alt split: option.splits)
qed

lemma contents_put_back:
  assumes inv: "client_inv m" "evict_one (mc_cache m) = (Some b, c)"
    and m1: "mc_cache m1 = c" "rcont m1 = rcont m" "mc_remote m1 = mc_remote m"
  shows "contents cell (rollback E b m1) = contents cell m" "rcont (rollback E b m1) = rcont m"
proof -
  note b = evicted_block [OF inv]
  have lru: "lru_inv (mc_cache m)" using inv(1) by (simp add: client_inv_def)
  have none: "mc_remote m1 (cb_handle b) = None" using b(5) m1(3) by simp
  note restored = rollback_restores [OF lru b(4,2) m1(1) [unfolded b(3)] disjI1 [OF m1(3)] b(5), of E]
  show rc: "rcont (rollback E b m1) = rcont m" using rollback_nothing [OF none] m1(2) by simp
  have "deref (mc_cache (rollback E b m1)) h = deref (mc_cache m) h" for h
    using deref_cong [OF lru restored(2,4)] .
  then show "contents cell (rollback E b m1) = contents cell m" using rc by (intro ext) (simp add: contents_alt split: option.split)
qed

lemma evict_loop_ok:
  assumes "rinv m" "cache_inv room m" "evict_loop E n p m = (r, m')" "now m' < limit"
  shows "rinv m' \<and> contents cell m' = contents cell m \<and> (r = Inr () \<or> r = Inl out_of_memory) \<and>
    mc_next_local_handle m' = mc_next_local_handle m"
  using assms
proof (induction "length (lru_list (mc_cache m))" arbitrary: m rule: less_induct)
  case less
  have ci: "client_inv m" using less.prems(2) by (simp add: cache_inv_def)
  show ?case
  proof (cases "(\<not> needs_eviction (mc_cache m) n \<and> \<not> p) \<or> lru_list (mc_cache m) = []")
    case True
    then have "r = Inr ()" "m' = m"
      using less.prems(3) by (subst (asm) evict_loop.simps; auto simp: evict_one_def split: if_splits)+
    then show ?thesis using less.prems by simp
  next
    case go: False
    obtain b c where e: "evict_one (mc_cache m) = (Some b, c)" using go by (simp add: evict_one_def)
    note blk = evicted_block [OF ci e]
    obtain q m1 where push: "push_block E b (m \<lparr> mc_cache := c \<rparr>) = (q, m1)" by (metis surj_pair)
    have run: "(case q of Inr _ \<Rightarrow> evict_loop E n p m1
        | Inl err \<Rightarrow> (Inl err, if is_exception err then rollback E b m1 else m1)) = (r, m')"
      using less.prems(3) go e push by (subst (asm) evict_loop.simps) (auto split: sum.splits)
    have cache: "mc_cache m1 = c" using push_block_cache [OF push] by simp
    have nxt: "mc_next_local_handle m1 = mc_next_local_handle m" using push_block_next [OF push] by simp
    have "now m1 < limit"
      using run less.prems(4) now_rollback [of m1 b] by (auto split: sum.splits if_splits dest!: now_evict_loop)
    moreover have "0 < length (cb_data b)" "length (cb_data b) \<le> room"
      using less.prems(2) blk(1) by (auto simp: cache_inv_def)
    ultimately have m1: "rinv m1" "q = Inl out_of_memory \<and> mc_remote m1 = mc_remote m \<and> rcont m1 = rcont m \<or>
        q = Inr () \<and> (\<exists>a. mc_remote m1 = (mc_remote m)(cb_handle b \<mapsto> a)) \<and> rcont m1 = (rcont m)(cb_handle b \<mapsto> cb_data b)"
      using push_block_ok [OF _ _ _ _ push] less.prems(1) blk(5) by auto
    from m1(2) show ?thesis
    proof (elim disjE conjE exE)
      assume f: "q = Inl out_of_memory" "mc_remote m1 = mc_remote m" "rcont m1 = rcont m"
      then have out: "r = Inl out_of_memory" "m' = rollback E b m1" using run by (auto simp: is_exception_def)
      have none: "mc_remote m1 (cb_handle b) = None" using blk(5) f(2) by simp
      show ?thesis using contents_put_back(1) [OF ci e cache f(3,2)] m1(1) rollback_nothing [OF none] out nxt by simp
    next
      fix a
      assume s: "q = Inr ()" "mc_remote m1 = (mc_remote m)(cb_handle b \<mapsto> a)" "rcont m1 = (rcont m)(cb_handle b \<mapsto> cb_data b)"
      obtain a' where "mc_remote m1 = (mc_remote m)(cb_handle b \<mapsto> a')" "well_placed (length (cb_data b)) a'"
        using push_block_outcome [OF push blk(6)] s(1) by auto
      from evicted_moves [OF ci e cache this] have "cache_inv room m1" using cache_inv_moved less.prems(2) nxt by blast
      moreover have "length (lru_list (mc_cache m1)) < length (lru_list (mc_cache m))"
        using cache blk(3,4) by (simp add: pop_last_def)
      ultimately show ?thesis
        using less.hyps [of m1] m1(1) run s(1) less.prems(4) contents_moved_out [OF ci e cache s(3)] nxt by simp
    qed
  qed
qed

abbreviation minv :: "'w MemoryClient \<Rightarrow> bool" where "minv \<equiv> mem_inv good cell room"

lemma evict_if_needed_ok:
  assumes "minv m" "evict_if_needed E n m = (r, m')" "now m' < limit"
  shows "minv m'" "contents cell m' = contents cell m" "r = Inr () \<or> r = Inl out_of_memory"
    "mc_next_local_handle m' = mc_next_local_handle m" "max_bytes (mc_cache m') = max_bytes (mc_cache m)"
    "mc_remote m \<subseteq>\<^sub>m mc_remote m'" "r = Inr () \<Longrightarrow> \<not> needs_eviction (mc_cache m') n \<or> lru_list (mc_cache m') = []"
    "lru_map (mc_cache m') \<subseteq> lru_map (mc_cache m)" "dom (mc_remote m') \<subseteq> dom (mc_remote m) \<union> lru_map (mc_cache m)"
proof -
  obtain p where run: "evict_loop E n p m = (r, m')" using assms(2) by (auto simp: evict_if_needed_def Let_def)
  have inv: "rinv m" "cache_inv room m" "client_inv m" using assms(1) by (auto simp: mem_inv_def cache_inv_def)
  note ok = evict_loop_ok [OF inv(1,2) run assms(3)] and moved = evict_loop_moves [OF run inv(3)]
  then show "minv m'" using cache_inv_moved [OF inv(2)] by (auto simp: mem_inv_def)
  show "contents cell m' = contents cell m" "r = Inr () \<or> r = Inl out_of_memory"
    "mc_next_local_handle m' = mc_next_local_handle m" using ok by auto
  show "max_bytes (mc_cache m') = max_bytes (mc_cache m)" "mc_remote m \<subseteq>\<^sub>m mc_remote m'"
    "r = Inr () \<Longrightarrow> \<not> needs_eviction (mc_cache m') n \<or> lru_list (mc_cache m') = []"
    "dom (mc_remote m') \<subseteq> dom (mc_remote m) \<union> lru_map (mc_cache m)"
    using moved by (auto simp: moved_only_def)
  show "lru_map (mc_cache m') \<subseteq> lru_map (mc_cache m)"
    using moved inv(3) by (auto simp: moved_only_def client_inv_def lru_inv_def)
qed

lemma minvD:
  assumes "minv m"
  shows "rinv m" "cache_inv room m" "client_inv m" "lru_inv (mc_cache m)"
    "deref (mc_cache m) h = Some b \<Longrightarrow> mc_remote m h = None"
    "deref (mc_cache m) h = Some b \<Longrightarrow> 0 < length (cb_data b) \<and> length (cb_data b) \<le> room"
    "mc_next_local_handle m \<le> h \<Longrightarrow> deref (mc_cache m) h = None \<and> mc_remote m h = None"
proof -
  show inv: "rinv m" "cache_inv room m" "client_inv m" "lru_inv (mc_cache m)"
    using assms by (auto simp: mem_inv_def cache_inv_def client_inv_def)
  note map = deref_None [OF inv(4), of h]
  show "deref (mc_cache m) h = Some b \<Longrightarrow> mc_remote m h = None" using map inv(3) by (auto simp: client_inv_def)
  show "deref (mc_cache m) h = Some b \<Longrightarrow> 0 < length (cb_data b) \<and> length (cb_data b) \<le> room"
    using deref_iff [OF inv(4)] inv(2) by (auto simp: cache_inv_def)
  show "mc_next_local_handle m \<le> h \<Longrightarrow> deref (mc_cache m) h = None \<and> mc_remote m h = None"
    using map inv(2) unfolding cache_inv_def by (metis UnI1 UnI2 domIff linorder_not_less)
qed

text \<open>Putting a block into the cache, and reordering the cache.\<close>

lemma put_ok:
  assumes "minv m" "mc_remote m h = None" "h < mc_next_local_handle m" "0 < length data" "length data \<le> room"
    and "total_bytes (without h (lru_list (mc_cache m))) + length data \<le> max_bytes (mc_cache m)"
  obtains c where "LRUCache_put (mc_cache m) h data dirty = (True, c)" "minv (m \<lparr> mc_cache := c \<rparr>)"
    "contents cell (m \<lparr> mc_cache := c \<rparr>) = (contents cell m)(h \<mapsto> data)" "map_option cb_data (deref c h) = Some data"
proof -
  note inv = minvD [OF assms(1)]
  obtain c where c: "LRUCache_put (mc_cache m) h data dirty = (True, c)" "lru_inv c"
    and list: "lru_list c = \<lparr> cb_handle = h, cb_data = data, cb_dirty = dirty \<rparr> # without h (lru_list (mc_cache m))"
    and d: "\<And>x. map_option cb_data (deref c x) = (if x = h then Some data else map_option cb_data (deref (mc_cache m) x))"
    using put_with_room [OF inv(4) assms(6), of dirty] by metis
  have map: "lru_map c = insert h (lru_map (mc_cache m))"
    using lru_invD(5) [OF c(2)] lru_invD(5) [OF inv(4)] list by (auto simp: without_def)
  have "cache_inv room (m \<lparr> mc_cache := c \<rparr>)"
    using inv(2,3) c(2) map list assms(2-5) by (auto simp: cache_inv_def client_inv_def without_def)
  then have "minv (m \<lparr> mc_cache := c \<rparr>)" using inv(1) by (simp add: mem_inv_def)
  moreover have "contents cell (m \<lparr> mc_cache := c \<rparr>) = (contents cell m)(h \<mapsto> data)"
    by (intro ext) (simp add: contents_alt d split: option.split)
  ultimately show ?thesis using that [OF c(1)] d by simp
qed

lemma reorder_ok:
  assumes "minv m" "lru_inv c" "set (lru_list c) = set (lru_list (mc_cache m))"
  shows "minv (m \<lparr> mc_cache := c \<rparr>)" "contents cell (m \<lparr> mc_cache := c \<rparr>) = contents cell m"
proof -
  note inv = minvD [OF assms(1)]
  have "lru_map c = lru_map (mc_cache m)"
    using lru_invD(5) [OF assms(2)] lru_invD(5) [OF inv(4)] assms(3) by simp
  then show "minv (m \<lparr> mc_cache := c \<rparr>)" using inv(1,2,3) assms(2,3)
    by (auto simp: mem_inv_def cache_inv_def client_inv_def)
  show "contents cell (m \<lparr> mc_cache := c \<rparr>) = contents cell m"
    using deref_cong [OF inv(4) assms(2,3)] by (intro ext) (simp add: contents_alt split: option.split)
qed

lemma get_ok:
  assumes "minv m" "LRUCache_get (mc_cache m) h = (x, c)"
  shows "x = map_option cb_data (deref (mc_cache m) h)" "minv (m \<lparr> mc_cache := c \<rparr>)"
    "contents cell (m \<lparr> mc_cache := c \<rparr>) = contents cell m" "deref c k = deref (mc_cache m) k"
    "max_bytes c = max_bytes (mc_cache m)" "total_bytes (lru_list c) = total_bytes (lru_list (mc_cache m))"
proof -
  have lru: "lru_inv (mc_cache m)" using minvD(4) [OF assms(1)] .
  note get = LRUCache_get_ok [OF lru, of h]
  show "x = map_option cb_data (deref (mc_cache m) h)" using get(2) assms(2) by simp
  have c: "lru_inv c" using get(1) assms(2) by simp
  have set: "set (lru_list c) = set (lru_list (mc_cache m))"
  proof (cases "deref (mc_cache m) h")
    case None
    then show ?thesis using assms(2) deref_None [OF lru] by (simp add: LRUCache_get_def)
  next
    case (Some b)
    then have "lru_list c = b # filter (\<lambda>x. cb_handle x \<noteq> h) (lru_list (mc_cache m))"
      using assms(2) deref_None [OF lru, of h] by (auto simp: LRUCache_get_def)
    moreover have "b \<in> set (lru_list (mc_cache m))" using Some deref_iff [OF lru] by simp
    moreover have "x = b" if "x \<in> set (lru_list (mc_cache m))" "cb_handle x = h" for x
      using that Some deref_iff [OF lru, of h x] by simp
    ultimately show ?thesis by auto
  qed
  show "minv (m \<lparr> mc_cache := c \<rparr>)" "contents cell (m \<lparr> mc_cache := c \<rparr>) = contents cell m"
    using reorder_ok [OF assms(1) c set] by auto
  show "deref c k = deref (mc_cache m) k" by (rule deref_cong [OF lru c set])
  have "current_bytes c = current_bytes (mc_cache m)"
    using assms(2) by (auto simp: LRUCache_get_def split: if_splits option.splits)
  then show "total_bytes (lru_list c) = total_bytes (lru_list (mc_cache m))" using lru_invD(2) lru c by metis
  show "max_bytes c = max_bytes (mc_cache m)"
    using assms(2) by (auto simp: LRUCache_get_def split: if_splits option.splits)
qed

text \<open>The operations.\<close>

lemma contents_cached: "deref (mc_cache m) h = Some b \<Longrightarrow> contents cell m h = Some (cb_data b)"
  by (simp add: contents_def)

lemma contents_remote: "deref (mc_cache m) h = None \<Longrightarrow> contents cell m h = rcont m h"
  by (simp add: contents_def remote_contents_def)

lemma rcont_Some: "mc_remote m h = Some a \<Longrightarrow> rcont m h = Some (alloc_bytes cell m a)"
  by (simp add: remote_contents_def)

lemma contents_None: "contents cell m h = None \<longleftrightarrow> deref (mc_cache m) h = None \<and> mc_remote m h = None"
  by (simp add: contents_def split: option.split)

lemma length_remote:
  assumes "minv m" "mc_remote m h = Some a"
  shows "length (alloc_bytes cell m a) = ra_size a"
  using remote_invD(2,3) [OF minvD(1) [OF assms(1)] assms(2)] by (rule length_alloc_bytes)

text \<open>A block leaves the peers for the cache.\<close>

lemma fetch_ok:
  assumes "minv m" "mc_remote m h = Some a" "read_remote E True a 0 (ra_size a) m = (r, m1)" "now m1 < limit"
    and m2: "m2 = m1 \<lparr> mc_remote := (mc_remote m1)(h := None) \<rparr>"
  shows "r = Inr (alloc_bytes cell m a)" "minv m2" "contents cell m2 = (contents cell m)(h := None)" "mc_cache m2 = mc_cache m"
    "mc_next_local_handle m2 = mc_next_local_handle m"
proof -
  note inv = minvD [OF assms(1)]
  note a = remote_invD [OF inv(1)]
  have "r = Inr (peek 0 (ra_size a) (alloc_bytes cell m a))" and q: "quiet good cell (refs a) m m1"
    using read_remote_ok [OF a(1) a(2,3,4) [OF assms(2)] _ _ assms(3,4)] a(3) [OF assms(2)] by auto
  then show "r = Inr (alloc_bytes cell m a)" using length_remote [OF assms(1,2)] by (metis peek_all)
  have lp: "local_part m1 = local_part m" using local_part_read_remote assms(3) by (metis snd_conv)
  note same = local_partD [OF lp]
  show cache: "mc_cache m2 = mc_cache m" "mc_next_local_handle m2 = mc_next_local_handle m" using same m2 by auto
  note drop = remote_drop [OF inv(1) q assms(2) same(2), folded m2]
  have "mc_remote m2 = (mc_remote m)(h := None)" using same m2 by simp
  then have "cache_inv room m2" using inv(2) cache by (auto simp: cache_inv_def client_inv_def)
  then show "minv m2" using drop(1) by (simp add: mem_inv_def)
  have "deref (mc_cache m) h = None" using inv(5) [of h] assms(2) by (cases "deref (mc_cache m) h") auto
  then show "contents cell m2 = (contents cell m)(h := None)"
    using drop(2) cache(1) by (intro ext) (simp add: contents_alt split: option.split)
qed

lemma now_evict_if_needed: "evict_if_needed E n m = (r, m') \<Longrightarrow> now m \<le> now m'"
  by (auto simp: evict_if_needed_def Let_def dest: now_evict_loop)

lemma load_to_local_ok:
  assumes "minv m" "mc_remote m h = Some a" "ra_size a \<le> max_bytes (mc_cache m)"
    and "load_to_local E h m = (r, m')" "now m' < limit"
  shows "minv m'" "contents cell m' = contents cell m" "mc_next_local_handle m' = mc_next_local_handle m"
    "r = Inl out_of_memory \<or> r = Inr () \<and> map_option cb_data (deref (mc_cache m') h) = contents cell m h"
proof -
  obtain q m1 where ev: "evict_if_needed E (ra_size a) m = (q, m1)" by (metis surj_pair)
  obtain x m2 where rd: "read_remote E True a 0 (ra_size a) m1 = (x, m2)" by (metis surj_pair)
  have run: "(case q of Inl e \<Rightarrow> (Inl e, m1) | Inr _ \<Rightarrow> (case x of Inl e \<Rightarrow> (Inl e, m2)
      | Inr data \<Rightarrow> (Inr (), m2 \<lparr> mc_remote := (mc_remote m2)(h := None),
           mc_cache := snd (LRUCache_put (mc_cache m2) h data False) \<rparr>))) = (r, m')"
    using assms(2,4) ev rd by (auto simp: load_to_local_def split: sum.splits)
  have late: "now m1 < limit" "q = Inr () \<Longrightarrow> now m2 < limit"
    using run assms(5) now_read_remote [OF rd] by (auto split: sum.splits)
  note e = evict_if_needed_ok [OF assms(1) ev late(1)]
  from e(3) have "minv m' \<and> contents cell m' = contents cell m \<and> mc_next_local_handle m' = mc_next_local_handle m \<and>
      (r = Inl out_of_memory \<or> r = Inr () \<and> map_option cb_data (deref (mc_cache m') h) = contents cell m h)"
  proof
    assume "q = Inl out_of_memory"
    then show ?thesis using run e(1,2,4) by simp
  next
    assume q: "q = Inr ()"
    have a: "mc_remote m1 h = Some a" using e(6) assms(2) by (metis domI map_le_def)
    define m3 where "m3 = m2 \<lparr> mc_remote := (mc_remote m2)(h := None) \<rparr>"
    note f = fetch_ok [OF e(1) a rd late(2) [OF q] m3_def]
    let ?data = "alloc_bytes cell m1 a"
    have len: "length ?data = ra_size a" by (rule length_remote [OF e(1) a])
    have old: "contents cell m1 h = Some ?data"
      using contents_remote [of m1 h] rcont_Some [OF a] minvD(5) [OF e(1), of h] a by (cases "deref (mc_cache m1) h") auto
    have fit: "total_bytes (without h (lru_list (mc_cache m3))) + length ?data \<le> max_bytes (mc_cache m3)"
      using put_no_eviction [OF minvD(4) [OF f(2)], of ?data h] e(5,7) q f(4) len assms(3) by simp
    have size: "0 < length ?data" "length ?data \<le> room" using remote_invD(3,4) [OF minvD(1) [OF e(1)] a] len by auto
    have "h < mc_next_local_handle m3" "mc_remote m3 h = None"
      using minvD(7) [OF e(1), of h] a f(5) by (auto simp: m3_def) (meson linorder_not_less option.distinct(1))
    from put_ok [OF f(2) this(2,1) size fit, of False] obtain c where
      c: "LRUCache_put (mc_cache m3) h ?data False = (True, c)" "minv (m3 \<lparr> mc_cache := c \<rparr>)"
        "contents cell (m3 \<lparr> mc_cache := c \<rparr>) = (contents cell m3)(h \<mapsto> ?data)" "map_option cb_data (deref c h) = Some ?data" .
    have "r = Inr ()" "m' = m3 \<lparr> mc_cache := c \<rparr>" using run q f(1) c(1) by (auto simp: m3_def)
    then show ?thesis using c(2-4) f(3,5) e(2,4) old by (auto simp: fun_upd_idem)
  qed
  then show "minv m'" "contents cell m' = contents cell m" "mc_next_local_handle m' = mc_next_local_handle m"
    "r = Inl out_of_memory \<or> r = Inr () \<and> map_option cb_data (deref (mc_cache m') h) = contents cell m h" by auto
qed

definition refines :: "'w MemoryClient \<Rightarrow> client_op \<Rightarrow> client_result \<Rightarrow> 'w MemoryClient \<Rightarrow> bool" where
  "refines m op res m' \<longleftrightarrow> minv m' \<and> memory_step (contents cell m) op res (contents cell m') \<and>
     mc_next_local_handle m' \<le> Suc (mc_next_local_handle m)"

lemma next_handle_ok:
  assumes "minv m"
  shows "minv (m \<lparr> mc_next_local_handle := Suc (mc_next_local_handle m) \<rparr>)"
    "contents cell (m \<lparr> mc_next_local_handle := k \<rparr>) = contents cell m"
proof -
  show "minv (m \<lparr> mc_next_local_handle := Suc (mc_next_local_handle m) \<rparr>)"
    using assms unfolding mem_inv_def cache_inv_def client_inv_def by (auto intro: less_SucI)
  show "contents cell (m \<lparr> mc_next_local_handle := k \<rparr>) = contents cell m"
    by (intro ext) (simp add: contents_alt split: option.split)
qed

lemma allocate_big_ok:
  assumes "minv m" "0 < sz" "sz \<le> room" "h < mc_next_local_handle m" "deref (mc_cache m) h = None" "mc_remote m h = None"
    and "allocate_remote E h sz m = (r, m')" "now m' < limit"
  shows "minv m'" "mc_next_local_handle m' = mc_next_local_handle m"
    "r = Inl out_of_memory \<and> contents cell m' = contents cell m \<or>
     r = Inr () \<and> contents cell m' = (contents cell m)(h \<mapsto> replicate sz 0)"
proof -
  note inv = minvD [OF assms(1)]
  note al = allocate_remote_ok [OF remote_invD(1) [OF inv(1)] assms(2,3,7,8)]
  note same = allocate_remote_local(1,2) [OF assms(7)]
  show "mc_next_local_handle m' = mc_next_local_handle m" by (rule same(2))
  have cont: "contents cell m' = C" if "\<And>x. C x = (case map_option cb_data (deref (mc_cache m) x) of Some d \<Rightarrow> Some d | None \<Rightarrow> rcont m' x)" for C
    using that same(1) by (intro ext) (simp add: contents_alt)
  from al(2) have "minv m' \<and> (r = Inl out_of_memory \<and> contents cell m' = contents cell m \<or>
     r = Inr () \<and> contents cell m' = (contents cell m)(h \<mapsto> replicate sz 0))"
  proof (elim disjE conjE exE)
    assume q: "r = Inl out_of_memory" "mc_remote m' = mc_remote m"
    note u = remote_undisturbed [OF inv(1) al(1) q(2)]
    have "cache_inv room m'" using inv(2) same q(2) by (auto simp: cache_inv_def client_inv_def)
    moreover have "contents cell m' = contents cell m" using u(2) by (intro cont) (simp add: contents_alt split: option.split)
    ultimately show ?thesis using u(1) q(1) by (auto simp: mem_inv_def)
  next
    fix a
    assume q: "r = Inr ()" "mc_remote m' = (mc_remote m)(h \<mapsto> a)" "granted m sz a m'"
    note u = remote_add [OF inv(1) al(1) q(3,2) assms(2,3,6)]
    have "h \<notin> lru_map (mc_cache m)" using assms(5) deref_None [OF inv(4)] by simp
    then have "cache_inv room m'" using inv(2) same q(2) assms(4) by (auto simp: cache_inv_def client_inv_def)
    moreover have "contents cell m' = (contents cell m)(h \<mapsto> replicate sz 0)"
      using assms(5) u(2) by (intro cont) (auto simp: contents_alt split: option.split)
    ultimately show ?thesis using u(1) q(1) by (auto simp: mem_inv_def)
  qed
  then show "minv m'" "r = Inl out_of_memory \<and> contents cell m' = contents cell m \<or>
     r = Inr () \<and> contents cell m' = (contents cell m)(h \<mapsto> replicate sz 0)" by auto
qed

lemma allocate_small_ok:
  assumes "minv m" "0 < sz" "sz \<le> room" "h < mc_next_local_handle m" "contents cell m h = None" "sz \<le> max_bytes (mc_cache m)"
    and "evict_if_needed E sz m = (q, m1)" "now m1 < limit"
  shows "minv m1" "contents cell m1 = contents cell m" "mc_next_local_handle m1 = mc_next_local_handle m"
    "q = Inl out_of_memory \<or> q = Inr () \<and> (\<exists>c. LRUCache_put (mc_cache m1) h (replicate sz 0) False = (True, c) \<and>
       minv (m1 \<lparr> mc_cache := c \<rparr>) \<and> contents cell (m1 \<lparr> mc_cache := c \<rparr>) = (contents cell m)(h \<mapsto> replicate sz 0))"
proof -
  note e = evict_if_needed_ok [OF assms(1,7,8)]
  show "minv m1" "contents cell m1 = contents cell m" "mc_next_local_handle m1 = mc_next_local_handle m" using e by auto
  from e(3) show "q = Inl out_of_memory \<or> q = Inr () \<and> (\<exists>c. LRUCache_put (mc_cache m1) h (replicate sz 0) False = (True, c) \<and>
       minv (m1 \<lparr> mc_cache := c \<rparr>) \<and> contents cell (m1 \<lparr> mc_cache := c \<rparr>) = (contents cell m)(h \<mapsto> replicate sz 0))"
  proof
    assume q: "q = Inr ()"
    have "mc_remote m1 h = None" using e(2) assms(5) contents_None [of m1 h] by simp
    moreover have "total_bytes (without h (lru_list (mc_cache m1))) + length (replicate sz (0 :: byte)) \<le> max_bytes (mc_cache m1)"
      using put_no_eviction [OF minvD(4) [OF e(1)], of "replicate sz 0" h] e(5,7) q assms(6) by simp
    moreover have "h < mc_next_local_handle m1" using e(4) assms(4) by simp
    ultimately obtain c where "LRUCache_put (mc_cache m1) h (replicate sz 0) False = (True, c)" "minv (m1 \<lparr> mc_cache := c \<rparr>)"
        "contents cell (m1 \<lparr> mc_cache := c \<rparr>) = (contents cell m1)(h \<mapsto> replicate sz 0)"
      using put_ok [OF e(1), of h "replicate sz 0" False] assms(2,3) by auto
    then show ?thesis using q e(2) by simp
  qed simp
qed

lemma allocate_ok:
  assumes "minv m" "0 < sz" "sz \<le> room" "mc_next_local_handle m < SIZE_MAX" "allocate E sz m = (r, m')" "now m' < limit"
  shows "refines m (OpAllocate sz) (case r of Inl e \<Rightarrow> Thrown e | Inr h \<Rightarrow> Handle h) m'"
proof -
  define h where "h = mc_next_local_handle m"
  define m0 where "m0 = m \<lparr> mc_next_local_handle := Suc h \<rparr>"
  have "u64_add h 1 = Suc h" using assms(4) by (simp add: h_def SIZE_MAX_def u64_add_exact)
  then have m0': "m \<lparr> mc_next_local_handle := u64_add (mc_next_local_handle m) 1 \<rparr> = m0" by (simp add: m0_def h_def)
  have run: "(if max_bytes (mc_cache m0) < sz then
       (case allocate_remote E h sz m0 of (Inl e, m1) \<Rightarrow> (Inl e, m1) | (Inr _, m1) \<Rightarrow> (Inr h, m1))
     else case evict_if_needed E sz m0 of (Inl e, m1) \<Rightarrow> (Inl e, m1)
     | (Inr _, m1) \<Rightarrow> (case LRUCache_put (mc_cache m1) h (replicate sz 0) False of
         (False, c) \<Rightarrow> (Inl (RuntimeError ''Failed to cache allocation locally''), m1 \<lparr> mc_cache := c \<rparr>)
       | (True, c) \<Rightarrow> (Inr h, m1 \<lparr> mc_cache := c \<rparr>))) = (r, m')"
    using assms(5) unfolding allocate_def Let_def m0' h_def .
  have m0: "minv m0" "contents cell m0 = contents cell m" "mc_next_local_handle m0 = Suc (mc_next_local_handle m)"
    using next_handle_ok [OF assms(1)] by (auto simp: m0_def h_def)
  have new: "deref (mc_cache m0) h = None" "mc_remote m0 h = None" "h < mc_next_local_handle m0"
    using minvD(7) [OF assms(1), of h] by (auto simp: m0_def h_def)
  then have free: "contents cell m0 h = None" "contents cell m h = None" using contents_None [of m0 h] m0(2) by auto
  show ?thesis
  proof (cases "max_bytes (mc_cache m0) < sz")
    case True
    obtain q where al: "allocate_remote E h sz m0 = (q, m')" and r: "r = map_sum (\<lambda>e. e) (\<lambda>_. h) q"
      using run True by (auto split: prod.splits sum.splits)
    note big = allocate_big_ok [OF m0(1) assms(2,3) new(3,1,2) al assms(6)]
    from big(3) show ?thesis using big(1,2) r m0(2,3) free(2) by (auto simp: refines_def memory_step_simps)
  next
    case False
    obtain q m1 where ev: "evict_if_needed E sz m0 = (q, m1)" by (metis surj_pair)
    have "mc_world m1 = mc_world m'" using run False ev by (auto split: sum.splits prod.splits bool.splits)
    then have "now m1 < limit" using assms(6) by simp
    note small = allocate_small_ok [OF m0(1) assms(2,3) new(3) free(1) _ ev this]
    from small(4) False show ?thesis
      using run ev small(1-3) m0(2,3) free(2) by (auto simp: refines_def memory_step_simps)
  qed
qed

lemma free_cached_ok:
  assumes "minv m" "deref (mc_cache m) h = Some b"
  shows "minv (m \<lparr> mc_cache := erase_block (mc_cache m) b \<rparr>)"
    "contents cell (m \<lparr> mc_cache := erase_block (mc_cache m) b \<rparr>) = (contents cell m)(h := None)"
proof -
  note inv = minvD [OF assms(1)]
  let ?c = "erase_block (mc_cache m) b"
  note er = erase_block_ok [OF inv(4) assms(2)]
  have d: "deref ?c k = (if k = h then None else deref (mc_cache m) k)" for k
    using er(2) by (simp add: deref_def find_without)
  have "lru_map ?c \<subseteq> lru_map (mc_cache m)" "set (lru_list ?c) \<subseteq> set (lru_list (mc_cache m))"
    using lru_invD(5) [OF er(1)] lru_invD(5) [OF inv(4)] er(2) by (auto simp: without_def)
  then have "cache_inv room (m \<lparr> mc_cache := ?c \<rparr>)"
    using inv(2) er(1) by (auto simp: cache_inv_def client_inv_def)
  then show "minv (m \<lparr> mc_cache := ?c \<rparr>)" using inv(1) by (simp add: mem_inv_def)
  show "contents cell (m \<lparr> mc_cache := ?c \<rparr>) = (contents cell m)(h := None)"
    using inv(5) [OF assms(2)] d by (intro ext) (auto simp: contents_alt remote_contents_def split: option.split)
qed

lemma free_remote_block_ok:
  assumes "minv m" "mc_remote m h = Some a" "now (free_remote E a m) < limit"
    and m': "m' = (free_remote E a m) \<lparr> mc_remote := (mc_remote (free_remote E a m))(h := None) \<rparr>"
  shows "minv m'" "contents cell m' = (contents cell m)(h := None)"
proof -
  note inv = minvD [OF assms(1)]
  have q: "quiet good cell (refs a) m (free_remote E a m)"
    using free_remote_ok [OF remote_invD(1) [OF inv(1)] remote_invD(2) [OF inv(1) assms(2)] assms(3)] .
  note same = local_partD [OF local_part_free(3), of E a m]
  note drop = remote_drop [OF inv(1) q assms(2) same(2), folded m']
  have m2: "mc_cache m' = mc_cache m" "mc_remote m' = (mc_remote m)(h := None)"
    "mc_next_local_handle m' = mc_next_local_handle m" using same m' by auto
  have "cache_inv room m'" using inv(2) m2 by (auto simp: cache_inv_def client_inv_def)
  then show "minv m'" using drop(1) by (simp add: mem_inv_def)
  have "deref (mc_cache m) h = None" using inv(5) [of h] assms(2) by (cases "deref (mc_cache m) h") auto
  then show "contents cell m' = (contents cell m)(h := None)"
    using drop(2) m2(1) by (intro ext) (simp add: contents_alt split: option.split)
qed

lemma free_ok:
  assumes "minv m" "now (MemoryClient_free E h m) < limit"
  shows "refines m (OpFree h) Done (MemoryClient_free E h m)"
proof (cases "deref (mc_cache m) h")
  case (Some b)
  then have "h \<in> lru_map (mc_cache m)" using deref_None [OF minvD(4) [OF assms(1)]] by (metis option.distinct(1))
  then have "MemoryClient_free E h m = m \<lparr> mc_cache := erase_block (mc_cache m) b \<rparr>"
    using Some by (simp add: MemoryClient_free_def LRUCache_remove_def)
  then show ?thesis using free_cached_ok [OF assms(1) Some] by (simp add: refines_def memory_step_simps)
next
  case None
  then have "h \<notin> lru_map (mc_cache m)" using deref_None [OF minvD(4) [OF assms(1)]] by simp
  then have run: "MemoryClient_free E h m = (case mc_remote m h of None \<Rightarrow> m
      | Some a \<Rightarrow> (free_remote E a m) \<lparr> mc_remote := (mc_remote (free_remote E a m))(h := None) \<rparr>)"
    by (simp add: MemoryClient_free_def LRUCache_remove_def Let_def split: option.split)
  show ?thesis
  proof (cases "mc_remote m h")
    case None
    then have "contents cell m h = None" using \<open>deref (mc_cache m) h = None\<close> contents_None by blast
    then show ?thesis using run None assms(1) by (simp add: refines_def memory_step_simps fun_upd_idem)
  next
    case (Some a)
    then show ?thesis using run free_remote_block_ok [OF assms(1) Some _ refl] assms(2)
        local_partD(3) [OF local_part_free(3), of E a m]
      by (simp add: refines_def memory_step_simps)
  qed
qed

lemma out_of_bounds_iff: "out_of_bounds off n len \<longleftrightarrow> len < off + n"
  by (auto simp: out_of_bounds_def)

lemma read_cached_ok:
  assumes "contents cell m h = Some bs" "minv m'" "contents cell m' = contents cell m"
    and "mc_next_local_handle m' = mc_next_local_handle m"
  shows "refines m (OpRead h off n) (case read_cached off n bs of Inl e \<Rightarrow> Thrown e | Inr x \<Rightarrow> Bytes x) m'"
  using assms by (auto simp: refines_def read_cached_def out_of_bounds_iff memory_step_simps)

text \<open>Where the block of a handle is.\<close>

lemma block_cases:
  obtains (cached) b where "deref (mc_cache m) h = Some b"
  | (unknown) "deref (mc_cache m) h = None" "mc_remote m h = None"
  | (big) a where "deref (mc_cache m) h = None" "mc_remote m h = Some a" "max_bytes (mc_cache m) < ra_size a"
  | (small) a where "deref (mc_cache m) h = None" "mc_remote m h = Some a" "ra_size a \<le> max_bytes (mc_cache m)"
  by (cases "deref (mc_cache m) h"; cases "mc_remote m h") (auto simp: not_less [symmetric])

lemma get_none:
  assumes "minv m" "deref (mc_cache m) h = None"
  shows "LRUCache_get (mc_cache m) h = (None, mc_cache m)"
  using deref_None [OF minvD(4) [OF assms(1)]] assms(2) by (simp add: LRUCache_get_def)

lemma now_load_to_local: "load_to_local E h m = (r, m') \<Longrightarrow> now m \<le> now m'"
  by (auto simp: load_to_local_def dest!: now_evict_if_needed now_read_remote
      split: option.splits prod.splits sum.splits)

lemma read_big_ok:
  assumes "minv m" "0 < n" "MemoryClient_read E h off n m = (r, m')" "now m' < limit"
    and big: "deref (mc_cache m) h = None" "mc_remote m h = Some a" "max_bytes (mc_cache m) < ra_size a"
  shows "refines m (OpRead h off n) (case r of Inl e \<Rightarrow> Thrown e | Inr x \<Rightarrow> Bytes x) m'"
proof -
  have C: "contents cell m h = Some (alloc_bytes cell m a)" using contents_remote [OF big(1)] rcont_Some [OF big(2)] by simp
  note len = length_remote [OF assms(1) big(2)] and inv = minvD(1) [OF assms(1)]
  have run: "(if out_of_bounds off n (ra_size a) then (Inl (OutOfRange ''Read out of bounds''), m)
      else read_remote E False a off n m) = (r, m')"
    using assms(3) get_none [OF assms(1) big(1)] big by (simp add: MemoryClient_read_def oversized_remote_alloc_def)
  show ?thesis
  proof (cases "out_of_bounds off n (ra_size a)")
    case True
    then show ?thesis using run C len assms(1) by (auto simp: refines_def memory_step_simps out_of_bounds_iff)
  next
    case False
    then have rd: "read_remote E False a off n m = (r, m')" "off + n \<le> ra_size a" using run by (auto simp: out_of_bounds_iff)
    have ok: "r = Inr (peek off n (alloc_bytes cell m a))" "quiet good cell {} m m'"
      using read_remote_ok [OF remote_invD(1) [OF inv] remote_invD(2-4) [OF inv big(2)] rd(2) assms(2) rd(1) assms(4)] by auto
    have lp: "local_part m' = local_part m" using local_part_read_remote rd(1) by (metis snd_conv)
    note same = local_partD [OF lp] and u = remote_undisturbed [OF inv undisturbed_quiet [OF ok(2)] local_partD(2) [OF lp]]
    have "minv m'" using u(1) minvD(2) [OF assms(1)] same by (simp add: mem_inv_def cache_inv_def client_inv_def)
    moreover have "contents cell m' = contents cell m" using u(2) same(1) by (intro ext) (simp add: contents_alt split: option.split)
    ultimately show ?thesis using ok(1) C len rd(2) same(3) by (auto simp: refines_def memory_step_simps)
  qed
qed

lemma read_ok:
  assumes "minv m" "0 < n" "MemoryClient_read E h off n m = (r, m')" "now m' < limit"
  shows "refines m (OpRead h off n) (case r of Inl e \<Rightarrow> Thrown e | Inr x \<Rightarrow> Bytes x) m'"
proof (cases rule: block_cases [of m h])
  case (cached b)
  obtain x c where g: "LRUCache_get (mc_cache m) h = (x, c)" by (metis surj_pair)
  note got = get_ok [OF assms(1) g]
  have "r = read_cached off n (cb_data b)" "m' = m \<lparr> mc_cache := c \<rparr>"
    using assms(3) g got(1) cached by (auto simp: MemoryClient_read_def)
  then show ?thesis using read_cached_ok [OF contents_cached [OF cached] got(2,3)] by simp
next
  case unknown
  then have "r = Inl (InvalidArgument ''Invalid handle or block not found'')" "m' = m"
    using assms(3) get_none [OF assms(1) unknown(1)]
    by (auto simp: MemoryClient_read_def oversized_remote_alloc_def load_to_local_def)
  then show ?thesis using assms(1) unknown contents_None [of m h] by (simp add: refines_def memory_step_simps)
next
  case (big a)
  then show ?thesis by (rule read_big_ok [OF assms])
next
  case (small a)
  obtain q m1 where ld: "load_to_local E h m = (q, m1)" by (metis surj_pair)
  obtain x c where g: "LRUCache_get (mc_cache m1) h = (x, c)" by (metis surj_pair)
  have run: "(case q of Inl e \<Rightarrow> (Inl e, m1) | Inr _ \<Rightarrow> (case x of
      None \<Rightarrow> (Inl (RuntimeError ''Failed to load block from remote''), m1)
    | Some local \<Rightarrow> (read_cached off n local, m1 \<lparr> mc_cache := c \<rparr>))) = (r, m')"
    using assms(3) get_none [OF assms(1) small(1)] small ld g
    by (auto simp: MemoryClient_read_def oversized_remote_alloc_def split: sum.splits option.splits)
  have "now m1 < limit" using run assms(4) by (auto split: sum.splits option.splits)
  note l = load_to_local_ok [OF assms(1) small(2,3) ld this]
  have C: "contents cell m h = Some (alloc_bytes cell m a)" using contents_remote [OF small(1)] rcont_Some [OF small(2)] by simp
  from l(4) show ?thesis
  proof
    assume "q = Inl out_of_memory"
    then show ?thesis using run l(1-3) by (auto simp: refines_def memory_step_simps)
  next
    assume q: "q = Inr () \<and> map_option cb_data (deref (mc_cache m1) h) = contents cell m h"
    note got = get_ok [OF l(1) g]
    have "x = Some (alloc_bytes cell m a)" using got(1) q C by simp
    then have "r = read_cached off n (alloc_bytes cell m a)" "m' = m1 \<lparr> mc_cache := c \<rparr>" using run q by auto
    then show ?thesis using read_cached_ok [OF C got(2)] got(3) l(2,3) by simp
  qed
qed

text \<open>Writing to a cached block puts a block of the same size, for which there is room.\<close>

lemma write_cached_ok:
  assumes "minv m" "deref (mc_cache m) h = Some b" "mc_next_local_handle m = mc_next_local_handle m0" "contents cell m = contents cell m0"
    and "LRUCache_get (mc_cache m) h = (Some (cb_data b), c)" "write_cached h off d (cb_data b) c = (r, c')"
  shows "refines m0 (OpWrite h off d) (case r of Inl e \<Rightarrow> Thrown e | Inr _ \<Rightarrow> Done) (m \<lparr> mc_cache := c' \<rparr>)"
proof -
  note got = get_ok [OF assms(1,5)]
  have C: "contents cell m0 h = Some (cb_data b)" using contents_cached [OF assms(2)] assms(4) by simp
  show ?thesis
  proof (cases "out_of_bounds off (length d) (length (cb_data b))")
    case True
    then have "r = Inl (OutOfRange ''Write out of bounds'')" "c' = c" using assms(6) by (auto simp: write_cached_def)
    then show ?thesis using True C got(2,3) assms(3,4) by (auto simp: refines_def memory_step_simps out_of_bounds_iff)
  next
    case False
    then have fit: "off + length d \<le> length (cb_data b)" by (simp add: out_of_bounds_iff)
    have r: "r = Inr ()" "c' = snd (LRUCache_put c h (blit off d (cb_data b)) True)"
      using assms(6) False by (auto simp: write_cached_def)
    define m1 where "m1 = m \<lparr> mc_cache := c \<rparr>"
    have m1: "minv m1" "contents cell m1 = contents cell m" "deref (mc_cache m1) h = Some b" "mc_cache m1 = c"
      using got assms(2) by (auto simp: m1_def)
    obtain xs ys where xy: "lru_list c = xs @ b # ys" "without h (lru_list c) = xs @ ys"
      using deref_split [OF lru_invD(4) [OF minvD(4) [OF m1(1)]], of h b] m1(3,4) by (auto simp: deref_def without_def)
    have sz: "0 < length (cb_data b)" "length (cb_data b) \<le> room" "mc_remote m1 h = None" "h < mc_next_local_handle m1"
      using minvD(5,6) [OF m1(1,3)] minvD(7) [OF m1(1), of h] m1(3) by (auto simp: not_le [symmetric])
    have "total_bytes (without h (lru_list (mc_cache m1))) + length (blit off d (cb_data b)) \<le> max_bytes (mc_cache m1)"
      using xy lru_invD(2,3) [OF minvD(4) [OF m1(1)]] m1(4) fit by simp
    from put_ok [OF m1(1) sz(3,4) _ _ this, of True] obtain c2 where
      c2: "LRUCache_put (mc_cache m1) h (blit off d (cb_data b)) True = (True, c2)" "minv (m1 \<lparr> mc_cache := c2 \<rparr>)"
        "contents cell (m1 \<lparr> mc_cache := c2 \<rparr>) = (contents cell m1)(h \<mapsto> blit off d (cb_data b))"
      using sz(1,2) fit by auto
    have "m \<lparr> mc_cache := c' \<rparr> = m1 \<lparr> mc_cache := c2 \<rparr>" using r(2) c2(1) m1(4) by (simp add: m1_def)
    then show ?thesis using c2(2,3) r(1) C fit m1(2) assms(3,4) by (auto simp: refines_def memory_step_simps m1_def)
  qed
qed

lemma write_big_ok:
  assumes "minv m" "MemoryClient_write E h off d m = (r, m')" "now m' < limit"
    and big: "deref (mc_cache m) h = None" "mc_remote m h = Some a" "max_bytes (mc_cache m) < ra_size a"
  shows "refines m (OpWrite h off d) (case r of Inl e \<Rightarrow> Thrown e | Inr _ \<Rightarrow> Done) m'"
proof -
  have C: "contents cell m h = Some (alloc_bytes cell m a)" using contents_remote [OF big(1)] rcont_Some [OF big(2)] by simp
  note len = length_remote [OF assms(1) big(2)] and inv = minvD(1) [OF assms(1)]
  have run: "(if out_of_bounds off (length d) (ra_size a) then (Inl (OutOfRange ''Write out of bounds''), m)
      else write_remote E a off d m) = (r, m')"
    using assms(2) get_none [OF assms(1) big(1)] big by (simp add: MemoryClient_write_def oversized_remote_alloc_def)
  show ?thesis
  proof (cases "out_of_bounds off (length d) (ra_size a)")
    case True
    then show ?thesis using run C len assms(1) by (auto simp: refines_def memory_step_simps out_of_bounds_iff)
  next
    case False
    then have wr: "write_remote E a off d m = (r, m')" "off + length d \<le> ra_size a" using run by (auto simp: out_of_bounds_iff)
    have ok: "r = Inr ()" "quiet good cell (refs a) m m'" "held cell m' a" "alloc_bytes cell m' a = blit off d (alloc_bytes cell m a)"
      using write_remote_ok [OF remote_invD(1) [OF inv] remote_invD(2-4) [OF inv big(2)] wr(2,1) assms(3)] by auto
    note same = local_partD [OF write_remote_local [OF wr(1)]]
    note u = remote_written [OF inv ok(2) big(2) same(2) ok(3)]
    have "minv m'" using u(1) minvD(2) [OF assms(1)] same by (simp add: mem_inv_def cache_inv_def client_inv_def)
    moreover have "contents cell m' = (contents cell m)(h \<mapsto> blit off d (alloc_bytes cell m a))"
      using u(2) same(1) ok(4) big(1) by (intro ext) (simp add: contents_alt split: option.split)
    ultimately show ?thesis using ok(1) C len wr(2) same(3) by (auto simp: refines_def memory_step_simps)
  qed
qed

lemma write_ok:
  assumes "minv m" "MemoryClient_write E h off d m = (r, m')" "now m' < limit"
  shows "refines m (OpWrite h off d) (case r of Inl e \<Rightarrow> Thrown e | Inr _ \<Rightarrow> Done) m'"
proof (cases rule: block_cases [of m h])
  case (cached b)
  obtain x c where g: "LRUCache_get (mc_cache m) h = (x, c)" by (metis surj_pair)
  have x: "x = Some (cb_data b)" using get_ok(1) [OF assms(1) g] cached by simp
  obtain r' c' where w: "write_cached h off d (cb_data b) c = (r', c')" by (metis surj_pair)
  have "r = r'" "m' = m \<lparr> mc_cache := c' \<rparr>" using assms(2) g x w by (auto simp: MemoryClient_write_def)
  then show ?thesis using write_cached_ok [OF assms(1) cached refl refl g [unfolded x] w] by simp
next
  case unknown
  then have "r = Inl (InvalidArgument ''Invalid handle or block not found'')" "m' = m"
    using assms(2) get_none [OF assms(1) unknown(1)]
    by (auto simp: MemoryClient_write_def oversized_remote_alloc_def load_to_local_def)
  then show ?thesis using assms(1) unknown contents_None [of m h] by (simp add: refines_def memory_step_simps)
next
  case (big a)
  then show ?thesis by (rule write_big_ok [OF assms])
next
  case (small a)
  obtain q m1 where ld: "load_to_local E h m = (q, m1)" by (metis surj_pair)
  obtain x c where g: "LRUCache_get (mc_cache m1) h = (x, c)" by (metis surj_pair)
  have run: "(case q of Inl e \<Rightarrow> (Inl e, m1) | Inr _ \<Rightarrow> (case x of
      None \<Rightarrow> (Inl (RuntimeError ''Failed to load block from remote''), m1)
    | Some local \<Rightarrow> (case write_cached h off d local c of (r, c') \<Rightarrow> (r, m1 \<lparr> mc_cache := c' \<rparr>)))) = (r, m')"
    using assms(2) get_none [OF assms(1) small(1)] small ld g
    by (auto simp: MemoryClient_write_def oversized_remote_alloc_def split: sum.splits option.splits)
  have "now m1 < limit" using run assms(3) by (auto split: sum.splits option.splits prod.splits)
  note l = load_to_local_ok [OF assms(1) small(2,3) ld this]
  from l(4) show ?thesis
  proof
    assume "q = Inl out_of_memory"
    then show ?thesis using run l(1-3) by (auto simp: refines_def memory_step_simps)
  next
    assume q: "q = Inr () \<and> map_option cb_data (deref (mc_cache m1) h) = contents cell m h"
    then obtain b where b: "deref (mc_cache m1) h = Some b"
      using contents_remote [OF small(1)] rcont_Some [OF small(2)] by auto
    then have x: "x = Some (cb_data b)" using get_ok(1) [OF l(1) g] by simp
    obtain r' c' where w: "write_cached h off d (cb_data b) c = (r', c')" by (metis surj_pair)
    have "r = r'" "m' = m1 \<lparr> mc_cache := c' \<rparr>" using run q x w by auto
    then show ?thesis using write_cached_ok [OF l(1) b l(3,2) g [unfolded x] w] by simp
  qed
qed

lemma now_free: "now m \<le> now (MemoryClient_free E h m)"
  using now_free_remote by (auto simp: MemoryClient_free_def Let_def split: prod.split bool.split option.split)

lemma now_read: "MemoryClient_read E h off n m = (r, m') \<Longrightarrow> now m \<le> now m'"
  by (auto simp: MemoryClient_read_def dest!: now_load_to_local now_read_remote
      split: if_splits option.splits prod.splits sum.splits)

lemma now_write: "MemoryClient_write E h off d m = (r, m') \<Longrightarrow> now m \<le> now m'"
  by (auto simp: MemoryClient_write_def dest!: now_load_to_local now_write_remote
      split: if_splits option.splits prod.splits sum.splits)

lemma now_allocate: "allocate E sz m = (r, m') \<Longrightarrow> now m \<le> now m'"
  by (auto simp: allocate_def Let_def dest!: now_allocate_remote now_evict_if_needed
      split: if_splits prod.splits sum.splits bool.splits)

lemma now_apply: "client_apply E op m = (res, m') \<Longrightarrow> now m \<le> now m'"
  by (cases op) (auto simp: result_of_def on_memory_pressure_def now_free
      dest!: now_read now_write now_allocate now_evict_if_needed split: prod.splits sum.splits)

lemma now_run: "client_run E ops m = (rs, m') \<Longrightarrow> now m \<le> now m'"
  by (induction ops arbitrary: m rs) (fastforce dest: now_apply split: prod.splits)+

lemma result_of_cases:
  assumes "result_of f p = (res, m')"
  obtains r where "p = (r, m')" "res = (case r of Inl e \<Rightarrow> Thrown e | Inr x \<Rightarrow> f x)"
  using assms by (cases p) (auto simp: result_of_def split: sum.splits)

lemma step_refines:
  assumes "minv m" "op_ok room op" "mc_next_local_handle m < SIZE_MAX" "client_apply E op m = (res, m')" "now m' < limit"
  shows "refines m op res m'"
proof (cases op)
  case (OpAllocate sz)
  then have "result_of Handle (allocate E sz m) = (res, m')" "0 < sz" "sz \<le> room" using assms(2,4) by (auto simp: op_ok_def)
  then show ?thesis using allocate_ok [OF assms(1) _ _ assms(3) _ assms(5)] OpAllocate by (elim result_of_cases) simp
next
  case (OpFree h)
  then show ?thesis using assms(1,4,5) free_ok by auto
next
  case (OpRead h off n)
  then have "result_of Bytes (MemoryClient_read E h off n m) = (res, m')" "0 < n" using assms(2,4) by (auto simp: op_ok_def)
  then show ?thesis using read_ok [OF assms(1) _ _ assms(5)] OpRead by (elim result_of_cases) simp
next
  case (OpWrite h off d)
  then have "result_of (\<lambda>_. Done) (MemoryClient_write E h off d m) = (res, m')" using assms(4) by simp
  then show ?thesis using write_ok [OF assms(1) _ assms(5)] OpWrite by (elim result_of_cases) simp
next
  case OpPressure
  then have "result_of (\<lambda>_. Done) (evict_if_needed E (max (current_bytes (mc_cache m) div 2) 1048576) m) = (res, m')"
    using assms(4) by (simp add: on_memory_pressure_def)
  then obtain q where run: "evict_if_needed E (max (current_bytes (mc_cache m) div 2) 1048576) m = (q, m')"
    and res: "res = (case q of Inl e \<Rightarrow> Thrown e | Inr _ \<Rightarrow> Done)" by (rule result_of_cases)
  note e = evict_if_needed_ok [OF assms(1) run assms(5)]
  from e(3) show ?thesis using e(1,2,4) res OpPressure by (auto simp: refines_def memory_step_simps)
qed

lemma run_refines:
  assumes "minv m" "\<forall>op \<in> set ops. op_ok room op" "mc_next_local_handle m + length ops \<le> SIZE_MAX"
    and "client_run E ops m = (rs, m')" "now m' < limit"
  shows "minv m' \<and> memory_run (contents cell m) ops rs (contents cell m')"
  using assms(1-4)
proof (induction ops arbitrary: m rs)
  case Nil
  then show ?case by (auto intro: memory_run.intros)
next
  case (Cons op ops)
  obtain r m1 where one: "client_apply E op m = (r, m1)" by (metis surj_pair)
  obtain rs1 m2 where rest: "client_run E ops m1 = (rs1, m2)" by (metis surj_pair)
  have out: "rs = r # rs1" "m2 = m'" using Cons.prems(4) one rest by auto
  have "now m1 < limit" using now_run [OF rest] out(2) assms(5) by simp
  then have r1: "refines m op r m1" using step_refines [OF Cons.prems(1) _ _ one] Cons.prems(2,3) by simp
  then have "minv m' \<and> memory_run (contents cell m1) ops rs1 (contents cell m')"
    using Cons.IH [OF _ _ _ rest [unfolded out(2)]] Cons.prems(2,3) by (auto simp: refines_def)
  then show ?case using r1 out(1) by (auto simp: refines_def intro: memory_run.intros)
qed

end

end
