(* ===== verification/Wire.thy ===== *)
theory Wire
  imports Common
begin

text \<open>
  A concrete byte encoding for messages, to instantiate the parameters that stand for the
  generated FlatBuffers code. An encoder and a decoder form a \<open>codec\<close> when decoding an encoded
  value followed by other bytes gives the value and those bytes back; codecs are closed under
  pairs, options, lists and isomorphisms, which is how the message records get theirs.
\<close>

locale codec =
  fixes enc :: "'a \<Rightarrow> bytes" and dec :: "bytes \<Rightarrow> 'a \<times> bytes"
  assumes dec_enc: "dec (enc x @ rest) = (x, rest)"
begin

lemma dec_enc_Nil: "dec (enc x) = (x, [])"
  using dec_enc [of x "[]"] by simp

lemma enc_inject: "enc x = enc y \<longleftrightarrow> x = y"
  by (metis dec_enc_Nil fst_conv)

end

section \<open>Numbers\<close>

text \<open>Seven bits per byte, least significant first; the high bit says that more follow.\<close>

fun enc_nat :: "nat \<Rightarrow> bytes" where
  "enc_nat n = (if n < 128 then [of_nat n] else of_nat (n mod 128 + 128) # enc_nat (n div 128))"

fun dec_nat :: "bytes \<Rightarrow> nat \<times> bytes" where
  "dec_nat [] = (0, [])"
| "dec_nat (b # bs) =
    (if unat b < 128 then (unat b, bs) else (case dec_nat bs of (n, rest) \<Rightarrow> (unat b - 128 + 128 * n, rest)))"

declare enc_nat.simps [simp del]

lemma unat_byte: "n < 256 \<Longrightarrow> unat (of_nat n :: byte) = n"
  by (simp add: unat_of_nat take_bit_eq_mod)

interpretation nat_codec: codec enc_nat dec_nat
proof
  show "dec_nat (enc_nat n @ rest) = (n, rest)" for n rest
  proof (induction n rule: enc_nat.induct)
    case (1 n)
    show ?case
    proof (cases "n < 128")
      case True
      then show ?thesis by (simp add: enc_nat.simps unat_byte)
    next
      case False
      have "n mod 128 + 128 < 256" by simp
      from unat_byte [OF this] show ?thesis
        using 1 False by (subst enc_nat.simps) simp
    qed
  qed
qed

definition enc_word :: "'a :: len word \<Rightarrow> bytes" where
  "enc_word w = enc_nat (unat w)"

definition dec_word :: "bytes \<Rightarrow> 'a :: len word \<times> bytes" where
  "dec_word bs = (case dec_nat bs of (n, rest) \<Rightarrow> (of_nat n, rest))"

interpretation word_codec: codec enc_word dec_word
  by unfold_locales (simp add: enc_word_def dec_word_def nat_codec.dec_enc)

definition enc_int :: "int \<Rightarrow> bytes" where
  "enc_int i = enc_nat (if i < 0 then 2 * nat (- i) + 1 else 2 * nat i)"

definition dec_int :: "bytes \<Rightarrow> int \<times> bytes" where
  "dec_int bs = (case dec_nat bs of (n, rest) \<Rightarrow> (if odd n then - int (n div 2) else int (n div 2), rest))"

interpretation int_codec: codec enc_int dec_int
  by unfold_locales (simp add: enc_int_def dec_int_def nat_codec.dec_enc)

definition enc_bool :: "bool \<Rightarrow> bytes" where
  "enc_bool b = [if b then 1 else 0]"

definition dec_bool :: "bytes \<Rightarrow> bool \<times> bytes" where
  "dec_bool bs = (hd bs = 1, tl bs)"

interpretation bool_codec: codec enc_bool dec_bool
  by unfold_locales (simp add: enc_bool_def dec_bool_def)

definition enc_char :: "char \<Rightarrow> bytes" where
  "enc_char ch = enc_nat (of_char ch)"

definition dec_char :: "bytes \<Rightarrow> char \<times> bytes" where
  "dec_char bs = (case dec_nat bs of (n, rest) \<Rightarrow> (char_of n, rest))"

interpretation char_codec: codec enc_char dec_char
  by unfold_locales (simp add: enc_char_def dec_char_def nat_codec.dec_enc)

section \<open>Structures\<close>

definition enc_pair :: "('a \<Rightarrow> bytes) \<Rightarrow> ('b \<Rightarrow> bytes) \<Rightarrow> 'a \<times> 'b \<Rightarrow> bytes" where
  "enc_pair ea eb p = ea (fst p) @ eb (snd p)"

definition dec_pair :: "(bytes \<Rightarrow> 'a \<times> bytes) \<Rightarrow> (bytes \<Rightarrow> 'b \<times> bytes) \<Rightarrow> bytes \<Rightarrow> ('a \<times> 'b) \<times> bytes" where
  "dec_pair da db bs = (case da bs of (a, r) \<Rightarrow> case db r of (b, r') \<Rightarrow> ((a, b), r'))"

lemma codec_pair:
  assumes "codec ea da" "codec eb db"
  shows "codec (enc_pair ea eb) (dec_pair da db)"
  using assms by (simp add: codec_def enc_pair_def dec_pair_def)

definition enc_option :: "('a \<Rightarrow> bytes) \<Rightarrow> 'a option \<Rightarrow> bytes" where
  "enc_option e x = (case x of None \<Rightarrow> [0] | Some a \<Rightarrow> 1 # e a)"

definition dec_option :: "(bytes \<Rightarrow> 'a \<times> bytes) \<Rightarrow> bytes \<Rightarrow> 'a option \<times> bytes" where
  "dec_option d bs = (if hd bs = 0 then (None, tl bs) else (case d (tl bs) of (a, r) \<Rightarrow> (Some a, r)))"

lemma codec_option:
  assumes "codec e d"
  shows "codec (enc_option e) (dec_option d)"
  using assms by (simp add: codec_def enc_option_def dec_option_def split: option.split)

definition enc_list :: "('a \<Rightarrow> bytes) \<Rightarrow> 'a list \<Rightarrow> bytes" where
  "enc_list e xs = enc_nat (length xs) @ concat (map e xs)"

primrec dec_many :: "(bytes \<Rightarrow> 'a \<times> bytes) \<Rightarrow> nat \<Rightarrow> bytes \<Rightarrow> 'a list \<times> bytes" where
  "dec_many d 0 bs = ([], bs)"
| "dec_many d (Suc n) bs = (case d bs of (a, r) \<Rightarrow> case dec_many d n r of (as, r') \<Rightarrow> (a # as, r'))"

definition dec_list :: "(bytes \<Rightarrow> 'a \<times> bytes) \<Rightarrow> bytes \<Rightarrow> 'a list \<times> bytes" where
  "dec_list d bs = (case dec_nat bs of (n, r) \<Rightarrow> dec_many d n r)"

lemma codec_list:
  assumes "codec e d"
  shows "codec (enc_list e) (dec_list d)"
proof
  fix xs rest
  have "dec_many d (length xs) (concat (map e xs) @ rest) = (xs, rest)"
    by (induction xs) (simp_all add: codec.dec_enc [OF assms])
  then show "dec_list d (enc_list e xs @ rest) = (xs, rest)"
    by (simp add: enc_list_def dec_list_def nat_codec.dec_enc)
qed

text \<open>A record is encoded as the tuple of its fields.\<close>

lemma codec_iso:
  assumes "codec e d" "\<And>x. g (f x) = x"
  shows "codec (\<lambda>x. e (f x)) (\<lambda>bs. case d bs of (y, r) \<Rightarrow> (g y, r))"
  using assms by (simp add: codec_def)

abbreviation enc_bytes :: "bytes \<Rightarrow> bytes" where "enc_bytes \<equiv> enc_list enc_word"
abbreviation dec_bytes :: "bytes \<Rightarrow> bytes \<times> bytes" where "dec_bytes \<equiv> dec_list dec_word"
abbreviation enc_string :: "string \<Rightarrow> bytes" where "enc_string \<equiv> enc_list enc_char"
abbreviation dec_string :: "bytes \<Rightarrow> string \<times> bytes" where "dec_string \<equiv> dec_list dec_char"

lemmas codec_basic = nat_codec.codec_axioms word_codec.codec_axioms int_codec.codec_axioms bool_codec.codec_axioms char_codec.codec_axioms

lemmas codec_intros = codec_basic codec_pair codec_option codec_list

end
