(* ===== verification/Cluster.thy ===== *)
theory Cluster
  imports ClientMemory ClientSession Wire
begin

text \<open>
  One client and several memory daemons, joined. A remote call of the client travels as the
  frame its codec builds; the daemon's session reads it, serves it and queues the reply; the
  client's framing loop takes the reply from the connection. Between two calls each daemon
  serves any frames of other sessions. The theory shows that such daemons are the peers
  \<open>peer_memory\<close> asks for, so that client and daemons together implement one memory.
\<close>

section \<open>The joined system\<close>

text \<open>\<open>node_others k i\<close> are the frames of other sessions that daemon \<open>i\<close> serves before the
  request that makes its clock pass \<open>k\<close>; \<open>node_order\<close> is the iteration order of a sweep.\<close>

record cluster_setup =
  cl_codec :: memory_codec
  cl_size :: "bytes \<Rightarrow> uint32"
  cl_others :: "nat \<Rightarrow> nat \<Rightarrow> (nat \<times> bytes) list"
  cl_order :: "nat list"
  cl_sid :: "nat \<Rightarrow> nat"

record cluster_state =
  cs_nodes :: "(ClientSession \<times> PageTracker) list"
  cs_served :: nat

definition cluster_call ::
  "cluster_setup \<Rightarrow> nat \<Rightarrow> bytes \<Rightarrow> cluster_state \<Rightarrow> bytes option \<times> nat list \<times> cluster_state" where
  "cluster_call S i payload w =
    (let w1 = w \<lparr> cs_served := cs_served w + Suc (length (cl_others S (cs_served w) i)) \<rparr> in
     if length (cs_nodes w) \<le> i then (None, [], w1)
     else case cs_nodes w ! i of (s, t) \<Rightarrow>
       let t0 = snd (serve_frames (cl_codec S) (cl_others S (cs_served w) i) t) in
       if 0 < close_calls s then (Some [], [i], w1 \<lparr> cs_nodes := (cs_nodes w)[i := (s, t0)] \<rparr>)
       else case ClientSession_on_read (cl_codec S) (cl_size S) s t0 (Data payload) of
         (Inl e, t') \<Rightarrow> (Some [], [i], w1 \<lparr> cs_nodes := (cs_nodes w)[i := (uv_close_session s, t')] \<rparr>)
       | (Inr s', t') \<Rightarrow>
           if 0 < close_calls s'
           then (Some [], [i], w1 \<lparr> cs_nodes := (cs_nodes w)[i := (s', on_close_handle (cl_order S) s' t')] \<rparr>)
           else case peer_frames (cl_codec S) (cl_size S) (concat (drop (length (outbox s)) (outbox s'))) of
             (rs, rest, closed) \<Rightarrow>
               (map_of rs (req_request_id (get_request (cl_codec S) payload)), [],
                w1 \<lparr> cs_nodes := (cs_nodes w)[i := (s', t')] \<rparr>))"

definition cluster_env :: "cluster_setup \<Rightarrow> cluster_state env" where
  "cluster_env S = \<lparr> env_codec = cl_codec S, env_call = cluster_call S, env_now = 0, env_rounds = (\<lambda>_. []),
     env_available_bytes = (\<lambda>_. 0) \<rparr>"

section \<open>What is asked of the generated code\<close>

definition opt_length :: "bytes option \<Rightarrow> nat" where
  "opt_length d = (case d of None \<Rightarrow> 0 | Some b \<Rightarrow> length b)"

text \<open>A built message starts with its size, verifies and reads back as what was built, and is at
  most \<open>K\<close> bytes longer than its payload.\<close>

definition well_framed :: "(bytes \<Rightarrow> uint32) \<Rightarrow> nat \<Rightarrow> nat \<Rightarrow> bytes \<Rightarrow> bool" where
  "well_framed ps K n f \<longleftrightarrow> 4 \<le> length f \<and> unat (ps (take 4 f)) = length f - 4 \<and> length f \<le> K + n"

definition memory_codec_ok :: "memory_codec \<Rightarrow> (bytes \<Rightarrow> uint32) \<Rightarrow> nat \<Rightarrow> bool" where
  "memory_codec_ok c ps K \<longleftrightarrow>
    (\<forall>q. opt_length (req_data q) \<le> MAX_MESSAGE_SIZE \<longrightarrow>
       well_framed ps K (opt_length (req_data q)) (finish_request c q) \<and>
       verify_request c (finish_request c q) \<and> get_request c (finish_request c q) = q) \<and>
    (\<forall>r. opt_length (resp_data r) \<le> MAX_MESSAGE_SIZE \<longrightarrow> length (resp_message r) \<le> 64 \<longrightarrow>
       well_framed ps K (opt_length (resp_data r)) (finish_response c r) \<and>
       verify_response c (finish_response c r) \<and> get_response c (finish_response c r) = r)"

lemma memory_codec_okD:
  assumes "memory_codec_ok c ps K"
  shows "opt_length (req_data q) \<le> MAX_MESSAGE_SIZE \<Longrightarrow> well_framed ps K (opt_length (req_data q)) (finish_request c q)"
    "opt_length (req_data q) \<le> MAX_MESSAGE_SIZE \<Longrightarrow> verify_request c (finish_request c q)"
    "opt_length (req_data q) \<le> MAX_MESSAGE_SIZE \<Longrightarrow> get_request c (finish_request c q) = q"
    "opt_length (resp_data r) \<le> MAX_MESSAGE_SIZE \<Longrightarrow> length (resp_message r) \<le> 64 \<Longrightarrow>
      well_framed ps K (opt_length (resp_data r)) (finish_response c r)"
    "opt_length (resp_data r) \<le> MAX_MESSAGE_SIZE \<Longrightarrow> length (resp_message r) \<le> 64 \<Longrightarrow> verify_response c (finish_response c r)"
    "opt_length (resp_data r) \<le> MAX_MESSAGE_SIZE \<Longrightarrow> length (resp_message r) \<le> 64 \<Longrightarrow> get_response c (finish_response c r) = r"
  using assms unfolding memory_codec_ok_def by blast+

section \<open>One frame, one reply\<close>

lemma on_read_frame:
  assumes "read_buffer s = []" "4 \<le> length f" "unat (ps (take 4 f)) = length f - 4" "length f - 4 \<le> MAX_MESSAGE_SIZE"
    and "process_request c t (session_id s) f = (Inr resp, t')" "resp \<noteq> []" "close_calls s = 0"
  shows "ClientSession_on_read c ps s t (Data f) = (Inr (s \<lparr> outbox := outbox s @ [resp] \<rparr>), t')"
proof -
  have n: "length f = unat (ps (take 4 f)) + 4" "unat (ps (take 4 f)) \<le> MAX_MESSAGE_SIZE" "unat (ps (take 4 f)) \<le> length f - 4"
    using assms(2,3,4) by linarith+
  have h: "ClientSession_handle_request c s t (take (length f) f) = (Inr (send_response s resp), t')"
    using assms(5,6) by (simp add: ClientSession_handle_request_def)
  have "process_buffer c ps (s \<lparr> read_buffer := f \<rparr>) t =
      process_buffer c ps ((send_response s resp) \<lparr> read_buffer := [] \<rparr>) t'"
    unfolding process_buffer_frame [where b = f and ps = ps, OF assms(2) n(2,3,1)] h by simp
  also have "\<dots> = (Inr (s \<lparr> outbox := outbox s @ [resp] \<rparr>), t')"
  proof -
    have "(send_response s resp) \<lparr> read_buffer := [] \<rparr> = s \<lparr> outbox := outbox s @ [resp] \<rparr>"
      using assms(1,7) by (cases s) (simp add: send_response_def)
    then show ?thesis using process_buffer_stuck [of ps "s \<lparr> outbox := outbox s @ [resp] \<rparr>" c t'] assms(1)
      by (simp add: stuck_def)
  qed
  finally show ?thesis using assms(1) by (simp add: ClientSession_on_read_def)
qed

lemma serve_frames_next:
  assumes "tracker_inv t" "next_handle t + length fs \<le> SIZE_MAX" "serve_frames c fs t = (rs, t')"
  shows "next_handle t' \<le> next_handle t + length fs"
  using assms
proof (induction fs arbitrary: t rs)
  case (Cons f fs)
  obtain r t1 where p: "process_request c t (fst f) (snd f) = (r, t1)" by (metis surj_pair)
  obtain rs1 t2 where q: "serve_frames c fs t1 = (rs1, t2)" by (metis surj_pair)
  have "tracker_inv t1 \<and> next_handle t1 \<le> Suc (next_handle t) \<and> (\<exists>out. r = Inr out)"
    using Cons.prems p by (intro process_step) auto
  then show ?case using Cons.IH [of t1 rs1] Cons.prems(2,3) p q by auto
qed simp

section \<open>Requests of the owner\<close>

text \<open>The blocks this client owns.\<close>

definition owned :: "nat \<Rightarrow> PageTracker \<Rightarrow> uint64 \<rightharpoonup> bytes" where
  "owned sid t h = (case blocks (store_of t) (unat h) of
     Some (ow, bs) \<Rightarrow> if ow = sid then Some bs else None | None \<Rightarrow> None)"

lemma owned_iff: "owned sid t h = Some bs \<longleftrightarrow> blocks (store_of t) (unat h) = Some (sid, bs)"
  by (auto simp: owned_def split: option.splits)

lemma owned_length: "tracker_inv t \<Longrightarrow> owned sid t h = Some bs \<Longrightarrow> length bs < W64"
  unfolding owned_iff using tracker_invD(4) [of t "unat h"] block_facts(3) [of t "unat h"]
  by (auto simp: allocation_ok_def)

lemma spec_allocate_blocks:
  "spec_allocate st n = (Inr h, st') \<Longrightarrow> 0 < n \<Longrightarrow>
    h = next_block st \<and> blocks st' = (blocks st)(h \<mapsto> (0, replicate n 0))"
  by (auto simp: spec_allocate_def split: if_splits)

lemma spec_owner_blocks:
  assumes "blocks st h = Some (ow, bs)"
  shows "off + length d \<le> length bs \<Longrightarrow> \<exists>st'. spec_write st h off d ow = (Inr (), st') \<and>
      blocks st' = (blocks st)(h \<mapsto> (ow, blit off d bs))"
    "off + n \<le> length bs \<Longrightarrow> 0 < n \<Longrightarrow> spec_read st h off n ow = Inr (peek off n bs)"
    "\<exists>st'. spec_free st h ow = (Inr (), st') \<and> blocks st' = (blocks st)(h := None)"
  using assms by (auto simp: spec_write_def spec_read_def spec_free_def spec_check_def spec_drop_def fun_upd_idem)

text \<open>A tracker operation that touches one block at most leaves the others with their owner.\<close>

lemma owned_other:
  assumes "blocks (store_of t') = (blocks (store_of t))(k := x)" "owned sid t h = Some bs" "unat h \<noteq> k"
  shows "owned sid t' h = Some bs"
  using assms by (simp add: owned_iff del: store_of_simps)

lemma unat_handle: "n < W64 \<Longrightarrow> unat (of_nat n :: uint64) = n"
  by (simp add: W64_def unat_of_nat take_bit_eq_mod)

lemma version_ok [simp]: "check_protocol_version MEMINFO_PROTOCOL_VERSION"
  by (simp add: check_protocol_version_def)

lemma answer_alloc:
  assumes inv: "tracker_inv t" "next_handle t < SIZE_MAX" and sz: "0 < sz" "sz < W64" and sid: "sid \<noteq> 0"
    and ans: "answer_request t sid (alloc_request q sz) = (r, t')"
  shows "\<exists>resp. r = Inr resp \<and> resp_data resp = None \<and> length (resp_message resp) \<le> 64 \<and> resp_request_id resp = q \<and>
    (resp_status resp = OK \<longrightarrow> owned sid t (resp_handle resp) = None \<and> owned sid t' (resp_handle resp) = Some (replicate sz 0)) \<and>
    (\<forall>h bs. owned sid t h = Some bs \<longrightarrow> owned sid t' h = Some bs)"
proof -
  obtain x t1 where al: "PageTracker_allocate t sz = (x, t1)" by (metis surj_pair)
  from tracker.al_ok [OF inv(1) _ sz(2) al] inv(2)
  have t1: "tracker_inv t1" "spec_allocate (store_of t) sz = (x, store_of t1)" by auto
  have "dispatch_request t sid (alloc_request q sz) = (case x of Inl e \<Rightarrow> (Inl e, t1)
      | Inr h \<Rightarrow> (Inr (build_response (alloc_request q sz) OK ''OK'' h [] 0), assign_owner t1 h sid))"
    using al sz(2) by (simp add: dispatch_request_def alloc_request_def unat_handle split: sum.split)
  then have run: "(r, t') = (case x of Inl e \<Rightarrow> (catch_error (alloc_request q sz) e, t1)
      | Inr h \<Rightarrow> (Inr (build_response (alloc_request q sz) OK ''OK'' h [] 0), assign_owner t1 h sid))"
    using ans by (simp add: answer_request_def alloc_request_def split: sum.splits)
  show ?thesis
  proof (cases x)
    case (Inl e)
    then have "e = BadAlloc" "store_of t1 = store_of t" using t1(2) sz(1) by (auto simp: spec_allocate_def split: if_splits)
    then show ?thesis using run Inl
      by (auto simp: catch_error_def build_response_def alloc_request_def owned_iff simp del: store_of_simps)
  next
    case (Inr h)
    then have h: "h = next_handle t" and st: "blocks (store_of t1) = (blocks (store_of t))(h \<mapsto> (0, replicate sz 0))"
      using spec_allocate_blocks [of "store_of t" sz h] t1(2) sz(1) by auto
    have hb: "h < W64" "0 < h" using inv h tracker_invD(2,3) by auto
    have none: "blocks (store_of t) h = None" using tracker.fresh [OF inv(1), of h] h by simp
    have t': "t' = assign_owner t1 h sid" "r = Inr (build_response (alloc_request q sz) OK ''OK'' h [] 0)"
      using run Inr by auto
    have st': "blocks (store_of t') = (blocks (store_of t))(h \<mapsto> (sid, replicate sz 0))"
      using tracker.asg_ok [OF t1(1), of h sid] st t'(1) by (simp add: spec_assign_def del: store_of_simps)
    have "owned sid t' k = Some bs" if "owned sid t k = Some bs" for k bs
      using that owned_other [OF st' that] none by (cases "unat k = h") (auto simp: owned_iff simp del: store_of_simps)
    then show ?thesis using t'(2) st' none hb
      by (auto simp: build_response_def alloc_request_def owned_def unat_handle simp del: store_of_simps)
  qed
qed

lemma answer_write:
  assumes inv: "tracker_inv t" and h: "owned sid t h = Some bs" and fit: "off + length d \<le> length bs"
    and ans: "answer_request t sid (write_request q h off d) = (r, t')"
  shows "r = Inr (reply (write_request q h off d) OK ''OK'')" "owned sid t' h = Some (blit off d bs)"
    "owned sid t k = Some bs' \<Longrightarrow> k \<noteq> h \<Longrightarrow> owned sid t' k = Some bs'"
proof -
  have off: "unat (of_nat off :: uint64) = off" using fit owned_length [OF inv h] by (intro unat_handle) simp
  obtain x t1 where w: "PageTracker_write t (unat h) off d sid = (x, t1)" by (metis surj_pair)
  note ok = tracker.wr_ok [OF inv w]
  from spec_owner_blocks(1) [OF h [unfolded owned_iff] fit]
  have st: "x = Inr ()" "blocks (store_of t1) = (blocks (store_of t))(unat h \<mapsto> (sid, blit off d bs))"
    using ok by auto
  have "dispatch_request t sid (write_request q h off d) = (Inr (reply (write_request q h off d) OK ''OK''), t1)"
    using w st(1) off by (simp add: dispatch_write write_request_def)
  then have out: "r = Inr (reply (write_request q h off d) OK ''OK'')" "t' = t1"
    using ans by (auto simp: answer_request_def write_request_def)
  show "r = Inr (reply (write_request q h off d) OK ''OK'')" by (rule out(1))
  show "owned sid t' h = Some (blit off d bs)" using st(2) out(2) by (simp add: owned_iff del: store_of_simps)
  show "owned sid t k = Some bs' \<Longrightarrow> k \<noteq> h \<Longrightarrow> owned sid t' k = Some bs'"
    using owned_other [OF st(2)] out(2) unsigned_word_eqI [of k h] by metis
qed

lemma answer_read:
  assumes inv: "tracker_inv t" and h: "owned sid t h = Some bs" and fit: "off + n \<le> length bs" "0 < n" "n \<le> MAX_MESSAGE_SIZE"
  shows "answer_request t sid (read_request q h off n) =
    (Inr (build_response (read_request q h off n) OK ''OK'' 0 (peek off n bs) (crc32c (peek off n bs))), t)"
proof -
  have n: "unat (of_nat off :: uint64) = off" "unat (of_nat n :: uint64) = n"
    using fit owned_length [OF inv h] by (auto intro!: unat_handle)
  have "PageTracker_read t (unat h) off n sid = Inr (peek off n bs)"
    using spec_owner_blocks(2) [OF h [unfolded owned_iff] fit(1,2)] tracker.rd_ok [OF inv] by simp
  then show ?thesis using n fit(3) by (simp add: answer_request_def dispatch_read read_request_def)
qed

lemma answer_free:
  assumes inv: "tracker_inv t" and h: "owned sid t h = Some bs"
    and ans: "answer_request t sid (free_request q h) = (r, t')"
  shows "r = Inr (reply (free_request q h) OK ''OK'')" "owned sid t k = Some bs' \<Longrightarrow> k \<noteq> h \<Longrightarrow> owned sid t' k = Some bs'"
proof -
  obtain x t1 where w: "PageTracker_free t (unat h) sid = (x, t1)" by (metis surj_pair)
  note ok = tracker.fr_ok [OF inv w]
  from spec_owner_blocks(3) [OF h [unfolded owned_iff]]
  have st: "x = Inr ()" "blocks (store_of t1) = (blocks (store_of t))(unat h := None)" using ok by auto
  have "dispatch_request t sid (free_request q h) = (Inr (reply (free_request q h) OK ''OK''), t1)"
    using w st(1) by (simp add: dispatch_request_def free_request_def)
  then have out: "r = Inr (reply (free_request q h) OK ''OK'')" "t' = t1"
    using ans by (auto simp: answer_request_def free_request_def)
  show "r = Inr (reply (free_request q h) OK ''OK'')" by (rule out(1))
  show "owned sid t k = Some bs' \<Longrightarrow> k \<noteq> h \<Longrightarrow> owned sid t' k = Some bs'"
    using owned_other [OF st(2)] out(2) unsigned_word_eqI [of k h] by metis
qed

section \<open>The daemons as peers\<close>

definition node_ok :: "cluster_setup \<Rightarrow> nat \<Rightarrow> nat \<Rightarrow> ClientSession \<times> PageTracker \<Rightarrow> bool" where
  "node_ok S k i n \<longleftrightarrow> session_id (fst n) = cl_sid S i \<and> read_buffer (fst n) = [] \<and> close_calls (fst n) = 0 \<and>
     tracker_inv (snd n) \<and> next_handle (snd n) \<le> Suc k"

definition cluster_good :: "cluster_setup \<Rightarrow> cluster_state \<Rightarrow> bool" where
  "cluster_good S w \<longleftrightarrow> (\<forall>i < length (cs_nodes w). node_ok S (cs_served w) i (cs_nodes w ! i))"

definition cluster_cell :: "cluster_setup \<Rightarrow> cluster_state \<Rightarrow> nat \<times> uint64 \<rightharpoonup> bytes" where
  "cluster_cell S w p =
     (if fst p < length (cs_nodes w) then owned (cl_sid S (fst p)) (snd (cs_nodes w ! fst p)) (snd p) else None)"

lemma served_mono: "cluster_call S i p w = (r, lost, w') \<Longrightarrow> cs_served w' = cs_served w + Suc (length (cl_others S (cs_served w) i))"
  by (auto simp: cluster_call_def Let_def split: if_splits prod.splits sum.splits)

lemma call_nobody:
  "length (cs_nodes w) \<le> i \<Longrightarrow> cluster_call S i p w = (r, lost, w') \<Longrightarrow> r = None \<and> lost = [] \<and> cs_nodes w' = cs_nodes w"
  by (auto simp: cluster_call_def Let_def)

definition message_room :: "nat \<Rightarrow> nat" where
  "message_room K = MAX_MESSAGE_SIZE - K"

locale cluster =
  fixes S :: cluster_setup and K :: nat
  assumes codec: "memory_codec_ok (cl_codec S) (cl_size S) K" and small: "K \<le> MAX_MESSAGE_SIZE"
    and own_sid: "cl_sid S i \<noteq> 0" and foreign: "f \<in> set (cl_others S k i) \<Longrightarrow> fst f \<noteq> cl_sid S i"
begin

text \<open>The tracker of daemon \<open>i\<close> when it reads the client's request.\<close>

definition arrived :: "nat \<Rightarrow> cluster_state \<Rightarrow> PageTracker" where
  "arrived i w = snd (serve_frames (cl_codec S) (cl_others S (cs_served w) i) (snd (cs_nodes w ! i)))"

lemma arrived_ok:
  assumes "cluster_good S w" "i < length (cs_nodes w)" "cluster_call S i p w = (r, lost, w')" "cs_served w' < SIZE_MAX"
  shows "tracker_inv (arrived i w)" "next_handle (arrived i w) \<le> cs_served w'"
    "owned (cl_sid S i) (snd (cs_nodes w ! i)) h = Some bs \<Longrightarrow> owned (cl_sid S i) (arrived i w) h = Some bs"
proof -
  let ?t = "snd (cs_nodes w ! i)" and ?fs = "cl_others S (cs_served w) i"
  have n: "tracker_inv ?t" "next_handle ?t \<le> Suc (cs_served w)" using assms(1,2) by (auto simp: cluster_good_def node_ok_def)
  note served = served_mono [OF assms(3)]
  obtain rs where run: "serve_frames (cl_codec S) ?fs ?t = (rs, arrived i w)" unfolding arrived_def by (metis prod.collapse)
  have len: "next_handle ?t + length ?fs \<le> SIZE_MAX" using n(2) served assms(4) by simp
  show "tracker_inv (arrived i w)" using serve_frames_step [OF n(1) len run] by simp
  show "next_handle (arrived i w) \<le> cs_served w'" using serve_frames_next [OF n(1) len run] n(2) served by simp
  show "owned (cl_sid S i) ?t h = Some bs \<Longrightarrow> owned (cl_sid S i) (arrived i w) h = Some bs"
    using serve_frames_foreign [OF n(1) len _ own_sid _ run] foreign unfolding owned_iff by blast
qed

lemma good_after:
  assumes "cluster_good S w" "i < length (cs_nodes w)" "cluster_call S i p w = (r, lost, w')" "cs_served w' < SIZE_MAX"
    and "answer_request (arrived i w) (cl_sid S i) q = (x, t')" "cs_nodes w' = (cs_nodes w)[i := (s', t')]"
    and "session_id s' = cl_sid S i" "read_buffer s' = []" "close_calls s' = 0"
  shows "cluster_good S w'"
  unfolding cluster_good_def
proof (intro allI impI)
  fix j
  assume j: "j < length (cs_nodes w')"
  note ar = arrived_ok(1,2) [OF assms(1-4)]
  have new: "tracker_inv t'" "next_handle t' \<le> Suc (cs_served w')"
    using answer_step [OF ar(1) _ assms(5)] ar(2) assms(4) by auto
  have "node_ok S (cs_served w) j (cs_nodes w ! j)" using assms(1,6) j by (simp add: cluster_good_def)
  then show "node_ok S (cs_served w') j (cs_nodes w' ! j)"
    using new assms(6-9) served_mono [OF assms(3)] j by (cases "j = i") (auto simp: node_ok_def)
qed

lemma call_answer:
  assumes good: "cluster_good S w" "i < length (cs_nodes w)"
    and call: "cluster_call S i (finish_request (cl_codec S) q) w = (r, lost, w')" "cs_served w' < SIZE_MAX"
    and ans: "answer_request (arrived i w) (cl_sid S i) q = (Inr resp, t')"
    and fit: "opt_length (req_data q) \<le> message_room K" "opt_length (resp_data resp) \<le> message_room K"
      "length (resp_message resp) \<le> 64" "resp_request_id resp = req_request_id q"
  shows "r = Some (finish_response (cl_codec S) resp)" "lost = []" "cluster_good S w'"
    "\<exists>s'. cs_nodes w' = (cs_nodes w)[i := (s', t')]"
proof -
  let ?c = "cl_codec S" and ?ps = "cl_size S" and ?f = "finish_request (cl_codec S) q" and ?g = "finish_response (cl_codec S) resp"
  obtain s t where st: "cs_nodes w ! i = (s, t)" by (metis surj_pair)
  then have s: "session_id s = cl_sid S i" "read_buffer s = []" "close_calls s = 0"
    using good by (auto simp: cluster_good_def node_ok_def)
  have len: "opt_length (req_data q) \<le> MAX_MESSAGE_SIZE" "opt_length (resp_data resp) \<le> MAX_MESSAGE_SIZE"
    using fit(1,2) by (auto simp: message_room_def)
  note rq = memory_codec_okD(1,2,3) [OF codec len(1)] and rp = memory_codec_okD(4,5,6) [OF codec len(2) fit(3)]
  have f: "4 \<le> length ?f" "unat (?ps (take 4 ?f)) = length ?f - 4" "length ?f - 4 \<le> MAX_MESSAGE_SIZE"
    using rq(1) fit(1) small by (auto simp: well_framed_def message_room_def)
  have g: "4 \<le> length ?g" "unat (?ps (take 4 ?g)) = length ?g - 4" "length ?g - 4 \<le> MAX_MESSAGE_SIZE"
    using rp(1) fit(2) small by (auto simp: well_framed_def message_room_def)
  have "process_request ?c (arrived i w) (session_id s) ?f = (Inr ?g, t')"
    using ans rq(2,3) s(1) by (simp add: process_request_def)
  moreover have "?g \<noteq> []" using g(1) by auto
  ultimately have rd: "ClientSession_on_read ?c ?ps s (arrived i w) (Data ?f) = (Inr (s \<lparr> outbox := outbox s @ [?g] \<rparr>), t')"
    by (intro on_read_frame [where f = ?f and ps = ?ps, OF s(2) f]) (use s(3) in auto)
  have "is_response_frame ?c ?ps ?g" using g rp(2) by (simp add: is_response_frame_def MAX_MESSAGE_SIZE_def)
  from peer_frames_one [OF this] have pf: "peer_frames ?c ?ps ?g = ([(req_request_id q, ?g)], [], False)"
    using rp(3) fit(4) by simp
  have out: "(r, lost, w') = (Some ?g, [], w \<lparr> cs_served := cs_served w + Suc (length (cl_others S (cs_served w) i)),
      cs_nodes := (cs_nodes w)[i := (s \<lparr> outbox := outbox s @ [?g] \<rparr>, t')] \<rparr>)"
    unfolding call(1) [symmetric] cluster_call_def Let_def using good(2) st s(3) rd pf rq(3) by (simp add: arrived_def)
  then show "r = Some ?g" "lost = []" "\<exists>s'. cs_nodes w' = (cs_nodes w)[i := (s', t')]" by auto
  show "cluster_good S w'" using good_after [OF good call ans, of "s \<lparr> outbox := outbox s @ [?g] \<rparr>"] out s by simp
qed

text \<open>Cells after an answered call.\<close>

lemma kept_after:
  assumes "cs_nodes w' = (cs_nodes w)[i := (s', t')]" "i < length (cs_nodes w)"
    and "\<And>h bs. h \<notin> X \<Longrightarrow> owned (cl_sid S i) (snd (cs_nodes w ! i)) h = Some bs \<Longrightarrow> owned (cl_sid S i) t' h = Some bs"
  shows "kept (cluster_cell S) ({i} \<times> X) w w'"
  unfolding kept_def
proof (intro allI impI)
  fix p bs
  assume p: "p \<notin> {i} \<times> X" "cluster_cell S w p = Some bs"
  then show "cluster_cell S w' p = Some bs"
    using assms by (cases "fst p = i") (auto simp: cluster_cell_def mem_Times_iff split: if_splits)
qed

lemma cell_after:
  "cs_nodes w' = (cs_nodes w)[i := (s', t')] \<Longrightarrow> i < length (cs_nodes w) \<Longrightarrow> cluster_cell S w' (i, h) = owned (cl_sid S i) t' h"
  by (simp add: cluster_cell_def)

lemma nobody_ok:
  assumes "cluster_good S w" "length (cs_nodes w) \<le> i" "cluster_call S i p w = (r, lost, w')"
  shows "cluster_good S w'" "lost = []" "r = None" "kept (cluster_cell S) X w w'"
  using call_nobody [OF assms(2,3)] served_mono [OF assms(3)] assms(1)
  by (auto simp: cluster_good_def node_ok_def kept_def cluster_cell_def)

lemma cell_node: "cluster_cell S w (i, h) = Some bs \<Longrightarrow> i < length (cs_nodes w) \<and> owned (cl_sid S i) (snd (cs_nodes w ! i)) h = Some bs"
  by (auto simp: cluster_cell_def split: if_splits)

lemma alloc_law:
  assumes "cluster_good S w" "0 < sz" "sz \<le> message_room K"
    and "cluster_call S i (finish_request (cl_codec S) (alloc_request q sz)) w = (r, lost, w')" "cs_served w' < SIZE_MAX"
  shows "cluster_good S w' \<and> lost = [] \<and> kept (cluster_cell S) {} w w' \<and>
    (\<forall>resp h. r = Some resp \<longrightarrow> alloc_reply (cl_codec S) (Inr resp) = Some h \<longrightarrow>
      cluster_cell S w (i, h) = None \<and> cluster_cell S w' (i, h) = Some (replicate sz 0))"
proof (cases "i < length (cs_nodes w)")
  case False
  then show ?thesis using nobody_ok [OF assms(1) _ assms(4)] by auto
next
  case True
  note ar = arrived_ok [OF assms(1) True assms(4,5)]
  obtain x t' where ans: "answer_request (arrived i w) (cl_sid S i) (alloc_request q sz) = (x, t')" by (metis surj_pair)
  have "next_handle (arrived i w) < SIZE_MAX" "sz < W64"
    using ar(2) assms(3,5) by (auto simp: message_room_def MAX_MESSAGE_SIZE_def W64_def)
  from answer_alloc [OF ar(1) this(1) assms(2) this(2) own_sid ans] obtain resp where
    x: "x = Inr resp" "resp_data resp = None" "length (resp_message resp) \<le> 64" "resp_request_id resp = q"
    and ok: "resp_status resp = OK \<Longrightarrow> owned (cl_sid S i) (arrived i w) (resp_handle resp) = None"
      "resp_status resp = OK \<Longrightarrow> owned (cl_sid S i) t' (resp_handle resp) = Some (replicate sz 0)"
    and keep: "\<And>h bs. owned (cl_sid S i) (arrived i w) h = Some bs \<Longrightarrow> owned (cl_sid S i) t' h = Some bs" by blast
  have fit: "opt_length (req_data (alloc_request q sz)) \<le> message_room K" "opt_length (resp_data resp) \<le> message_room K"
    "resp_request_id resp = req_request_id (alloc_request q sz)" using x by (auto simp: opt_length_def alloc_request_def)
  note c = call_answer [OF assms(1) True assms(4,5) ans [unfolded x(1)] fit(1,2) x(3) fit(3)]
  then obtain s' where nodes: "cs_nodes w' = (cs_nodes w)[i := (s', t')]" by blast
  have "kept (cluster_cell S) {} w w'" using kept_after [OF nodes True, of "{}"] ar(3) keep by simp
  moreover have "resp_status resp = OK \<and> h = resp_handle resp"
    if "alloc_reply (cl_codec S) (Inr (finish_response (cl_codec S) resp)) = Some h" for h
    using that memory_codec_okD(6) [OF codec _ x(3)] x(2) by (auto simp: alloc_reply_def opt_length_def split: if_splits)
  moreover have "cluster_cell S w (i, h) = None" if "owned (cl_sid S i) (arrived i w) h = None" for h
    using that ar(3) [of h] cell_node [of w i h] by (cases "cluster_cell S w (i, h)") auto
  ultimately show ?thesis using c(1-3) ok cell_after [OF nodes True] by auto
qed

lemma write_law:
  assumes "cluster_good S w" "cluster_cell S w (i, h) = Some bs" "off + length d \<le> length bs" "length d \<le> message_room K"
    and "cluster_call S i (finish_request (cl_codec S) (write_request q h off d)) w = (r, lost, w')" "cs_served w' < SIZE_MAX"
  shows "cluster_good S w' \<and> lost = [] \<and> r \<noteq> None \<and> kept (cluster_cell S) {(i, h)} w w' \<and>
    cluster_cell S w' (i, h) = Some (blit off d bs)"
proof -
  note i = cell_node [OF assms(2), THEN conjunct1]
  note ar = arrived_ok [OF assms(1) i assms(5,6)]
  have own: "owned (cl_sid S i) (arrived i w) h = Some bs" using ar(3) cell_node [OF assms(2)] by blast
  obtain x t' where ans: "answer_request (arrived i w) (cl_sid S i) (write_request q h off d) = (x, t')" by (metis surj_pair)
  note aw = answer_write [OF ar(1) own assms(3) ans]
  have fit: "opt_length (req_data (write_request q h off d)) \<le> message_room K"
    using assms(4) by (simp add: opt_length_def write_request_def)
  note c = call_answer [OF assms(1) i assms(5,6) ans [unfolded aw(1)] fit]
  have c: "r \<noteq> None" "lost = []" "cluster_good S w'" "\<exists>s'. cs_nodes w' = (cs_nodes w)[i := (s', t')]"
    using c by (simp_all add: build_response_def opt_length_def)
  then obtain s' where nodes: "cs_nodes w' = (cs_nodes w)[i := (s', t')]" by blast
  show ?thesis using c kept_after [OF nodes i, of "{h}"] ar(3) aw(2,3) cell_after [OF nodes i] by simp
qed

lemma read_law:
  assumes "cluster_good S w" "cluster_cell S w (i, h) = Some bs" "off + n \<le> length bs" "0 < n" "n \<le> message_room K"
    and "cluster_call S i (finish_request (cl_codec S) (read_request q h off n)) w = (r, lost, w')" "cs_served w' < SIZE_MAX"
  shows "cluster_good S w' \<and> lost = [] \<and> kept (cluster_cell S) {} w w' \<and>
    (\<exists>resp. r = Some resp \<and> read_reply (cl_codec S) resp = Inr (peek off n bs))"
proof -
  note i = cell_node [OF assms(2), THEN conjunct1]
  note ar = arrived_ok [OF assms(1) i assms(6,7)]
  have own: "owned (cl_sid S i) (arrived i w) h = Some bs" using ar(3) cell_node [OF assms(2)] by blast
  have "n \<le> MAX_MESSAGE_SIZE" using assms(5) by (simp add: message_room_def)
  note ans = answer_read [OF ar(1) own assms(3,4) this, of q]
  let ?resp = "build_response (read_request q h off n) OK ''OK'' 0 (peek off n bs) (crc32c (peek off n bs))"
  have len: "length (peek off n bs) = n" using assms(3) by simp
  have fit: "opt_length (req_data (read_request q h off n)) \<le> message_room K" "opt_length (resp_data ?resp) \<le> message_room K"
    "length (resp_message ?resp) \<le> 64" "resp_request_id ?resp = req_request_id (read_request q h off n)"
    using assms(5) len by (auto simp: opt_length_def read_request_def build_response_def)
  note c = call_answer [OF assms(1) i assms(6,7) ans fit]
  then obtain s' where nodes: "cs_nodes w' = (cs_nodes w)[i := (s', arrived i w)]" by blast
  have room: "opt_length (resp_data ?resp) \<le> MAX_MESSAGE_SIZE" using fit(2) by (simp add: message_room_def)
  note rp = memory_codec_okD(4-6) [OF codec room fit(3)]
  have "read_reply (cl_codec S) (finish_response (cl_codec S) ?resp) = Inr (peek off n bs)"
  proof -
    have "finish_response (cl_codec S) ?resp \<noteq> []" using rp(1) by (auto simp: well_framed_def)
    moreover have "resp_status ?resp = OK" "resp_data ?resp = Some (peek off n bs)" using assms(4) len by (auto simp: build_response_def)
    ultimately show ?thesis using rp(2,3) by (simp add: read_reply_def)
  qed
  then show ?thesis using c(1-3) kept_after [OF nodes i, of "{}"] ar(3) by simp
qed

lemma free_law:
  assumes "cluster_good S w" "cluster_cell S w (i, h) = Some bs"
    and "cluster_call S i (finish_request (cl_codec S) (free_request q h)) w = (r, lost, w')" "cs_served w' < SIZE_MAX"
  shows "cluster_good S w' \<and> lost = [] \<and> r \<noteq> None \<and> kept (cluster_cell S) {(i, h)} w w'"
proof -
  note i = cell_node [OF assms(2), THEN conjunct1]
  note ar = arrived_ok [OF assms(1) i assms(3,4)]
  have own: "owned (cl_sid S i) (arrived i w) h = Some bs" using ar(3) cell_node [OF assms(2)] by blast
  obtain x t' where ans: "answer_request (arrived i w) (cl_sid S i) (free_request q h) = (x, t')" by (metis surj_pair)
  note af = answer_free [OF ar(1) own ans]
  note c = call_answer [OF assms(1) i assms(3,4) ans [unfolded af(1)]]
  have c: "r \<noteq> None" "lost = []" "cluster_good S w'" "\<exists>s'. cs_nodes w' = (cs_nodes w)[i := (s', t')]"
    using c by (simp_all add: build_response_def opt_length_def free_request_def)
  then obtain s' where nodes: "cs_nodes w' = (cs_nodes w)[i := (s', t')]" by blast
  show ?thesis using c kept_after [OF nodes i, of "{h}"] ar(3) af(2) by simp
qed

end

lemma cluster_env_sel: "env_call (cluster_env S) = cluster_call S" "env_codec (cluster_env S) = cl_codec S"
  by (simp_all add: cluster_env_def)

sublocale cluster \<subseteq> peers: peer_memory "cluster_env S" "cluster_good S" "cluster_cell S" cs_served SIZE_MAX "message_room K"
proof (unfold_locales, unfold cluster_env_sel, goal_cases)
  case 1
  show ?case by (simp add: message_room_def MAX_MESSAGE_SIZE_def W64_def)
next
  case 2
  then show ?case using served_mono by fastforce
next
  case 3
  then show ?case by (rule alloc_law)
next
  case 4
  then show ?case by (rule write_law)
next
  case 5
  then show ?case by (rule read_law)
next
  case 6
  then show ?case by (rule free_law)
qed

context cluster
begin

lemmas cluster_run = peers.run_refines

end

section \<open>A concrete codec\<close>

definition enc_raw :: "bytes \<Rightarrow> bytes" where
  "enc_raw d = enc_nat (length d) @ d"

definition dec_raw :: "bytes \<Rightarrow> bytes \<times> bytes" where
  "dec_raw bs = (case dec_nat bs of (n, r) \<Rightarrow> (take n r, drop n r))"

interpretation raw_codec: codec enc_raw dec_raw
  by unfold_locales (simp add: enc_raw_def dec_raw_def nat_codec.dec_enc)

definition status_number :: "StatusCode \<Rightarrow> nat" where
  "status_number st = (case st of OK \<Rightarrow> 0 | ERROR_GENERIC \<Rightarrow> 1 | BUSY \<Rightarrow> 2 | CHECKSUM_MISMATCH \<Rightarrow> 3 | INVALID_HANDLE \<Rightarrow> 4
     | OUT_OF_MEMORY \<Rightarrow> 5 | VERSION_MISMATCH \<Rightarrow> 6 | PERMISSION_DENIED \<Rightarrow> 7)"

definition number_status :: "nat \<Rightarrow> StatusCode" where
  "number_status n = [OK, ERROR_GENERIC, BUSY, CHECKSUM_MISMATCH, INVALID_HANDLE, OUT_OF_MEMORY, VERSION_MISMATCH, PERMISSION_DENIED] ! n"

lemma number_status_number [simp]: "number_status (status_number st) = st"
  by (cases st) (simp_all add: status_number_def number_status_def)

definition enc_request where
  "enc_request = enc_pair enc_word (enc_pair enc_word (enc_pair enc_word (enc_pair enc_word (enc_pair enc_word
     (enc_pair enc_word (enc_pair (enc_option enc_raw) enc_word))))))"

definition dec_request where
  "dec_request = dec_pair dec_word (dec_pair dec_word (dec_pair dec_word (dec_pair dec_word (dec_pair dec_word
     (dec_pair dec_word (dec_pair (dec_option dec_raw) dec_word))))))"

definition enc_response where
  "enc_response = enc_pair enc_word (enc_pair enc_nat (enc_pair enc_word (enc_pair (enc_option enc_raw) (enc_pair enc_word enc_string))))"

definition dec_response where
  "dec_response = dec_pair dec_word (dec_pair dec_nat (dec_pair dec_word (dec_pair (dec_option dec_raw) (dec_pair dec_word dec_string))))"

interpretation request_codec: codec enc_request dec_request
  unfolding enc_request_def dec_request_def by (intro codec_intros raw_codec.codec_axioms)

interpretation response_codec: codec enc_response dec_response
  unfolding enc_response_def dec_response_def by (intro codec_intros raw_codec.codec_axioms)

definition request_tuple where
  "request_tuple q = (req_protocol_version q, req_request_id q, req_op q, req_handle q, req_size q, req_offset q, req_data q, req_checksum q)"

definition request_of_tuple where
  "request_of_tuple t = (case t of (a, b, c, d, e, f, g, h) \<Rightarrow> \<lparr> req_protocol_version = a, req_request_id = b, req_op = c,
     req_handle = d, req_size = e, req_offset = f, req_data = g, req_checksum = h \<rparr>)"

definition response_tuple where
  "response_tuple r = (resp_request_id r, status_number (resp_status r), resp_handle r, resp_data r, resp_checksum r, resp_message r)"

definition response_of_tuple where
  "response_of_tuple t = (case t of (a, b, c, d, e, f) \<Rightarrow> \<lparr> resp_request_id = a, resp_status = number_status b, resp_handle = c,
     resp_data = d, resp_checksum = e, resp_message = f \<rparr>)"

text \<open>The size of the body in four bytes, least significant first.\<close>

definition wire_frame :: "bytes \<Rightarrow> bytes" where
  "wire_frame b = [of_nat (length b), of_nat (length b div 256), of_nat (length b div 65536), of_nat (length b div 16777216)] @ b"

definition wire_size :: "bytes \<Rightarrow> uint32" where
  "wire_size b = of_nat (unat (b ! 0) + 256 * unat (b ! 1) + 65536 * unat (b ! 2) + 16777216 * unat (b ! 3))"

definition wire_codec :: memory_codec where
  "wire_codec = \<lparr> verify_request = (\<lambda>b. 4 \<le> length b), get_request = (\<lambda>b. request_of_tuple (fst (dec_request (drop 4 b)))),
     finish_response = (\<lambda>r. wire_frame (enc_response (response_tuple r))), verify_response = (\<lambda>b. 4 \<le> length b),
     get_response = (\<lambda>b. response_of_tuple (fst (dec_response (drop 4 b)))),
     finish_request = (\<lambda>q. wire_frame (enc_request (request_tuple q))) \<rparr>"

lemma wire_size_frame:
  assumes "length b < 2 ^ 32"
  shows "unat (wire_size (take 4 (wire_frame b))) = length b"
proof -
  let ?n = "length b"
  have byte: "unat (of_nat k :: byte) = k mod 256" for k by (simp add: unat_of_nat take_bit_eq_mod)
  have "?n mod 256 + 256 * (?n div 256 mod 256) + 65536 * (?n div 65536 mod 256) + 16777216 * (?n div 16777216 mod 256) = ?n"
  proof -
    have "?n mod (256 * 256) = 256 * (?n div 256 mod 256) + ?n mod 256"
      "?n mod (65536 * 256) = 65536 * (?n div 65536 mod 256) + ?n mod 65536"
      "?n mod (16777216 * 256) = 16777216 * (?n div 16777216 mod 256) + ?n mod 16777216" by (rule mod_mult2_eq)+
    then show ?thesis using assms by simp
  qed
  moreover have "wire_size (take 4 (wire_frame b)) = of_nat (?n mod 256 + 256 * (?n div 256 mod 256) +
      65536 * (?n div 65536 mod 256) + 16777216 * (?n div 16777216 mod 256))"
    by (simp add: wire_size_def wire_frame_def byte del: of_nat_add of_nat_mult)
  ultimately have "wire_size (take 4 (wire_frame b)) = of_nat ?n" by metis
  then show ?thesis using assms by (simp add: unat_of_nat take_bit_eq_mod)
qed

lemma length_enc_nat: "n < 128 ^ k \<Longrightarrow> 0 < k \<Longrightarrow> length (enc_nat n) \<le> k"
proof (induction k arbitrary: n)
  case (Suc k)
  show ?case
  proof (cases "n < 128")
    case False
    then have "n div 128 < 128 ^ k" "0 < k" using Suc.prems by (auto intro: Nat.gr0I)
    then show ?thesis using Suc.IH [of "n div 128"] by (simp add: enc_nat.simps [of n])
  qed (simp add: enc_nat.simps)
qed simp

lemma length_enc_word:
  "length (enc_word (a :: byte)) \<le> 2" "length (enc_word (b :: uint16)) \<le> 3" "length (enc_word (c :: uint32)) \<le> 5"
  "length (enc_word (d :: uint64)) \<le> 10"
  using unsigned_less [of a, where ?'a = nat] unsigned_less [of b, where ?'a = nat] unsigned_less [of c, where ?'a = nat] unsigned_less [of d, where ?'a = nat]
  by (auto simp: enc_word_def intro!: length_enc_nat)

lemma length_enc_data: "opt_length d \<le> MAX_MESSAGE_SIZE \<Longrightarrow> length (enc_option enc_raw d) \<le> 5 + opt_length d"
  using length_enc_nat [of "opt_length d" 4]
  by (auto simp: enc_option_def enc_raw_def opt_length_def MAX_MESSAGE_SIZE_def split: option.splits)

lemma length_enc_string:
  assumes "length s \<le> 64"
  shows "length (enc_string s) \<le> 130"
proof -
  have ch: "length (enc_char ch) \<le> 2" for ch
    using length_enc_nat [of "of_char ch" 2] nat_of_char_less_256 [of ch] by (simp add: enc_char_def)
  have "length (concat (map enc_char s)) \<le> 2 * length s"
  proof (induction s)
    case (Cons a s)
    then show ?case using ch [of a] by simp
  qed simp
  moreover have "length (enc_nat (length s)) \<le> 2" using length_enc_nat [of "length s" 2] assms by simp
  ultimately show ?thesis using assms by (simp add: enc_list_def)
qed

lemma wire_codec_ok: "memory_codec_ok wire_codec wire_size 256"
proof -
  have rq: "length (enc_request (request_tuple q)) \<le> 65 + opt_length (req_data q)" if "opt_length (req_data q) \<le> MAX_MESSAGE_SIZE" for q :: MemoryRequest
    using length_enc_data [OF that] length_enc_word(2) [of "req_protocol_version q"] length_enc_word(4) [of "req_request_id q"]
      length_enc_word(1) [of "req_op q"] length_enc_word(4) [of "req_handle q"] length_enc_word(4) [of "req_size q"]
      length_enc_word(4) [of "req_offset q"] length_enc_word(3) [of "req_checksum q"]
    by (simp add: enc_request_def enc_pair_def request_tuple_def)
  have st: "length (enc_nat (status_number x)) \<le> 1" for x
    using length_enc_nat [of "status_number x" 1] by (cases x) (simp_all add: status_number_def)
  have rp: "length (enc_response (response_tuple r)) \<le> 161 + opt_length (resp_data r)"
    if "opt_length (resp_data r) \<le> MAX_MESSAGE_SIZE" "length (resp_message r) \<le> 64" for r :: MemoryResponse
    using length_enc_data [OF that(1)] length_enc_string [OF that(2)] length_enc_word(4) [of "resp_request_id r"]
      length_enc_word(4) [of "resp_handle r"] length_enc_word(3) [of "resp_checksum r"] st [of "resp_status r"]
    by (simp add: enc_response_def enc_pair_def response_tuple_def)
  have frame: "well_framed wire_size 256 n (wire_frame b)" if "length b \<le> 161 + n" "n \<le> MAX_MESSAGE_SIZE" for b n
    using that wire_size_frame [of b] by (simp add: well_framed_def MAX_MESSAGE_SIZE_def wire_frame_def)
  have rq': "well_framed wire_size 256 (opt_length (req_data q)) (finish_request wire_codec q) \<and>
      verify_request wire_codec (finish_request wire_codec q) \<and> get_request wire_codec (finish_request wire_codec q) = q"
    if "opt_length (req_data q) \<le> MAX_MESSAGE_SIZE" for q :: MemoryRequest
    using frame [OF _ that, of "enc_request (request_tuple q)"] rq [OF that] request_codec.dec_enc_Nil [of "request_tuple q"]
    by (simp add: wire_codec_def) (simp add: wire_frame_def request_of_tuple_def request_tuple_def)
  have rp': "well_framed wire_size 256 (opt_length (resp_data r)) (finish_response wire_codec r) \<and>
      verify_response wire_codec (finish_response wire_codec r) \<and> get_response wire_codec (finish_response wire_codec r) = r"
    if "opt_length (resp_data r) \<le> MAX_MESSAGE_SIZE" "length (resp_message r) \<le> 64" for r :: MemoryResponse
    using frame [OF _ that(1), of "enc_response (response_tuple r)"] rp [OF that] response_codec.dec_enc_Nil [of "response_tuple r"]
    by (simp add: wire_codec_def) (simp add: wire_frame_def response_of_tuple_def response_tuple_def)
  show ?thesis unfolding memory_codec_ok_def using rq' rp' by blast
qed

section \<open>The system is one memory\<close>

lemma fresh_client_inv:
  assumes "mc_cache m = LRUCache_new max_local" "2 * max_local < W64" "mc_remote m = Map.empty" "good (mc_world m)"
  shows "mem_inv good cell room m" "contents cell m = Map.empty"
proof -
  have "lru_inv (mc_cache m)" "lru_list (mc_cache m) = []" "lru_map (mc_cache m) = {}"
    using LRUCache_new_inv assms(1,2) by (auto simp: LRUCache_new_def)
  then show "mem_inv good cell room m" using assms(3,4)
    by (simp add: mem_inv_def remote_inv_def cache_inv_def client_inv_def)
  show "contents cell m = Map.empty"
    using assms(1,3) by (intro ext) (simp add: contents_def deref_def LRUCache_new_def)
qed

text \<open>
  Property C1. A client and any number of memory daemons together are one memory. Start from a
  client with an empty cache connected to daemons in any reachable state, which between its
  requests serve any frames of other sessions, and run any sequence of allocations, frees,
  reads, writes and memory-pressure callbacks. Whatever the client evicts, stripes over
  several daemons and loads back, over the wire and through both framing loops, every
  result is the one a plain table of zero-initialised byte blocks gives: each read returns
  what was last written; the only extra outcome is the exception that all peers are out of
  memory, and it changes nothing.
\<close>

theorem cluster_is_memory:
  assumes "memory_codec_ok (cl_codec S) (cl_size S) K" "K \<le> MAX_MESSAGE_SIZE"
    and "\<And>i. cl_sid S i \<noteq> 0" "\<And>k i f. f \<in> set (cl_others S k i) \<Longrightarrow> fst f \<noteq> cl_sid S i"
    and "cluster_good S (mc_world m)" "mc_cache m = LRUCache_new max_local" "2 * max_local < W64" "mc_remote m = Map.empty"
    and "\<forall>op \<in> set ops. op_ok (message_room K) op" "mc_next_local_handle m + length ops \<le> SIZE_MAX"
    and "client_run (cluster_env S) ops m = (rs, m')" "cs_served (mc_world m') < SIZE_MAX"
  shows "memory_run Map.empty ops rs (contents (cluster_cell S) m')"
proof -
  have "cluster S K" by (rule cluster.intro) (use assms(1-4) in auto)
  note fresh = fresh_client_inv [where good = "cluster_good S" and m = m, OF assms(6-8,5)]
  from cluster.cluster_run [OF \<open>cluster S K\<close> fresh(1) assms(9-12)] show ?thesis using fresh(2) by simp
qed

definition demo_setup :: cluster_setup where
  "demo_setup = \<lparr> cl_codec = wire_codec, cl_size = wire_size,
     cl_others = (\<lambda>k i. if k = 0 then [(7, finish_request wire_codec (alloc_request 1 3))] else []), cl_order = [], cl_sid = (\<lambda>_. 5) \<rparr>"

interpretation demo_cluster: cluster demo_setup 256
  by unfold_locales (auto simp: demo_setup_def wire_codec_ok MAX_MESSAGE_SIZE_def split: if_splits)

definition demo_cluster_client :: "cluster_state MemoryClient" where
  "demo_cluster_client = \<lparr> mc_cache = LRUCache_new 2, mc_remote = Map.empty,
     mc_peers = [(RemotePeer_new ''10.0.0.1'' 1) \<lparr> rp_socket := True, rp_connected := True \<rparr>],
     mc_pending_connects = [], mc_outbound = [], mc_pending = {}, mc_resolved = Map.empty,
     mc_next_request_id = 1, mc_next_local_handle = 1,
     mc_world = \<lparr> cs_nodes = [(ClientSession_new 5 True, demo_tracker)], cs_served = 0 \<rparr> \<rparr>"

text \<open>Session 7 allocates first, so that the client's block gets handle 2.\<close>

lemma demo_answer:
  "fst (answer_request (snd (serve_frames wire_codec [(7, finish_request wire_codec (alloc_request 1 3))] demo_tracker)) 5
     (alloc_request 1 3)) = Inr (build_response (alloc_request 1 3) OK ''OK'' 2 [] 0)"
  by code_simp

lemma demo_cluster_good: "cluster_good demo_setup (mc_world demo_cluster_client)"
  by (simp add: cluster_good_def node_ok_def demo_cluster_client_def demo_setup_def ClientSession_new_def demo_inv)

lemma demo_alloc_one:
  obtains m' where "alloc_one (cluster_env demo_setup) 0 3 (demo_cluster_client \<lparr> mc_next_local_handle := 2 \<rparr>) = (Some 2, m')"
    "cs_served (mc_world m') = 2"
proof -
  let ?m = "demo_cluster_client \<lparr> mc_next_local_handle := 2 \<rparr>" and ?w = "mc_world demo_cluster_client"
  let ?q = "alloc_request 1 3" and ?resp = "build_response (alloc_request 1 3) OK ''OK'' 2 [] 0"
  have id: "mc_next_request_id ?m = 1" "mc_world ?m = ?w" by (simp_all add: demo_cluster_client_def)
  obtain r lost w' where call: "cluster_call demo_setup 0 (finish_request wire_codec ?q) ?w = (r, lost, w')" by (metis prod_cases3)
  have served: "cs_served w' = 2"
    using served_mono [OF call] by (simp add: demo_setup_def demo_cluster_client_def)
  have "demo_cluster.arrived 0 ?w = snd (serve_frames wire_codec [(7, finish_request wire_codec ?q)] demo_tracker)"
    unfolding demo_cluster.arrived_def by (simp add: demo_setup_def demo_cluster_client_def)
  then obtain t' where ans: "answer_request (demo_cluster.arrived 0 ?w) (cl_sid demo_setup 0) ?q = (Inr ?resp, t')"
    using demo_answer by (metis (no_types, lifting) cluster_setup.select_convs(5) demo_setup_def prod.collapse)
  have r: "r = Some (finish_response wire_codec ?resp)"
    using demo_cluster.call_answer(1) [OF demo_cluster_good _ _ _ ans, of r lost w'] call served
    by (simp add: demo_setup_def demo_cluster_client_def opt_length_def alloc_request_def build_response_def SIZE_MAX_def W64_def)
  have "alloc_reply wire_codec (Inr (finish_response wire_codec ?resp)) = Some 2"
    using memory_codec_okD(4-6) [OF wire_codec_ok, of ?resp]
    by (auto simp: alloc_reply_def well_framed_def opt_length_def build_response_def)
  then have "fst (alloc_one (cluster_env demo_setup) 0 3 ?m) = Some 2"
      "mc_world (snd (alloc_one (cluster_env demo_setup) 0 3 ?m)) = w'"
    using call r id by (simp_all add: alloc_one_def sync_remote_call_def cluster_env_def next_request_def demo_setup_def
        demo_cluster.peers.world_drop_peers)
  then show ?thesis using that served by (metis prod.collapse)
qed

theorem cluster_is_memory_witness:
  "\<exists>C. memory_run Map.empty [OpAllocate 3] [Handle 1] C"
proof -
  let ?E = "cluster_env demo_setup" and ?m0 = "demo_cluster_client \<lparr> mc_next_local_handle := 2 \<rparr>"
  obtain m1 where one: "alloc_one ?E 0 3 ?m0 = (Some 2, m1)" "cs_served (mc_world m1) = 2" by (rule demo_alloc_one)
  have "connected_peers ?m0 = [0]" "may_fit (mc_peers ?m0 ! 0) 3"
    by (simp_all add: connected_peers_def demo_cluster_client_def RemotePeer_new_def may_fit_def)
  then have "allocate_remote ?E 1 3 ?m0 = (Inr (), m1 \<lparr> mc_remote := (mc_remote m1)(1 \<mapsto> single_allocation 2 3 0) \<rparr>)"
    using one(1) by (simp add: allocate_remote_def place_def candidates_def Let_def)
  moreover have "demo_cluster_client \<lparr> mc_next_local_handle := u64_add 1 1 \<rparr> = ?m0" by (simp add: u64_add_def W64_def)
  ultimately have "client_run ?E [OpAllocate 3] demo_cluster_client =
      ([Handle 1], m1 \<lparr> mc_remote := (mc_remote m1)(1 \<mapsto> single_allocation 2 3 0) \<rparr>)"
    by (simp add: result_of_def allocate_def Let_def) (simp add: demo_cluster_client_def LRUCache_new_def)
  from cluster_is_memory [OF _ _ _ _ demo_cluster_good _ _ _ _ _ this, of 256 2] show ?thesis
    using one(2) wire_codec_ok
    by (force simp: demo_setup_def demo_cluster_client_def MAX_MESSAGE_SIZE_def W64_def SIZE_MAX_def op_ok_def message_room_def)
qed

end
