(* ===== verification/OrderedMap.thy ===== *)
theory OrderedMap
  imports Prelude
begin

text \<open>
  \<open>std::map\<close> with a numeric key, as the association list of its entries in key order: the
  operations the sources use (\<open>find\<close>, \<open>emplace\<close>, \<open>erase\<close>, and the step back from
  \<open>lower_bound\<close>), and their laws.
\<close>

type_synonym 'v omap = "(nat \<times> 'v) list"

definition om_ok :: "'v omap \<Rightarrow> bool" where
  "om_ok m \<longleftrightarrow> sorted_wrt (\<lambda>a b. fst a < fst b) m"

text \<open>\<open>emplace\<close> does nothing when the key is present.\<close>

fun om_emplace :: "nat \<Rightarrow> 'v \<Rightarrow> 'v omap \<Rightarrow> 'v omap" where
  "om_emplace k v [] = [(k, v)]"
| "om_emplace k v ((k', v') # m) =
    (if k < k' then (k, v) # (k', v') # m
     else if k = k' then (k', v') # m
     else (k', v') # om_emplace k v m)"

definition om_erase :: "nat \<Rightarrow> 'v omap \<Rightarrow> 'v omap" where
  "om_erase k m = filter (\<lambda>e. fst e \<noteq> k) m"

text \<open>The entry before \<open>lower_bound(k)\<close>: the last one with a smaller key.\<close>

definition om_before :: "nat \<Rightarrow> 'v omap \<Rightarrow> (nat \<times> 'v) option" where
  "om_before k m =
    (let smaller = takeWhile (\<lambda>e. fst e < k) m in if smaller = [] then None else Some (last smaller))"

lemma om_ok_simps [simp]:
  "om_ok []"
  "om_ok (e # m) \<longleftrightarrow> (\<forall>x \<in> set m. fst e < fst x) \<and> om_ok m"
  by (auto simp: om_ok_def)

lemma om_keys_inject: "om_ok m \<Longrightarrow> (k, v) \<in> set m \<Longrightarrow> (k, w) \<in> set m \<Longrightarrow> v = w"
  by (induction m) auto

lemma om_distinct: "om_ok m \<Longrightarrow> distinct (map fst m)"
  by (induction m) auto

lemma om_find_iff: "om_ok m \<Longrightarrow> map_of m k = Some v \<longleftrightarrow> (k, v) \<in> set m"
  by (simp add: om_distinct)

lemma om_find_None_iff: "map_of m k = None \<longleftrightarrow> (\<forall>v. (k, v) \<notin> set m)"
  by (force simp: map_of_eq_None_iff)

lemma set_om_emplace: "k \<notin> fst ` set m \<Longrightarrow> set (om_emplace k v m) = insert (k, v) (set m)"
  by (induction k v m rule: om_emplace.induct) auto

lemma set_om_emplace_subset: "set (om_emplace k v m) \<subseteq> insert (k, v) (set m)"
  by (induction k v m rule: om_emplace.induct) auto

lemma om_ok_emplace [simp]: "om_ok m \<Longrightarrow> om_ok (om_emplace k v m)"
proof (induction k v m rule: om_emplace.induct)
  case (2 k v k' v' m)
  then show ?case using set_om_emplace_subset [of k v m] by fastforce
qed simp

lemma set_om_erase: "set (om_erase k m) = {e \<in> set m. fst e \<noteq> k}"
  by (simp add: om_erase_def)

lemma set_om_erase_entry:
  assumes "om_ok m" "(k, v) \<in> set m"
  shows "set (om_erase k m) = set m - {(k, v)}"
proof -
  have uniq: "fst e = k \<longleftrightarrow> e = (k, v)" if "e \<in> set m" for e
    using om_keys_inject [OF assms(1), of k "snd e" v] that assms(2) by (cases e) auto
  show ?thesis unfolding set_om_erase by (simp add: uniq set_eq_iff cong: conj_cong)
qed

lemma om_ok_erase [simp]: "om_ok m \<Longrightarrow> om_ok (om_erase k m)"
  by (simp add: om_ok_def om_erase_def sorted_wrt_filter)

lemma om_before_Some:
  assumes "om_ok m" "om_before k m = Some (p, v)"
  shows "(p, v) \<in> set m" "p < k" "\<And>q w. (q, w) \<in> set m \<Longrightarrow> q < k \<Longrightarrow> q \<le> p"
proof -
  let ?s = "takeWhile (\<lambda>e. fst e < k) m"
  have ne: "?s \<noteq> []" and l: "last ?s = (p, v)"
    using assms(2) by (auto simp: om_before_def Let_def split: if_splits)
  have "(p, v) \<in> set ?s" using l ne last_in_set by metis
  then show "(p, v) \<in> set m" "p < k" by (auto dest: set_takeWhileD)
  have small: "(q, w) \<in> set (takeWhile (\<lambda>e. fst e < k) m)" if "(q, w) \<in> set m" "q < k" for q w
    using assms(1) that by (induction m) auto
  have ok: "om_ok ?s" using assms(1) by (metis om_ok_def sorted_wrt_append takeWhile_dropWhile_id)
  have "e \<in> set xs \<Longrightarrow> om_ok xs \<Longrightarrow> fst e \<le> fst (last xs)" for e :: "nat \<times> 'a" and xs
    by (induction xs) (auto simp: less_imp_le)
  then show "q \<le> p" if "(q, w) \<in> set m" "q < k" for q w
    using small [OF that] ok l by fastforce
qed

lemma om_before_None:
  assumes "om_ok m" "om_before k m = None" "(q, w) \<in> set m"
  shows "k \<le> q"
  using assms by (cases m) (auto simp: om_before_def Let_def split: if_splits)

end
