(* ===== verification/HeapArena.thy ===== *)
theory HeapArena
  imports OrderedMap Common
begin

text \<open>
  The arena allocator behind the malloc hook (\<open>memclient/src/heap_arena.cpp\<close>): a first-fit
  allocator with out-of-band bookkeeping over a byte range \<open>[base, base + size)\<close>. The theory
  shows that free and live blocks always tile the range, that returned pointers are aligned
  and disjoint from every live block, that a request is refused only when no free block can
  hold it, and that freeing everything merges the range back into one block. Pointers are
  64-bit; \<open>null\<close> is 0.
\<close>

section \<open>State\<close>

record HeapArena =
  ha_base :: nat
  ha_size :: nat
  free_blocks :: "nat omap"
  live_blocks :: "nat omap"
  in_use_bytes :: nat

definition HeapArena_new :: "nat \<Rightarrow> nat \<Rightarrow> HeapArena" where
  "HeapArena_new base sz = \<lparr> ha_base = base, ha_size = sz,
     free_blocks = (if base \<noteq> 0 \<and> sz \<noteq> 0 then [(0, sz)] else []), live_blocks = [], in_use_bytes = 0 \<rparr>"

section \<open>Operations\<close>

definition align_up :: "nat \<Rightarrow> nat \<Rightarrow> nat" where
  "align_up v alignment =
    (let m = of_nat alignment - 1 :: uint64 in unat ((of_nat v + m) AND NOT m))"

definition is_pow2 :: "nat \<Rightarrow> bool" where
  "is_pow2 alignment \<longleftrightarrow> alignment \<noteq> 0 \<and> alignment AND (alignment - 1) = 0"

text \<open>The fit test on one free block: the aligned offset, if the request fits.\<close>

definition fit_block :: "nat \<Rightarrow> nat \<Rightarrow> nat \<Rightarrow> nat \<times> nat \<Rightarrow> nat option" where
  "fit_block base bytes alignment blk =
    (case blk of (block_start, block_len) \<Rightarrow>
       let aligned = u64_sub (align_up (u64_add base block_start) alignment) base;
           lead = u64_sub aligned block_start
       in if block_len < lead \<or> block_len - lead < bytes then None else Some aligned)"

text \<open>The scan over the free blocks in address order.\<close>

primrec first_fit :: "nat \<Rightarrow> nat \<Rightarrow> nat \<Rightarrow> nat omap \<Rightarrow> (nat \<times> nat \<times> nat) option" where
  "first_fit base bytes alignment [] = None"
| "first_fit base bytes alignment (blk # m) =
    (case fit_block base bytes alignment blk of
       Some aligned \<Rightarrow> Some (fst blk, snd blk, aligned)
     | None \<Rightarrow> first_fit base bytes alignment m)"

definition carve :: "HeapArena \<Rightarrow> nat \<Rightarrow> nat \<Rightarrow> nat \<Rightarrow> nat \<Rightarrow> HeapArena" where
  "carve a block_start block_len aligned bytes =
    (let lead = aligned - block_start;
         trail = block_len - lead - bytes;
         f1 = om_erase block_start (free_blocks a);
         f2 = (if 0 < lead then om_emplace block_start lead f1 else f1);
         f3 = (if 0 < trail then om_emplace (aligned + bytes) trail f2 else f2)
     in a \<lparr> free_blocks := f3, live_blocks := om_emplace aligned bytes (live_blocks a),
            in_use_bytes := in_use_bytes a + bytes \<rparr>)"

definition HeapArena_allocate :: "HeapArena \<Rightarrow> nat \<Rightarrow> nat \<Rightarrow> nat \<times> HeapArena" where
  "HeapArena_allocate a bytes alignment =
    (if bytes = 0 \<or> ha_base a = 0 then (0, a)
     else if \<not> is_pow2 alignment then (0, a)
     else case first_fit (ha_base a) bytes alignment (free_blocks a) of
       None \<Rightarrow> (0, a)
     | Some (block_start, block_len, aligned) \<Rightarrow>
         (ha_base a + aligned, carve a block_start block_len aligned bytes))"

definition owns :: "HeapArena \<Rightarrow> nat \<Rightarrow> bool" where
  "owns a ptr \<longleftrightarrow> ha_base a \<le> ptr \<and> ptr < ha_base a + ha_size a"

definition merge_next :: "nat \<Rightarrow> nat \<Rightarrow> nat omap \<Rightarrow> nat \<times> nat omap" where
  "merge_next offset len m =
    (case map_of m (offset + len) of Some l \<Rightarrow> (len + l, om_erase (offset + len) m) | None \<Rightarrow> (len, m))"

definition merge_prev :: "nat \<Rightarrow> nat \<Rightarrow> nat omap \<Rightarrow> nat \<times> nat \<times> nat omap" where
  "merge_prev offset len m =
    (case om_before offset m of
       Some (p, l) \<Rightarrow> if p + l = offset then (p, len + l, om_erase p m) else (offset, len, m)
     | None \<Rightarrow> (offset, len, m))"

definition insert_free :: "nat \<Rightarrow> nat \<Rightarrow> nat omap \<Rightarrow> nat omap" where
  "insert_free offset len m =
    (let (len1, m1) = merge_next offset len m;
         (offset2, len2, m2) = merge_prev offset len1 m1
     in om_emplace offset2 len2 m2)"

definition HeapArena_deallocate :: "HeapArena \<Rightarrow> nat \<Rightarrow> HeapArena" where
  "HeapArena_deallocate a ptr =
    (if ptr = 0 \<or> \<not> owns a ptr then a
     else case map_of (live_blocks a) (ptr - ha_base a) of
       None \<Rightarrow> a
     | Some len \<Rightarrow> a \<lparr> live_blocks := om_erase (ptr - ha_base a) (live_blocks a),
         in_use_bytes := in_use_bytes a - len,
         free_blocks := insert_free (ptr - ha_base a) len (free_blocks a) \<rparr>)"

definition block_size :: "HeapArena \<Rightarrow> nat \<Rightarrow> nat" where
  "block_size a ptr =
    (if ptr = 0 \<or> \<not> owns a ptr then 0
     else case map_of (live_blocks a) (ptr - ha_base a) of None \<Rightarrow> 0 | Some len \<Rightarrow> len)"

record ArenaStats =
  st_in_use_bytes :: nat
  st_free_bytes :: nat
  st_live_blocks :: nat
  st_largest_free_block :: nat

definition HeapArena_stats :: "HeapArena \<Rightarrow> ArenaStats" where
  "HeapArena_stats a = \<lparr> st_in_use_bytes = in_use_bytes a,
     st_free_bytes = fold (\<lambda>b n. n + snd b) (free_blocks a) 0,
     st_live_blocks = length (live_blocks a),
     st_largest_free_block = fold (\<lambda>b n. max n (snd b)) (free_blocks a) 0 \<rparr>"

section \<open>Alignment\<close>

lemma is_pow2_power: "is_pow2 n \<Longrightarrow> \<exists>k. n = 2 ^ k"
proof (induction n rule: less_induct)
  case (less n)
  then have n: "n \<noteq> 0" "n AND (n - 1) = 0" by (auto simp: is_pow2_def)
  show ?case
  proof (cases "odd n")
    case True
    then obtain m where m: "n = 2 * m + 1" by (auto elim: oddE)
    have "n AND (n - 1) = 2 * m"
      unfolding m by (subst and_rec) simp
    then show ?thesis using n m by (intro exI [of _ 0]) simp
  next
    case False
    then obtain m where m: "n = 2 * m" by auto
    have "n AND (n - 1) = 2 * (m AND (m - 1))"
    proof (cases m)
      case (Suc m')
      then show ?thesis unfolding m by (subst and_rec) simp
    qed (use n m in simp)
    then have "is_pow2 m" "m < n" using n m by (auto simp: is_pow2_def)
    then obtain k where "m = 2 ^ k" using less.IH by blast
    then show ?thesis using m by (intro exI [of _ "Suc k"]) simp
  qed
qed

lemma and_not_mask_word: "(w :: uint64) AND NOT (mask k) = w - take_bit k w"
proof -
  have "push_bit k (drop_bit k w) = w AND NOT (mask k)"
    by (rule bit_word_eqI) (auto simp: bit_simps)
  moreover have "push_bit k (drop_bit k w) + take_bit k w = w" by (rule bits_ident)
  ultimately show ?thesis by (metis add_diff_cancel_right')
qed

lemma unat_and_not_mask: "unat ((w :: uint64) AND NOT (mask k)) = unat w - unat w mod 2 ^ k"
proof -
  have t: "unat (take_bit k w) = unat w mod 2 ^ k"
    by (simp only: unsigned_take_bit_eq take_bit_eq_mod [of k "unat w"])
  then have "take_bit k w \<le> w" by (simp add: word_le_nat_alt)
  then show ?thesis by (simp add: and_not_mask_word unat_sub t)
qed

lemma dvd_next:
  fixes al :: nat
  assumes "al dvd r" "al dvd y" "r < y + al"
  shows "r \<le> y"
proof -
  obtain i j where ij: "r = al * i" "y = al * j" using assms(1,2) by (auto elim!: dvdE)
  then have "al * i < al * Suc j" using assms(3) by simp
  then have "i \<le> j" by (simp only: mult_less_cancel1 less_Suc_eq_le)
  then show ?thesis using ij by simp
qed

lemma align_up_eq:
  assumes "v < W64" "al = 2 ^ k" "al < W64"
  shows "align_up v al = (v + al - 1) mod W64 - (v + al - 1) mod W64 mod al"
proof -
  have m: "of_nat al - 1 = (mask k :: uint64)" by (simp add: assms(2) mask_eq_exp_minus_1)
  have "v + al - 1 = v + (2 ^ k - 1)" by (simp add: assms(2))
  then have "(of_nat v + mask k :: uint64) = of_nat (v + al - 1)"
    by (simp only: mask_eq_exp_minus_1 of_nat_add of_nat_diff one_le_power) (simp add: of_nat_diff)
  then have "unat (of_nat v + mask k :: uint64) = (v + al - 1) mod W64"
    by (simp add: unat_of_nat W64_def)
  then show ?thesis
    unfolding align_up_def m Let_def unat_and_not_mask assms(2) [symmetric] by simp
qed

lemma align_up_cases:
  assumes "v < W64" "is_pow2 al" "al < W64"
  obtains (fits) "v + al - 1 < W64" "al dvd align_up v al" "v \<le> align_up v al" "align_up v al < v + al"
  | (wraps) "W64 < v + al" "al dvd W64" "align_up v al = 0"
proof -
  from is_pow2_power [OF assms(2)] obtain k where k: "al = 2 ^ k" by blast
  have al: "0 < al" using k by simp
  let ?x = "v + al - 1"
  have eq: "align_up v al = ?x mod W64 - ?x mod W64 mod al"
    using assms(1) k assms(3) by (rule align_up_eq)
  show ?thesis
  proof (cases "?x < W64")
    case True
    define q where "q = ?x mod al"
    have q: "q < al" "al dvd ?x - q" "align_up v al = ?x - q"
      using al eq True by (simp_all only: q_def mod_less_divisor dvd_minus_mod mod_less)
    have r: "al dvd align_up v al" "v \<le> align_up v al" "align_up v al < v + al"
      using q(2) al unfolding q(3) using q(1) by linarith+
    show ?thesis using True r by (rule fits)
  next
    case False
    have "?x mod W64 = ?x - W64" using False assms(1,3) by (simp add: le_mod_geq)
    then have "?x mod W64 < al" using assms(1) False al by linarith
    then have z: "align_up v al = 0" using eq by simp
    have "(2 :: nat) ^ k < 2 ^ 64" using assms(3) k by (simp only: W64_def)
    then have "k \<le> 64" by (simp only: power_strict_increasing_iff [of 2] one_less_numeral_iff semiring_norm less_imp_le)
    then have d: "al dvd W64" unfolding k W64_def by (rule le_imp_power_dvd)
    have "W64 < v + al" using False al by linarith
    then show ?thesis using d z by (rule wraps)
  qed
qed

definition fits_at :: "nat \<Rightarrow> nat \<Rightarrow> nat \<Rightarrow> nat \<times> nat \<Rightarrow> nat \<Rightarrow> bool" where
  "fits_at base bytes al blk x \<longleftrightarrow> fst blk \<le> x \<and> x + bytes \<le> fst blk + snd blk \<and> al dvd base + x"

lemma fit_block_ok:
  assumes "0 < base" "base + start + len \<le> W64" "0 < len" "0 < bytes" "is_pow2 al" "al < W64"
  shows "fit_block base bytes al (start, len) = Some x \<Longrightarrow> fits_at base bytes al (start, len) x"
    "fit_block base bytes al (start, len) = None \<Longrightarrow> \<not> fits_at base bytes al (start, len) y"
proof -
  let ?v = "base + start"
  let ?r = "align_up ?v al"
  have v: "?v < W64" "u64_add base start = ?v" using assms by (auto simp: u64_simps)
  have "(fit_block base bytes al (start, len) = Some x \<longrightarrow> fits_at base bytes al (start, len) x) \<and>
      (fit_block base bytes al (start, len) = None \<longrightarrow> \<not> fits_at base bytes al (start, len) y)"
    using v(1) assms(5,6)
  proof (cases rule: align_up_cases)
    case fits
    have "u64_sub ?r base = ?r - base" using fits by (intro u64_sub_exact) auto
    moreover have "u64_sub (?r - base) start = ?r - base - start" using fits by (intro u64_sub_exact) auto
    ultimately have f: "fit_block base bytes al (start, len) =
        (if len < ?r - ?v \<or> len - (?r - ?v) < bytes then None else Some (?r - base))"
      by (simp add: fit_block_def v(2) Let_def)
    have "?r \<le> base + y" if "al dvd base + y" "start \<le> y"
      using dvd_next [OF fits(2) that(1)] fits(4) that(2) by linarith
    then show ?thesis using f fits assms(4) by (auto simp: fits_at_def split: if_splits)
  next
    case wraps
    have "u64_sub 0 base = W64 - base" using assms(1,2) by (simp add: u64_sub_def)
    moreover have "u64_sub (W64 - base) start = W64 - base - start"
      using assms(1,2) by (intro u64_sub_exact) auto
    ultimately have f: "fit_block base bytes al (start, len) = None"
      using assms(2,4) by (simp add: fit_block_def v(2) Let_def wraps(3))
    have "\<not> al dvd base + y" if "start \<le> y" "y + bytes \<le> start + len"
    proof
      assume "al dvd base + y"
      then have "W64 \<le> base + y" using dvd_next [OF wraps(2)] wraps(1) that(1) by simp
      then show False using that(2) assms(2,4) by simp
    qed
    then show ?thesis using f by (auto simp: fits_at_def)
  qed
  then show "fit_block base bytes al (start, len) = Some x \<Longrightarrow> fits_at base bytes al (start, len) x"
    "fit_block base bytes al (start, len) = None \<Longrightarrow> \<not> fits_at base bytes al (start, len) y" by auto
qed

section \<open>Invariant\<close>

definition within :: "nat \<Rightarrow> (nat \<times> nat) set \<Rightarrow> bool" where
  "within n B \<longleftrightarrow> (\<forall>b \<in> B. 0 < snd b \<and> fst b + snd b \<le> n)"

definition apart :: "(nat \<times> nat) set \<Rightarrow> bool" where
  "apart B \<longleftrightarrow> (\<forall>b \<in> B. \<forall>c \<in> B. fst b < fst c \<longrightarrow> fst b + snd b \<le> fst c)"

text \<open>Free blocks do not even touch: neighbours have been merged.\<close>

definition merged :: "(nat \<times> nat) set \<Rightarrow> bool" where
  "merged B \<longleftrightarrow> (\<forall>b \<in> B. \<forall>c \<in> B. fst b < fst c \<longrightarrow> fst b + snd b < fst c)"

definition disjoint_blocks :: "(nat \<times> nat) set \<Rightarrow> (nat \<times> nat) set \<Rightarrow> bool" where
  "disjoint_blocks B C \<longleftrightarrow> (\<forall>b \<in> B. \<forall>c \<in> C. fst b + snd b \<le> fst c \<or> fst c + snd c \<le> fst b)"

definition covers :: "nat \<Rightarrow> (nat \<times> nat) set \<Rightarrow> bool" where
  "covers n B \<longleftrightarrow> (\<forall>x < n. \<exists>b \<in> B. fst b \<le> x \<and> x < fst b + snd b)"

definition arena_inv :: "HeapArena \<Rightarrow> bool" where
  "arena_inv a \<longleftrightarrow> 0 < ha_base a \<and> ha_base a + ha_size a \<le> W64 \<and>
     om_ok (free_blocks a) \<and> om_ok (live_blocks a) \<and>
     within (ha_size a) (set (free_blocks a)) \<and> within (ha_size a) (set (live_blocks a)) \<and>
     merged (set (free_blocks a)) \<and> apart (set (live_blocks a)) \<and>
     disjoint_blocks (set (free_blocks a)) (set (live_blocks a)) \<and>
     covers (ha_size a) (set (free_blocks a) \<union> set (live_blocks a)) \<and>
     in_use_bytes a = sum_list (map snd (live_blocks a))"

lemmas arena_preds = within_def apart_def merged_def disjoint_blocks_def covers_def

lemma arena_invD:
  assumes "arena_inv a"
  shows "0 < ha_base a" "ha_base a + ha_size a \<le> W64" "om_ok (free_blocks a)" "om_ok (live_blocks a)"
    "within (ha_size a) (set (free_blocks a))" "within (ha_size a) (set (live_blocks a))"
    "merged (set (free_blocks a))" "apart (set (live_blocks a))"
    "disjoint_blocks (set (free_blocks a)) (set (live_blocks a))"
    "covers (ha_size a) (set (free_blocks a) \<union> set (live_blocks a))"
    "in_use_bytes a = sum_list (map snd (live_blocks a))"
  using assms by (simp_all only: arena_inv_def)

lemma HeapArena_new_inv: "0 < base \<Longrightarrow> base + sz \<le> W64 \<Longrightarrow> arena_inv (HeapArena_new base sz)"
  by (auto simp: arena_inv_def HeapArena_new_def arena_preds)

lemma sum_om_emplace:
  "k \<notin> fst ` set m \<Longrightarrow> sum_list (map snd (om_emplace k v m)) = v + sum_list (map snd (m :: nat omap))"
  by (induction k v m rule: om_emplace.induct) auto

lemma sum_om_erase:
  "om_ok m \<Longrightarrow> (k, v) \<in> set m \<Longrightarrow> v + sum_list (map snd (om_erase k m)) = sum_list (map snd (m :: nat omap))"
proof (induction m)
  case (Cons e m)
  show ?case
  proof (cases "e = (k, v)")
    case True
    then have "filter (\<lambda>e. fst e \<noteq> k) m = m" using Cons.prems by (auto intro!: filter_True)
    then show ?thesis using True by (simp add: om_erase_def)
  next
    case False
    then have "(k, v) \<in> set m" "fst e \<noteq> k" using Cons.prems by auto
    then show ?thesis using Cons by (simp add: om_erase_def)
  qed
qed simp

subsection \<open>Allocation\<close>

lemma first_fit_Some:
  "first_fit base bytes al m = Some (start, len, x) \<Longrightarrow>
   (start, len) \<in> set m \<and> fit_block base bytes al (start, len) = Some x"
  by (induction m) (auto split: option.splits)

lemma first_fit_None:
  "first_fit base bytes al m = None \<Longrightarrow> blk \<in> set m \<Longrightarrow> fit_block base bytes al blk = None"
  by (induction m) (auto split: option.splits)

lemma free_block_bounds:
  assumes "arena_inv a" "(start, len) \<in> set (free_blocks a)"
  shows "0 < len" "start + len \<le> ha_size a" "ha_base a + start + len \<le> W64"
  using arena_invD(2,5) [OF assms(1)] assms(2) by (auto simp: within_def)

lemma carve_free:
  assumes inv: "arena_inv a" and blk: "(start, len) \<in> set (free_blocks a)"
    and x: "start \<le> x" "x + bytes \<le> start + len" "0 < bytes"
  shows "om_ok (free_blocks (carve a start len x bytes))"
    "set (free_blocks (carve a start len x bytes)) =
      (set (free_blocks a) - {(start, len)}) \<union> {b. b = (start, x - start) \<and> start < x} \<union>
      {b. b = (x + bytes, start + len - x - bytes) \<and> x + bytes < start + len}"
proof -
  note d = arena_invD [OF inv]
  define f1 where "f1 = om_erase start (free_blocks a)"
  define f2 where "f2 = (if 0 < x - start then om_emplace start (x - start) f1 else f1)"
  have s1: "set f1 = set (free_blocks a) - {(start, len)}"
    unfolding f1_def using d(3) blk by (rule set_om_erase_entry)
  have "start \<notin> fst ` set f1" by (auto simp: f1_def set_om_erase)
  then have s2: "set f2 = set f1 \<union> {b. b = (start, x - start) \<and> start < x}"
    by (auto simp: f2_def set_om_emplace)
  have k2: "x + bytes \<notin> fst ` set f2"
  proof
    assume "x + bytes \<in> fst ` set f2"
    then obtain e where e: "e \<in> set f2" "fst e = x + bytes" by auto
    then have "e \<noteq> (start, x - start)" using x by auto
    then have "e \<in> set (free_blocks a)" using e(1) unfolding s2 s1 by blast
    moreover have "start < fst e" using e(2) x by simp
    ultimately have "start + len < x + bytes" using d(7) blk e(2) unfolding merged_def by force
    then show False using x(2) by simp
  qed
  have trail: "len - (x - start) - bytes = start + len - x - bytes" using x by simp
  show "om_ok (free_blocks (carve a start len x bytes))"
    using d(3) by (simp add: carve_def Let_def)
  show "set (free_blocks (carve a start len x bytes)) =
      (set (free_blocks a) - {(start, len)}) \<union> {b. b = (start, x - start) \<and> start < x} \<union>
      {b. b = (x + bytes, start + len - x - bytes) \<and> x + bytes < start + len}"
  proof -
    have "free_blocks (carve a start len x bytes) =
        (if x + bytes < start + len then om_emplace (x + bytes) (start + len - x - bytes) f2 else f2)"
      unfolding carve_def Let_def trail f1_def [symmetric] f2_def [symmetric] using x by simp
    then have "set (free_blocks (carve a start len x bytes)) =
        set f2 \<union> {b. b = (x + bytes, start + len - x - bytes) \<and> x + bytes < start + len}"
      by (simp add: set_om_emplace [OF k2])
    then show ?thesis unfolding s2 s1 .
  qed
qed

text \<open>What carving does to the sets of blocks.\<close>

definition carved :: "(nat \<times> nat) set \<Rightarrow> nat \<Rightarrow> nat \<Rightarrow> nat \<Rightarrow> nat \<Rightarrow> (nat \<times> nat) set" where
  "carved F start len x bytes = (F - {(start, len)}) \<union> {b. b = (start, x - start) \<and> start < x} \<union>
     {b. b = (x + bytes, start + len - x - bytes) \<and> x + bytes < start + len}"

lemma carvedE:
  assumes "b \<in> carved F start len x bytes"
  obtains (old) "b \<in> F" "b \<noteq> (start, len)"
  | (lead) "b = (start, x - start)" "start < x"
  | (trail) "b = (x + bytes, start + len - x - bytes)" "x + bytes < start + len"
  using assms by (auto simp: carved_def)

lemma carved_merged:
  assumes "merged F" "start \<le> x" "x + bytes \<le> start + len" "0 < bytes"
    and "\<And>b. b \<in> F \<Longrightarrow> b \<noteq> (start, len) \<Longrightarrow> fst b + snd b < start \<or> start + len < fst b"
  shows "merged (carved F start len x bytes)"
  unfolding merged_def
proof (intro ballI impI)
  fix b c assume "b \<in> carved F start len x bytes" "c \<in> carved F start len x bytes" "fst b < fst c"
  then show "fst b + snd b < fst c"
    using assms(1-4) assms(5) [of b] assms(5) [of c] unfolding merged_def
    by (elim carvedE) auto
qed

lemma carved_disjoint:
  assumes "disjoint_blocks F L" "start \<le> x" "x + bytes \<le> start + len"
    and "\<And>b. b \<in> F \<Longrightarrow> b \<noteq> (start, len) \<Longrightarrow> fst b + snd b < start \<or> start + len < fst b"
    and "\<And>c. c \<in> L \<Longrightarrow> fst c + snd c \<le> start \<or> start + len \<le> fst c"
  shows "disjoint_blocks (carved F start len x bytes) (insert (x, bytes) L)"
  unfolding disjoint_blocks_def
proof (intro ballI)
  fix b c assume b: "b \<in> carved F start len x bytes" and c: "c \<in> insert (x, bytes) L"
  from b show "fst b + snd b \<le> fst c \<or> fst c + snd c \<le> fst b"
    using c assms(1,2,3) assms(4) [of b] assms(5) [of c] unfolding disjoint_blocks_def
    by (cases rule: carvedE) auto
qed

lemma carved_covers:
  assumes "covers n (F \<union> L)" "start \<le> x" "x + bytes \<le> start + len"
  shows "covers n (carved F start len x bytes \<union> insert (x, bytes) L)"
  unfolding covers_def
proof (intro allI impI)
  fix y assume "y < n"
  then obtain b where b: "b \<in> F \<union> L" "fst b \<le> y" "y < fst b + snd b"
    using assms(1) unfolding covers_def by blast
  show "\<exists>b \<in> carved F start len x bytes \<union> insert (x, bytes) L. fst b \<le> y \<and> y < fst b + snd b"
  proof (cases "b = (start, len)")
    case False
    then show ?thesis using b unfolding carved_def by blast
  next
    case True
    consider "y < x" | "x \<le> y" "y < x + bytes" | "x + bytes \<le> y" by linarith
    then show ?thesis
    proof cases
      case 1
      then show ?thesis using b True unfolding carved_def by (intro bexI [of _ "(start, x - start)"]) auto
    next
      case 2
      then show ?thesis by (intro bexI [of _ "(x, bytes)"]) auto
    next
      case 3
      then show ?thesis using b True unfolding carved_def
        by (intro bexI [of _ "(x + bytes, start + len - x - bytes)"]) auto
    qed
  qed
qed

lemma free_block_apart:
  assumes inv: "arena_inv a" and blk: "(start, len) \<in> set (free_blocks a)"
  shows "b \<in> set (live_blocks a) \<Longrightarrow> fst b + snd b \<le> start \<or> start + len \<le> fst b"
    "b \<in> set (free_blocks a) \<Longrightarrow> b \<noteq> (start, len) \<Longrightarrow> fst b + snd b < start \<or> start + len < fst b"
proof -
  note d = arena_invD [OF inv]
  show "b \<in> set (live_blocks a) \<Longrightarrow> fst b + snd b \<le> start \<or> start + len \<le> fst b"
    using d(9) blk unfolding disjoint_blocks_def by force
  show "b \<in> set (free_blocks a) \<Longrightarrow> b \<noteq> (start, len) \<Longrightarrow> fst b + snd b < start \<or> start + len < fst b"
    using d(7) om_keys_inject [OF d(3)] blk unfolding merged_def
    by (metis fst_conv linorder_neqE_nat prod.collapse snd_conv)
qed

lemma carve_inv:
  assumes inv: "arena_inv a" and blk: "(start, len) \<in> set (free_blocks a)"
    and x: "start \<le> x" "x + bytes \<le> start + len" "0 < bytes"
  shows "arena_inv (carve a start len x bytes)"
    "set (live_blocks (carve a start len x bytes)) = insert (x, bytes) (set (live_blocks a))"
proof -
  note d = arena_invD [OF inv]
  let ?a = "carve a start len x bytes"
  note sep = free_block_apart [OF inv blk]
  have same: "ha_base ?a = ha_base a" "ha_size ?a = ha_size a"
    "live_blocks ?a = om_emplace x bytes (live_blocks a)" "in_use_bytes ?a = in_use_bytes a + bytes"
    by (simp_all add: carve_def Let_def)
  have "0 < snd b" if "b \<in> set (live_blocks a)" for b using d(6) that by (auto simp: within_def)
  then have fresh: "x \<notin> fst ` set (live_blocks a)" using sep(1) x by fastforce
  show L: "set (live_blocks ?a) = insert (x, bytes) (set (live_blocks a))"
    using set_om_emplace [OF fresh] same(3) by simp
  have F: "set (free_blocks ?a) = carved (set (free_blocks a)) start len x bytes"
    unfolding carved_def by (rule carve_free(2) [OF inv blk x])
  note bounds = free_block_bounds [OF inv blk]
  have "within (ha_size a) (set (free_blocks ?a))" "within (ha_size a) (set (live_blocks ?a))"
    using d(5,6) bounds x unfolding F L within_def carved_def by auto
  moreover have "merged (set (free_blocks ?a))"
    unfolding F using d(7) x sep(2) by (rule carved_merged)
  moreover have "apart (set (live_blocks ?a))"
    unfolding apart_def L using d(8) sep(1) x unfolding apart_def by fastforce
  moreover have "disjoint_blocks (set (free_blocks ?a)) (set (live_blocks ?a))"
    unfolding F L using d(9) x(1,2) sep(2) sep(1) by (rule carved_disjoint)
  moreover have "covers (ha_size a) (set (free_blocks ?a) \<union> set (live_blocks ?a))"
    unfolding F L using d(10) x(1,2) by (rule carved_covers)
  moreover have "in_use_bytes ?a = sum_list (map snd (live_blocks ?a))"
    using sum_om_emplace [OF fresh] same d(11) by simp
  ultimately show "arena_inv ?a"
    using d(1,2,4) carve_free(1) [OF inv blk x] same by (simp add: arena_inv_def)
qed

subsection \<open>Release\<close>

lemma merge_next_ok:
  assumes "om_ok m" "merged (set m)" "0 < len" "\<And>b. b \<in> set m \<Longrightarrow> fst b + snd b \<le> start \<or> start + len \<le> fst b"
    and "merge_next start len m = (len1, m1)"
  shows "om_ok m1 \<and> set m1 \<subseteq> set m \<and> len \<le> len1 \<and>
    (\<forall>b \<in> set m1. fst b + snd b \<le> start \<or> start + len1 < fst b) \<and>
    (\<forall>b \<in> set m - set m1. b = (start + len, len1 - len)) \<and>
    (len < len1 \<longrightarrow> (start + len, len1 - len) \<in> set m - set m1)"
proof (cases "map_of m (start + len)")
  case None
  then have "\<forall>b \<in> set m. fst b \<noteq> start + len" by (force simp: om_find_None_iff)
  then show ?thesis using assms(1,4,5) None by (fastforce simp: merge_next_def)
next
  case (Some l)
  then have e: "(start + len, l) \<in> set m" using assms(1) by (simp add: om_find_iff)
  have m1: "len1 = len + l" "m1 = om_erase (start + len) m" using Some assms(5) by (auto simp: merge_next_def)
  have s: "set m1 = set m - {(start + len, l)}"
    unfolding m1(2) using assms(1) e by (rule set_om_erase_entry)
  have "start + len1 < fst b" if b: "b \<in> set m1" "\<not> fst b + snd b \<le> start" for b
  proof -
    have "start + len \<le> fst b" "b \<in> set m" "b \<noteq> (start + len, l)" using b assms(4) [of b] s by auto
    moreover have "fst b \<noteq> start + len"
      using om_keys_inject [OF assms(1) e, of "snd b"] calculation by (cases b) auto
    ultimately show ?thesis using assms(2) e m1(1) unfolding merged_def by force
  qed
  then show ?thesis using m1 s assms(1) e by auto
qed

lemma merge_prev_ok:
  assumes "om_ok m" "merged (set m)" "\<And>b. b \<in> set m \<Longrightarrow> 0 < snd b"
    and "\<And>b. b \<in> set m \<Longrightarrow> fst b + snd b \<le> start \<or> start + len < fst b"
    and "merge_prev start len m = (start2, len2, m2)"
  shows "om_ok m2 \<and> set m2 \<subseteq> set m \<and> start2 \<le> start \<and> start2 + len2 = start + len \<and>
    (\<forall>b \<in> set m2. fst b + snd b < start2 \<or> start2 + len2 < fst b) \<and>
    (\<forall>b \<in> set m - set m2. b = (start2, start - start2)) \<and>
    (start2 < start \<longrightarrow> (start2, start - start2) \<in> set m - set m2)"
proof (cases "om_before start m")
  case None
  then have m2: "start2 = start" "len2 = len" "m2 = m" using assms(5) by (auto simp: merge_prev_def)
  have "start + len < fst b" if "b \<in> set m" for b
  proof -
    have "start \<le> fst b" using om_before_None [OF assms(1) None, of "fst b" "snd b"] that by simp
    then show ?thesis using assms(3,4) [OF that] by linarith
  qed
  then show ?thesis using m2 assms(1) by simp
next
  case (Some e)
  obtain p l where e: "e = (p, l)" by (cases e)
  note before = om_before_Some [OF assms(1) Some [unfolded e]]
  have low: "fst b \<le> p" if "b \<in> set m" "fst b + snd b \<le> start" for b
    using before(3) [of "fst b" "snd b"] assms(3) [OF that(1)] that by simp
  have lower: "fst b + snd b < p" if "b \<in> set m" "b \<noteq> (p, l)" "fst b + snd b \<le> start" for b
  proof -
    have "fst b \<noteq> p" using om_keys_inject [OF assms(1) before(1), of "snd b"] that(1,2) by (cases b) auto
    then show ?thesis using low [OF that(1,3)] assms(2) that(1) before(1) unfolding merged_def by force
  qed
  show ?thesis
  proof (cases "p + l = start")
    case True
    then have m2: "start2 = p" "len2 = len + l" "m2 = om_erase p m"
      using assms(5) Some e by (auto simp: merge_prev_def)
    have s: "set m2 = set m - {(p, l)}"
      unfolding m2(3) using assms(1) before(1) by (rule set_om_erase_entry)
    have "fst b + snd b < start2 \<or> start2 + len2 < fst b" if "b \<in> set m2" for b
    proof -
      have "b \<in> set m" "b \<noteq> (p, l)" using that s by auto
      then show ?thesis using lower [of b] assms(4) [of b] m2(1,2) True by linarith
    qed
    then show ?thesis using m2(1,2) s True before(1,2) assms(1) by (auto simp: m2(3))
  next
    case False
    then have m2: "start2 = start" "len2 = len" "m2 = m" using assms(5) Some e by (auto simp: merge_prev_def)
    have "fst b + snd b < start" if "b \<in> set m" "fst b + snd b \<le> start" for b
    proof (cases "b = (p, l)")
      case True
      then show ?thesis using that False by simp
    next
      case False
      then show ?thesis using lower [OF that(1) False that(2)] before(2) by simp
    qed
    then show ?thesis using m2 assms(1,4) by auto
  qed
qed

lemma insert_free_ok:
  assumes m: "om_ok m" "merged (set m)" "0 < len" "\<And>b. b \<in> set m \<Longrightarrow> 0 < snd b"
    and sep: "\<And>b. b \<in> set m \<Longrightarrow> fst b + snd b \<le> start \<or> start + len \<le> fst b"
  shows "\<exists>start2 len2 R. om_ok (insert_free start len m) \<and> set (insert_free start len m) = insert (start2, len2) R \<and>
    R \<subseteq> set m \<and> 0 < len2 \<and> start2 \<le> start \<and> start + len \<le> start2 + len2 \<and>
    (\<forall>b \<in> R. fst b + snd b < start2 \<or> start2 + len2 < fst b) \<and>
    (\<forall>b \<in> set m - R. start2 \<le> fst b \<and> fst b + snd b \<le> start2 + len2) \<and>
    (start2 < start \<longrightarrow> (start2, start - start2) \<in> set m) \<and>
    (start + len < start2 + len2 \<longrightarrow> (start + len, start2 + len2 - (start + len)) \<in> set m)"
proof -
  obtain len1 m1 where n: "merge_next start len m = (len1, m1)" by fastforce
  note n_ok = merge_next_ok [OF m(1,2,3) sep n]
  have mg: "merged (set m1)" using n_ok m(2) unfolding merged_def by blast
  obtain start2 len2 m2 where p: "merge_prev start len1 m1 = (start2, len2, m2)" by (metis prod_cases3)
  have "om_ok m1" "\<And>b. b \<in> set m1 \<Longrightarrow> 0 < snd b"
    "\<And>b. b \<in> set m1 \<Longrightarrow> fst b + snd b \<le> start \<or> start + len1 < fst b" using n_ok m(4) by auto
  note p_ok = merge_prev_ok [OF this(1) mg this(2,3) p]
  have ins: "insert_free start len m = om_emplace start2 len2 m2" by (simp add: insert_free_def n p)
  have fresh: "start2 \<notin> fst ` set m2" using p_ok by fastforce
  have gone: "start2 \<le> fst b \<and> fst b + snd b \<le> start2 + len2" if "b \<in> set m - set m2" for b
  proof (cases "b \<in> set m1")
    case True
    then have "b = (start2, start - start2)" using p_ok that by blast
    then show ?thesis using p_ok by auto
  next
    case False
    then have "b = (start + len, len1 - len)" using n_ok that by blast
    then show ?thesis using p_ok n_ok by auto
  qed
  have "len1 = start2 + len2 - start" using p_ok by auto
  then have right: "start + len < start2 + len2 \<longrightarrow> (start + len, start2 + len2 - (start + len)) \<in> set m"
    using n_ok p_ok by auto
  have "0 < len2" using p_ok n_ok m(3) by linarith
  moreover have "set (insert_free start len m) = insert (start2, len2) (set m2)"
    unfolding ins using fresh by (rule set_om_emplace)
  moreover have "om_ok (insert_free start len m)" unfolding ins using p_ok by (simp only: om_ok_emplace)
  moreover have "set m2 \<subseteq> set m" "start2 \<le> start" "start + len \<le> start2 + len2" using n_ok p_ok by auto
  moreover have "\<forall>b \<in> set m2. fst b + snd b < start2 \<or> start2 + len2 < fst b" using p_ok by blast
  moreover have "start2 < start \<longrightarrow> (start2, start - start2) \<in> set m" using p_ok n_ok by blast
  moreover have "\<forall>b \<in> set m - set m2. start2 \<le> fst b \<and> fst b + snd b \<le> start2 + len2"
    using gone by blast
  ultimately show ?thesis using right
    by (intro exI [of _ start2] exI [of _ len2] exI [of _ "set m2"] conjI)
qed

lemma released_covers:
  assumes "covers n (F \<union> L)" "(start, len) \<in> L" "R \<subseteq> F" "start2 \<le> start" "start + len \<le> start2 + len2"
    and "\<And>b. b \<in> F - R \<Longrightarrow> start2 \<le> fst b \<and> fst b + snd b \<le> start2 + len2"
  shows "covers n (insert (start2, len2) R \<union> (L - {(start, len)}))"
  unfolding covers_def
proof (intro allI impI)
  fix y assume "y < n"
  then obtain b where b: "b \<in> F \<union> L" "fst b \<le> y" "y < fst b + snd b"
    using assms(1) unfolding covers_def by blast
  show "\<exists>b \<in> insert (start2, len2) R \<union> (L - {(start, len)}). fst b \<le> y \<and> y < fst b + snd b"
  proof (cases "b \<in> R \<union> (L - {(start, len)})")
    case True
    then show ?thesis using b by blast
  next
    case False
    then have "start2 \<le> y \<and> y < start2 + len2" using b assms(4,5) assms(6) [of b] by fastforce
    then show ?thesis by (intro bexI [of _ "(start2, len2)"]) auto
  qed
qed

lemma released_disjoint:
  assumes "disjoint_blocks F L" "apart L" "(start, len) \<in> L" "R \<subseteq> F" "0 < len" "\<And>c. c \<in> L \<Longrightarrow> 0 < snd c"
    and keys: "\<And>c. c \<in> L \<Longrightarrow> fst c = start \<Longrightarrow> c = (start, len)"
    and "start2 \<le> start" "start + len \<le> start2 + len2"
    and "start2 < start \<longrightarrow> (start2, start - start2) \<in> F"
    and "start + len < start2 + len2 \<longrightarrow> (start + len, start2 + len2 - (start + len)) \<in> F"
  shows "disjoint_blocks (insert (start2, len2) R) (L - {(start, len)})"
  unfolding disjoint_blocks_def
proof (intro ballI)
  fix b c assume b: "b \<in> insert (start2, len2) R" and c: "c \<in> L - {(start, len)}"
  have cL: "c \<in> L" "fst c \<noteq> start" "0 < snd c" using c keys [of c] assms(6) [of c] by blast+
  have mid: "fst c + snd c \<le> start \<or> start + len \<le> fst c"
    using assms(2,3) cL unfolding apart_def by (metis fst_conv linorder_neqE_nat snd_conv)
  have "fst c + snd c \<le> start2 \<or> start \<le> fst c" if "start2 < start"
    using assms(1,10) that cL(1) unfolding disjoint_blocks_def by fastforce
  moreover have "fst c + snd c \<le> start + len \<or> start2 + len2 \<le> fst c" if "start + len < start2 + len2"
    using assms(1,11) that cL(1) unfolding disjoint_blocks_def by fastforce
  ultimately have "fst c + snd c \<le> start2 \<or> start2 + len2 \<le> fst c"
    using mid cL assms(5,8,9) by linarith
  then show "fst b + snd b \<le> fst c \<or> fst c + snd c \<le> fst b"
    using b cL(1) assms(1,4) unfolding disjoint_blocks_def by auto
qed

lemma release_inv:
  assumes inv: "arena_inv a" and blk: "(start, len) \<in> set (live_blocks a)"
  defines "a' \<equiv> a \<lparr> live_blocks := om_erase start (live_blocks a), in_use_bytes := in_use_bytes a - len,
    free_blocks := insert_free start len (free_blocks a) \<rparr>"
  shows "arena_inv a'" "set (live_blocks a') = set (live_blocks a) - {(start, len)}"
proof -
  note d = arena_invD [OF inv]
  have len: "0 < len" "start + len \<le> ha_size a" using d(6) blk by (auto simp: within_def)
  have sep: "fst b + snd b \<le> start \<or> start + len \<le> fst b" if "b \<in> set (free_blocks a)" for b
    using d(9) blk that unfolding disjoint_blocks_def by force
  have pos: "0 < snd b" if "b \<in> set (free_blocks a)" for b using d(5) that by (auto simp: within_def)
  from insert_free_ok [OF d(3,7) len(1) pos sep] obtain start2 len2 R where
    f: "om_ok (free_blocks a')" "set (free_blocks a') = insert (start2, len2) R" "R \<subseteq> set (free_blocks a)" "0 < len2"
      "start2 \<le> start" "start + len \<le> start2 + len2"
      "\<forall>b \<in> R. fst b + snd b < start2 \<or> start2 + len2 < fst b"
      "\<forall>b \<in> set (free_blocks a) - R. start2 \<le> fst b \<and> fst b + snd b \<le> start2 + len2"
      "start2 < start \<longrightarrow> (start2, start - start2) \<in> set (free_blocks a)"
      "start + len < start2 + len2 \<longrightarrow> (start + len, start2 + len2 - (start + len)) \<in> set (free_blocks a)"
    unfolding a'_def by auto
  show L: "set (live_blocks a') = set (live_blocks a) - {(start, len)}"
    unfolding a'_def using set_om_erase_entry [OF d(4) blk] by simp
  have "start2 + len2 \<le> ha_size a" using f(6,10) len(2) d(5) unfolding within_def by fastforce
  then have "within (ha_size a) (set (free_blocks a'))"
    using f(2,3,4) d(5) unfolding within_def by auto
  moreover have "within (ha_size a) (set (live_blocks a'))" "apart (set (live_blocks a'))"
    using d(6,8) unfolding L within_def apart_def by auto
  moreover have "merged (set (free_blocks a'))"
    using d(7) f(3,4,7) unfolding f(2) merged_def by fastforce
  moreover have "disjoint_blocks (set (free_blocks a')) (set (live_blocks a'))"
    unfolding f(2) L using d(9,8) blk f(3) len(1) _ _ f(5,6,9,10)
    by (rule released_disjoint) (use d(6) om_keys_inject [OF d(4) _ blk] in \<open>auto simp: within_def\<close>)
  moreover have "covers (ha_size a) (set (free_blocks a') \<union> set (live_blocks a'))"
    unfolding f(2) L using d(10) blk f(3,5,6) by (rule released_covers) (use f(8) in auto)
  moreover have "in_use_bytes a' = sum_list (map snd (live_blocks a'))"
    using sum_om_erase [OF d(4) blk] d(11) by (simp add: a'_def)
  ultimately show "arena_inv a'" using d(1,2,4) f(1) by (simp add: arena_inv_def a'_def)
qed

lemma deallocate_inv: "arena_inv a \<Longrightarrow> arena_inv (HeapArena_deallocate a p)"
  using release_inv(1) [of a "p - ha_base a"]
  by (auto simp: HeapArena_deallocate_def om_find_iff arena_invD(4) split: option.splits)

section \<open>What allocation returns\<close>

lemma allocate_cases:
  assumes inv: "arena_inv a" and req: "0 < bytes" "is_pow2 al" "al < W64"
  obtains (fail) "HeapArena_allocate a bytes al = (0, a)"
      "\<And>blk y. blk \<in> set (free_blocks a) \<Longrightarrow> \<not> fits_at (ha_base a) bytes al blk y"
  | (success) start len x where "(start, len) \<in> set (free_blocks a)" "start \<le> x" "x + bytes \<le> start + len"
      "al dvd ha_base a + x" "HeapArena_allocate a bytes al = (ha_base a + x, carve a start len x bytes)"
proof (cases "first_fit (ha_base a) bytes al (free_blocks a)")
  case None
  have "\<not> fits_at (ha_base a) bytes al blk y" if "blk \<in> set (free_blocks a)" for blk y
  proof -
    have b: "(fst blk, snd blk) \<in> set (free_blocks a)" using that by simp
    from fit_block_ok(2) [OF arena_invD(1) [OF inv] free_block_bounds(3,1) [OF inv b] req]
      first_fit_None [OF None that] show ?thesis by simp
  qed
  then show ?thesis using None arena_invD(1) [OF inv] req
    by (intro fail) (auto simp: HeapArena_allocate_def)
next
  case (Some t)
  obtain start len x where t: "t = (start, len, x)" by (metis prod_cases3)
  from first_fit_Some [OF Some [unfolded t]] have b: "(start, len) \<in> set (free_blocks a)"
    and f: "fit_block (ha_base a) bytes al (start, len) = Some x" by auto
  have "fits_at (ha_base a) bytes al (start, len) x"
    using fit_block_ok(1) [OF arena_invD(1) [OF inv] free_block_bounds(3,1) [OF inv b] req f] .
  then show ?thesis using b Some t arena_invD(1) [OF inv] req
    by (intro success [of start len x]) (auto simp: HeapArena_allocate_def fits_at_def)
qed

lemma gap_in_one_block:
  assumes inv: "arena_inv a" and y: "0 < bytes" "y + bytes \<le> ha_size a"
    and free: "\<And>b. b \<in> set (live_blocks a) \<Longrightarrow> fst b + snd b \<le> y \<or> y + bytes \<le> fst b"
  shows "\<exists>blk \<in> set (free_blocks a). fst blk \<le> y \<and> y + bytes \<le> fst blk + snd blk"
proof -
  note d = arena_invD [OF inv]
  have hit: "\<exists>b \<in> set (free_blocks a). fst b \<le> z \<and> z < fst b + snd b" if "y \<le> z" "z < y + bytes" for z
  proof -
    have "z < ha_size a" using that y(2) by simp
    then obtain b where b: "b \<in> set (free_blocks a) \<union> set (live_blocks a)" "fst b \<le> z" "z < fst b + snd b"
      using d(10) unfolding covers_def by blast
    then have "b \<notin> set (live_blocks a)" using free [of b] that by auto
    then show ?thesis using b by blast
  qed
  from hit [of y] y(1) obtain b where b: "b \<in> set (free_blocks a)" "fst b \<le> y" "y < fst b + snd b" by auto
  have "y + bytes \<le> fst b + snd b"
  proof (rule ccontr)
    assume "\<not> y + bytes \<le> fst b + snd b"
    with hit [of "fst b + snd b"] b obtain c where
      c: "c \<in> set (free_blocks a)" "fst c \<le> fst b + snd b" "fst b + snd b < fst c + snd c" by auto
    have "fst b \<noteq> fst c" using om_keys_inject [OF d(3), of "fst b" "snd b" "snd c"] b(1) c by (auto simp: prod_eq_iff)
    then show False using d(7) b c unfolding merged_def by (metis linorder_neqE_nat not_less less_trans le_less_trans less_imp_le add_lessD1)
  qed
  then show ?thesis using b by blast
qed

section \<open>The free list is determined by the live blocks\<close>

lemma free_start_eq:
  assumes F: "merged F" "merged G" "disjoint_blocks F L" "disjoint_blocks G L" "covers n (F \<union> L)" "within n G"
    and b: "(s, l) \<in> F" "(s2, l2) \<in> G" "s2 \<le> s" "s < s2 + l2"
  shows "s2 = s"
proof (rule ccontr)
  assume "s2 \<noteq> s"
  then have "s2 \<le> s - 1" "s - 1 < s2 + l2" "s - 1 < s" using b by auto
  moreover have "s - 1 < n" using F(6) b calculation unfolding within_def by fastforce
  then obtain c where c: "c \<in> F \<union> L" "fst c \<le> s - 1" "s - 1 < fst c + snd c"
    using F(5) unfolding covers_def by blast
  ultimately have "c \<notin> L" using F(4) b(2) unfolding disjoint_blocks_def by fastforce
  then have "fst c + snd c < s" using F(1) b(1) c \<open>s - 1 < s\<close> unfolding merged_def by fastforce
  then show False using c by simp
qed

lemma free_end_le:
  assumes F: "merged F" "disjoint_blocks G L" "covers n (F \<union> L)" "within n G" "om_ok m" "F = set m"
    and b: "(s, l) \<in> F" "(s, l2) \<in> G"
  shows "l2 \<le> l"
proof (rule ccontr)
  assume "\<not> l2 \<le> l"
  then have lt: "s + l < s + l2" by simp
  then have "s + l < n" using F(4) b(2) unfolding within_def by fastforce
  then obtain c where c: "c \<in> F \<union> L" "fst c \<le> s + l" "s + l < fst c + snd c"
    using F(3) unfolding covers_def by blast
  have "c \<notin> L" using F(2) b(2) c lt unfolding disjoint_blocks_def by fastforce
  then have cF: "c \<in> F" using c by simp
  consider "fst c < s" | "fst c = s" | "s < fst c" by linarith
  then show False
  proof cases
    case 1
    then show ?thesis using F(1) b(1) cF c unfolding merged_def by fastforce
  next
    case 2
    then have "snd c = l" using om_keys_inject [OF F(5)] b(1) cF F(6) by (metis prod.collapse)
    then show ?thesis using c 2 by simp
  next
    case 3
    then show ?thesis using F(1) b(1) cF c unfolding merged_def by fastforce
  qed
qed

lemma free_blocks_subset:
  assumes a: "arena_inv a" and b: "arena_inv b" and same: "ha_size a = ha_size b" "set (live_blocks a) = set (live_blocks b)"
  shows "set (free_blocks a) \<subseteq> set (free_blocks b)"
proof
  fix e assume e: "e \<in> set (free_blocks a)"
  obtain s l where sl: "e = (s, l)" by (cases e)
  note da = arena_invD [OF a] and db = arena_invD [OF b]
  have "0 < l" "s + l \<le> ha_size a" using free_block_bounds [OF a] e sl by auto
  then have "s < ha_size b" using same(1) by simp
  then obtain c where c: "c \<in> set (free_blocks b) \<union> set (live_blocks b)" "fst c \<le> s" "s < fst c + snd c"
    using db(10) unfolding covers_def by blast
  have "c \<notin> set (live_blocks b)" using da(9) e sl c \<open>0 < l\<close> same(2) unfolding disjoint_blocks_def by fastforce
  then obtain s2 l2 where c2: "(s2, l2) \<in> set (free_blocks b)" "s2 \<le> s" "s < s2 + l2"
    using c by (cases c) auto
  have "s2 = s"
    using da(7) db(7) da(9) db(9) [folded same(2)] da(10) db(5) [folded same(1)] e [unfolded sl] c2
    by (rule free_start_eq)
  then have c3: "(s, l2) \<in> set (free_blocks b)" using c2 by simp
  have "l2 \<le> l"
    using da(7) db(9) [folded same(2)] da(10) db(5) [folded same(1)] da(3) refl e [unfolded sl] c3
    by (rule free_end_le)
  moreover have "l \<le> l2"
    using db(7) da(9) [unfolded same(2)] db(10) da(5) [unfolded same(1)] db(3) refl c3 e [unfolded sl]
    by (rule free_end_le)
  ultimately show "e \<in> set (free_blocks b)" using c3 sl by simp
qed

lemma om_eq_if_set_eq: "om_ok m \<Longrightarrow> om_ok m' \<Longrightarrow> set m = set m' \<Longrightarrow> m = m'"
  for m m' :: "nat omap"
proof (induction m arbitrary: m')
  case (Cons e m)
  then obtain e' m'' where m': "m' = e' # m''" by (cases m') auto
  have "e = e'" using Cons.prems unfolding m' by (metis insert_iff less_asym list.simps(15) om_ok_simps(2))
  moreover have "e \<notin> set m" "e' \<notin> set m''" using Cons.prems(1,2) m' by auto
  ultimately show ?case using Cons.IH [of m''] Cons.prems m' by (simp add: insert_ident)
qed simp

lemma arena_canonical:
  assumes "arena_inv a" "arena_inv b" "ha_base a = ha_base b" "ha_size a = ha_size b"
    and live: "set (live_blocks a) = set (live_blocks b)"
  shows "a = b"
proof -
  have "set (free_blocks a) = set (free_blocks b)"
    using free_blocks_subset [OF assms(1,2,4) live] free_blocks_subset [OF assms(2,1) assms(4) [symmetric] live [symmetric]]
    by blast
  then have "free_blocks a = free_blocks b" "live_blocks a = live_blocks b"
    using om_eq_if_set_eq arena_invD(3,4) [OF assms(1)] arena_invD(3,4) [OF assms(2)] live by blast+
  then show ?thesis using assms(3,4) arena_invD(11) [OF assms(1)] arena_invD(11) [OF assms(2)]
    by (cases a, cases b) simp
qed

section \<open>Properties\<close>

lemma arena_allocate_ok:
  assumes "arena_inv a" "is_pow2 al" "al < W64" "fst (HeapArena_allocate a bytes al) = p" "p \<noteq> 0"
  shows "al dvd p \<and> ha_base a \<le> p \<and> p + bytes \<le> ha_base a + ha_size a \<and>
    (\<forall>(start, len) \<in> set (live_blocks a).
       ha_base a + start + len \<le> p \<or> p + bytes \<le> ha_base a + start) \<and>
    arena_inv (snd (HeapArena_allocate a bytes al)) \<and>
    block_size (snd (HeapArena_allocate a bytes al)) p = bytes"
proof -
  have b: "0 < bytes" using assms(4,5) by (cases bytes) (auto simp: HeapArena_allocate_def)
  from assms(1) b assms(2,3) show ?thesis
  proof (cases rule: allocate_cases)
    case fail
    then show ?thesis using assms(4,5) by simp
  next
    case (success start len x)
    note c = carve_inv [OF assms(1) success(1,2,3) b]
    have same: "ha_base (carve a start len x bytes) = ha_base a" "ha_size (carve a start len x bytes) = ha_size a"
      by (simp_all add: carve_def Let_def)
    have fit: "x + bytes \<le> ha_size a" using success(3) free_block_bounds(2) [OF assms(1) success(1)] by simp
    have "(x, bytes) \<in> set (live_blocks (carve a start len x bytes))" using c(2) by simp
    then have "map_of (live_blocks (carve a start len x bytes)) x = Some bytes"
      using arena_invD(4) [OF c(1)] by (simp add: om_find_iff)
    then have "block_size (carve a start len x bytes) (ha_base a + x) = bytes"
      using same fit b arena_invD(1) [OF assms(1)] by (simp add: block_size_def owns_def)
    moreover have p: "p = ha_base a + x" using success(5) assms(4) by simp
    have "\<forall>(s, l) \<in> set (live_blocks a). ha_base a + s + l \<le> p \<or> p + bytes \<le> ha_base a + s"
      unfolding p using free_block_apart(1) [OF assms(1) success(1)] success(2,3) by fastforce
    ultimately show ?thesis using success(4,5) c(1) fit p by simp
  qed
qed

text \<open>Property C7. A pointer that the arena returns is aligned as requested, lies with all its
  bytes inside the managed range, overlaps no live block, and leaves an arena in which free and
  live blocks tile the range again.\<close>

theorem arena_allocate_sound:
  assumes "arena_inv a" "is_pow2 al" "al < W64" "fst (HeapArena_allocate a bytes al) = p" "p \<noteq> 0"
  shows "al dvd p \<and> ha_base a \<le> p \<and> p + bytes \<le> ha_base a + ha_size a \<and>
    (\<forall>(start, len) \<in> set (live_blocks a).
       ha_base a + start + len \<le> p \<or> p + bytes \<le> ha_base a + start) \<and>
    arena_inv (snd (HeapArena_allocate a bytes al)) \<and>
    block_size (snd (HeapArena_allocate a bytes al)) p = bytes"
  using assms by (rule arena_allocate_ok)

theorem arena_allocate_sound_witness:
  "16 dvd fst (HeapArena_allocate (HeapArena_new 4096 256) 100 16) \<and>
   arena_inv (snd (HeapArena_allocate (HeapArena_new 4096 256) 100 16))"
proof -
  have "arena_inv (HeapArena_new 4096 256)" by (rule HeapArena_new_inv) (simp_all add: W64_def)
  moreover have "is_pow2 16" "16 < W64" by code_simp+
  moreover have "fst (HeapArena_allocate (HeapArena_new 4096 256) 100 16) = 4096" by code_simp
  ultimately show ?thesis using arena_allocate_sound [of "HeapArena_new 4096 256" 16 100 4096] by simp
qed

text \<open>Property C19. The arena refuses a request only when the range holds no gap for it: no
  aligned place of that many bytes is clear of all live blocks. Freed neighbours are always
  merged, so fragmentation of the free list itself never causes a refusal.\<close>

theorem arena_allocate_complete:
  assumes "arena_inv a" "0 < bytes" "is_pow2 al" "al < W64"
    and "fst (HeapArena_allocate a bytes al) = 0"
    and "y + bytes \<le> ha_size a" "al dvd ha_base a + y"
  shows "\<exists>(start, len) \<in> set (live_blocks a). start < y + bytes \<and> y < start + len"
proof (rule ccontr)
  assume "\<not> (\<exists>(start, len) \<in> set (live_blocks a). start < y + bytes \<and> y < start + len)"
  then have "fst b + snd b \<le> y \<or> y + bytes \<le> fst b" if "b \<in> set (live_blocks a)" for b
    using that by (cases b) fastforce
  from gap_in_one_block [OF assms(1,2,6) this] obtain blk where
    blk: "blk \<in> set (free_blocks a)" "fst blk \<le> y" "y + bytes \<le> fst blk + snd blk" by blast
  then have "fits_at (ha_base a) bytes al blk y" using assms(7) by (simp add: fits_at_def)
  with assms(1,2,3,4) show False
    by (cases rule: allocate_cases) (use blk assms(5) arena_invD(1) [OF assms(1)] in auto)
qed

theorem arena_allocate_complete_witness:
  "\<exists>(start, len) \<in> set (live_blocks (snd (HeapArena_allocate (HeapArena_new 4096 256) 200 16))).
     start < 128 + 100 \<and> 128 < start + len"
proof (rule arena_allocate_complete)
  have "arena_inv (HeapArena_new 4096 256)" by (rule HeapArena_new_inv) (simp_all add: W64_def)
  moreover have "is_pow2 16" "16 < W64" "fst (HeapArena_allocate (HeapArena_new 4096 256) 200 16) = 4096" by code_simp+
  ultimately show "arena_inv (snd (HeapArena_allocate (HeapArena_new 4096 256) 200 16))"
    using allocate_cases [of "HeapArena_new 4096 256" 200 16] carve_inv(1) [of "HeapArena_new 4096 256" _ _ _ 200]
    by (metis snd_conv zero_less_numeral)
  show "fst (HeapArena_allocate (snd (HeapArena_allocate (HeapArena_new 4096 256) 200 16)) 100 16) = 0"
    "is_pow2 16" "16 < W64" "128 + 100 \<le> ha_size (snd (HeapArena_allocate (HeapArena_new 4096 256) 200 16))"
    "16 dvd ha_base (snd (HeapArena_allocate (HeapArena_new 4096 256) 200 16)) + 128"
    by code_simp+
qed simp

text \<open>Property C37. Freeing what was just allocated puts the arena back into exactly the state it
  was in: the split blocks are merged again and the accounting is undone.\<close>

theorem arena_free_undoes_allocate:
  assumes "arena_inv a" "is_pow2 al" "al < W64" "fst (HeapArena_allocate a bytes al) \<noteq> 0"
  shows "HeapArena_deallocate (snd (HeapArena_allocate a bytes al)) (fst (HeapArena_allocate a bytes al)) = a"
proof -
  have b: "0 < bytes" using assms(4) by (cases bytes) (auto simp: HeapArena_allocate_def)
  from assms(1) b assms(2,3) show ?thesis
  proof (cases rule: allocate_cases)
    case fail
    then show ?thesis using assms(4) by simp
  next
    case (success start len x)
    let ?a = "carve a start len x bytes"
    note c = carve_inv [OF assms(1) success(1,2,3) b]
    have same: "ha_base ?a = ha_base a" "ha_size ?a = ha_size a" by (simp_all add: carve_def Let_def)
    have fit: "x + bytes \<le> ha_size a" using success(3) free_block_bounds(2) [OF assms(1) success(1)] by simp
    have blk: "(x, bytes) \<in> set (live_blocks ?a)" using c(2) by simp
    note r = release_inv [OF c(1) blk]
    have "(x, bytes) \<notin> set (live_blocks a)"
      using free_block_apart(1) [OF assms(1) success(1), of "(x, bytes)"] success(2,3) b by fastforce
    then have live: "set (live_blocks ?a) - {(x, bytes)} = set (live_blocks a)" using c(2) by auto
    have "map_of (live_blocks ?a) x = Some bytes" using arena_invD(4) [OF c(1)] blk by (simp add: om_find_iff)
    then have "HeapArena_deallocate ?a (ha_base a + x) = ?a \<lparr> live_blocks := om_erase x (live_blocks ?a),
        in_use_bytes := in_use_bytes ?a - bytes, free_blocks := insert_free x bytes (free_blocks ?a) \<rparr>"
      using same fit b arena_invD(1) [OF assms(1)] by (simp add: HeapArena_deallocate_def owns_def)
    also have "\<dots> = a" using r same live by (intro arena_canonical [OF r(1) assms(1)]) simp_all
    finally show ?thesis using success(5) by simp
  qed
qed

theorem arena_free_undoes_allocate_witness:
  "HeapArena_deallocate (snd (HeapArena_allocate (HeapArena_new 4100 256) 100 16))
     (fst (HeapArena_allocate (HeapArena_new 4100 256) 100 16)) = HeapArena_new 4100 256"
proof (rule arena_free_undoes_allocate)
  show "arena_inv (HeapArena_new 4100 256)" by (rule HeapArena_new_inv) (simp_all add: W64_def)
  show "is_pow2 16" "16 < W64" "fst (HeapArena_allocate (HeapArena_new 4100 256) 100 16) \<noteq> 0" by code_simp+
qed

end
