(* ===== verification/RemoteHeap.thy ===== *)
theory RemoteHeap
  imports ClientApi
begin

text \<open>
  The remote heap (\<open>memclient/src/remote_heap.cpp\<close>): a region of ordinary memory whose pages
  are fetched from the client on a fault and written back when the resident set exceeds the
  local budget. The two collaborators are reached through their interfaces: the operations of
  \<open>MemoryClient\<close> and of \<open>IPageFaultBackend\<close> are fields of an environment over the client's
  state and the backend's state. The memory of the region belongs to the backend's state.
\<close>

section \<open>Interfaces and state\<close>

record PageRegion =
  pr_addr :: "nat option"
  pr_size :: nat

record FaultInfo =
  fi_addr :: nat
  fi_is_write :: bool

record ('c, 'b) heap_env =
  he_max_local_bytes :: "'c \<Rightarrow> nat"
  he_allocate :: "nat \<Rightarrow> 'c \<Rightarrow> (cpp_error + nat) \<times> 'c"
  he_free :: "nat \<Rightarrow> 'c \<Rightarrow> 'c"
  he_read :: "nat \<Rightarrow> nat \<Rightarrow> nat \<Rightarrow> 'c \<Rightarrow> (cpp_error + bytes) \<times> 'c"
  he_write :: "nat \<Rightarrow> nat \<Rightarrow> bytes \<Rightarrow> 'c \<Rightarrow> (cpp_error + unit) \<times> 'c"
  he_is_supported :: "'b \<Rightarrow> bool"
  he_page_size :: "'b \<Rightarrow> nat"
  he_reserve_region :: "nat \<Rightarrow> 'b \<Rightarrow> PageRegion \<times> 'b"
  he_release_region :: "nat \<Rightarrow> 'b \<Rightarrow> 'b"
  he_on_fault :: "bool \<Rightarrow> 'b \<Rightarrow> 'b"
  he_resolve_fault :: "nat \<Rightarrow> bytes \<Rightarrow> 'b \<Rightarrow> 'b"
  he_is_dirty :: "nat \<Rightarrow> nat \<Rightarrow> 'b \<Rightarrow> bool"
  he_clear_dirty :: "nat \<Rightarrow> nat \<Rightarrow> 'b \<Rightarrow> 'b"
  he_evict_pages :: "nat \<Rightarrow> nat \<Rightarrow> 'b \<Rightarrow> bool \<times> 'b"
  he_load :: "nat \<Rightarrow> nat \<Rightarrow> 'b \<Rightarrow> bytes"

record RemoteHeapConfig =
  rc_capacity_bytes :: nat
  rc_local_budget_bytes :: nat
  rc_page_bytes :: nat

record HeapStats =
  st_resident_bytes :: nat
  st_fetches :: nat
  st_flushes :: nat
  st_evictions :: nat

record ('c, 'b) RemoteHeap =
  rh_client :: 'c
  rh_backend :: 'b
  rh_base :: "nat option"
  rh_capacity :: nat
  rh_page_bytes :: nat
  rh_page_count :: nat
  rh_local_budget_bytes :: nat
  rh_handle :: nat
  rh_resident_order :: "nat list"
  rh_resident :: "nat set"
  rh_stats :: HeapStats

section \<open>Construction and destruction\<close>

definition round_up :: "nat \<Rightarrow> nat \<Rightarrow> nat" where
  "round_up value multiple = u64_mul (u64_sub (u64_add value multiple) 1 div multiple) multiple"

definition RemoteHeap_new ::
  "('c, 'b) heap_env \<Rightarrow> RemoteHeapConfig \<Rightarrow> 'c \<Rightarrow> 'b \<Rightarrow> cpp_error + ('c, 'b) RemoteHeap" where
  "RemoteHeap_new H config cl be =
    (if rc_capacity_bytes config = 0 then Inl (RuntimeError ''RemoteHeap: capacity_bytes must be non-zero'')
     else if \<not> he_is_supported H be then Inl (RuntimeError ''RemoteHeap: no usable page-fault backend on this system'')
     else
       let os_page = he_page_size H be;
           page_bytes = round_up (max (rc_page_bytes config) os_page) os_page;
           capacity = round_up (rc_capacity_bytes config) page_bytes;
           budget = max (round_up (rc_local_budget_bytes config) page_bytes) page_bytes
       in if capacity \<le> he_max_local_bytes H cl then
            Inl (RuntimeError (''RemoteHeap: capacity ('' @ show_nat capacity @
              '' bytes) does not exceed the client's local cache ('' @ show_nat (he_max_local_bytes H cl) @
              '' bytes), so the backing block would stay in local memory''))
          else case he_reserve_region H capacity be of (region, be1) \<Rightarrow>
            (case pr_addr region of
               None \<Rightarrow> Inl (RuntimeError (''RemoteHeap: could not reserve '' @ show_nat capacity @ '' bytes of address space''))
             | Some base \<Rightarrow>
                 (case he_allocate H (pr_size region) cl of
                    (Inl e, cl1) \<Rightarrow> Inl e
                  | (Inr h, cl1) \<Rightarrow> Inr \<lparr> rh_client = cl1, rh_backend = he_on_fault H True be1, rh_base = Some base,
                      rh_capacity = pr_size region, rh_page_bytes = page_bytes,
                      rh_page_count = pr_size region div page_bytes, rh_local_budget_bytes = budget, rh_handle = h,
                      rh_resident_order = [], rh_resident = {},
                      rh_stats = \<lparr> st_resident_bytes = 0, st_fetches = 0, st_flushes = 0, st_evictions = 0 \<rparr> \<rparr>)))"

definition RemoteHeap_destroy :: "('c, 'b) heap_env \<Rightarrow> ('c, 'b) RemoteHeap \<Rightarrow> ('c, 'b) RemoteHeap" where
  "RemoteHeap_destroy H s =
    (let s0 = s \<lparr> rh_backend := he_on_fault H False (rh_backend s) \<rparr>;
         s1 = (case rh_base s0 of
                 None \<Rightarrow> s0
               | Some base \<Rightarrow> s0 \<lparr> rh_backend := he_release_region H base (rh_backend s0) \<rparr>);
         s2 = s1 \<lparr> rh_base := None \<rparr>
     in if rh_handle s2 = 0 then s2
        else s2 \<lparr> rh_client := he_free H (rh_handle s2) (rh_client s2), rh_handle := 0 \<rparr>)"

section \<open>Write back and eviction\<close>

definition base_of :: "('c, 'b) RemoteHeap \<Rightarrow> nat" where
  "base_of s = (case rh_base s of None \<Rightarrow> 0 | Some b \<Rightarrow> b)"

definition page_addr :: "('c, 'b) RemoteHeap \<Rightarrow> nat \<Rightarrow> nat" where
  "page_addr s i = u64_add (base_of s) (u64_mul i (rh_page_bytes s))"

definition page_index_of :: "('c, 'b) RemoteHeap \<Rightarrow> nat \<Rightarrow> nat" where
  "page_index_of s addr = u64_sub addr (base_of s) div rh_page_bytes s"

definition page_offset :: "('c, 'b) RemoteHeap \<Rightarrow> nat \<Rightarrow> nat" where
  "page_offset s i = u64_mul i (rh_page_bytes s)"

definition page_length :: "('c, 'b) RemoteHeap \<Rightarrow> nat \<Rightarrow> nat" where
  "page_length s i = min (rh_page_bytes s) (u64_sub (rh_capacity s) (page_offset s i))"

definition flush_page :: "('c, 'b) heap_env \<Rightarrow> nat \<Rightarrow> ('c, 'b) RemoteHeap \<Rightarrow> (cpp_error + unit) \<times> ('c, 'b) RemoteHeap" where
  "flush_page H i s =
    (let addr = page_addr s i; len = page_length s i in
     if \<not> he_is_dirty H addr len (rh_backend s) then (Inr (), s)
     else case he_write H (rh_handle s) (page_offset s i) (he_load H addr len (rh_backend s)) (rh_client s) of
       (Inl e, cl) \<Rightarrow> (Inl e, s \<lparr> rh_client := cl \<rparr>)
     | (Inr _, cl) \<Rightarrow> (Inr (), s \<lparr> rh_client := cl, rh_backend := he_clear_dirty H addr len (rh_backend s),
          rh_stats := (rh_stats s) \<lparr> st_flushes := u64_add (st_flushes (rh_stats s)) 1 \<rparr> \<rparr>))"

text \<open>\<open>resident_order_.splice(end, it)\<close>\<close>

definition move_to_back :: "nat \<Rightarrow> ('c, 'b) RemoteHeap \<Rightarrow> ('c, 'b) RemoteHeap" where
  "move_to_back i s = s \<lparr> rh_resident_order := remove1 i (rh_resident_order s) @ [i] \<rparr>"

definition forget_page :: "nat \<Rightarrow> ('c, 'b) RemoteHeap \<Rightarrow> ('c, 'b) RemoteHeap" where
  "forget_page i s = s \<lparr> rh_resident_order := remove1 i (rh_resident_order s), rh_resident := rh_resident s - {i},
     rh_stats := (rh_stats s) \<lparr> st_resident_bytes := u64_sub (st_resident_bytes (rh_stats s)) (page_length s i),
       st_evictions := u64_add (st_evictions (rh_stats s)) 1 \<rparr> \<rparr>"

definition evict_page :: "('c, 'b) heap_env \<Rightarrow> nat \<Rightarrow> ('c, 'b) RemoteHeap \<Rightarrow> (cpp_error + unit) \<times> ('c, 'b) RemoteHeap" where
  "evict_page H i s =
    (if i \<notin> rh_resident s then (Inr (), s)
     else case flush_page H i s of
       (Inl e, s1) \<Rightarrow> if is_exception e then (Inr (), move_to_back i s1) else (Inl e, s1)
     | (Inr _, s1) \<Rightarrow>
         (case he_evict_pages H (page_addr s1 i) (page_length s1 i) (rh_backend s1) of
            (False, be) \<Rightarrow> (Inr (), move_to_back i (s1 \<lparr> rh_backend := be \<rparr>))
          | (True, be) \<Rightarrow> (Inr (), forget_page i (s1 \<lparr> rh_backend := be \<rparr>))))"

text \<open>The loop may run for ever; then its value is \<open>None\<close>.\<close>

partial_function (option) enforce_budget ::
  "('c, 'b) heap_env \<Rightarrow> ('c, 'b) RemoteHeap \<Rightarrow> ((cpp_error + unit) \<times> ('c, 'b) RemoteHeap) option" where
  "enforce_budget H s =
    (if rh_local_budget_bytes s < st_resident_bytes (rh_stats s) \<and> 1 < length (rh_resident_order s) then
       (case evict_page H (hd (rh_resident_order s)) s of
          (Inl e, s1) \<Rightarrow> Some (Inl e, s1)
        | (Inr _, s1) \<Rightarrow> enforce_budget H s1)
     else Some (Inr (), s))"

section \<open>Faults\<close>

definition note_resident :: "nat \<Rightarrow> ('c, 'b) RemoteHeap \<Rightarrow> ('c, 'b) RemoteHeap" where
  "note_resident i s =
    (let s1 = (if i \<in> rh_resident s then s
               else s \<lparr> rh_resident_order := rh_resident_order s @ [i], rh_resident := insert i (rh_resident s),
                 rh_stats := (rh_stats s) \<lparr> st_resident_bytes := u64_add (st_resident_bytes (rh_stats s)) (page_length s i) \<rparr> \<rparr>)
     in s1 \<lparr> rh_stats := (rh_stats s1) \<lparr> st_fetches := u64_add (st_fetches (rh_stats s1)) 1 \<rparr> \<rparr>)"

text \<open>The part of the handler that runs under the mutex.\<close>

definition install_page ::
  "('c, 'b) heap_env \<Rightarrow> nat \<Rightarrow> bytes \<Rightarrow> ('c, 'b) RemoteHeap \<Rightarrow> ((cpp_error + unit) \<times> ('c, 'b) RemoteHeap) option" where
  "install_page H i bs s =
    enforce_budget H (note_resident i (s \<lparr> rh_backend := he_resolve_fault H (page_addr s i) bs (rh_backend s) \<rparr>))"

definition handle_fault ::
  "('c, 'b) heap_env \<Rightarrow> FaultInfo \<Rightarrow> ('c, 'b) RemoteHeap \<Rightarrow> ((cpp_error + unit) \<times> ('c, 'b) RemoteHeap) option" where
  "handle_fault H info s =
    (if fi_addr info < base_of s \<or> u64_add (base_of s) (rh_capacity s) \<le> fi_addr info then Some (Inr (), s)
     else
       let i = page_index_of s (fi_addr info) in
       case he_read H (rh_handle s) (page_offset s i) (page_length s i) (rh_client s) of
         (Inl e, cl) \<Rightarrow> Some (if is_exception e then Inr () else Inl e, s \<lparr> rh_client := cl \<rparr>)
       | (Inr bs, cl) \<Rightarrow>
           if length bs \<noteq> page_length s i then Some (Inr (), s \<lparr> rh_client := cl \<rparr>)
           else install_page H i bs (s \<lparr> rh_client := cl \<rparr>))"

primrec flush_list :: "('c, 'b) heap_env \<Rightarrow> nat list \<Rightarrow> ('c, 'b) RemoteHeap \<Rightarrow> (cpp_error + unit) \<times> ('c, 'b) RemoteHeap" where
  "flush_list H [] s = (Inr (), s)"
| "flush_list H (i # is) s =
    (case flush_page H i s of (Inl e, s1) \<Rightarrow> (Inl e, s1) | (Inr _, s1) \<Rightarrow> flush_list H is s1)"

definition RemoteHeap_flush :: "('c, 'b) heap_env \<Rightarrow> ('c, 'b) RemoteHeap \<Rightarrow> (cpp_error + unit) \<times> ('c, 'b) RemoteHeap" where
  "RemoteHeap_flush H s = flush_list H (rh_resident_order s) s"

lemma flush_page_order:
  assumes "flush_page H i s = (r, s1)"
  shows "rh_resident_order s1 = rh_resident_order s" "rh_resident s1 = rh_resident s"
    "st_resident_bytes (rh_stats s1) = st_resident_bytes (rh_stats s)"
    "rh_capacity s1 = rh_capacity s" "rh_page_bytes s1 = rh_page_bytes s" "rh_base s1 = rh_base s"
    "rh_local_budget_bytes s1 = rh_local_budget_bytes s" "rh_handle s1 = rh_handle s"
  using assms by (auto simp: flush_page_def Let_def split: if_splits prod.splits sum.splits)

lemma evict_page_order:
  assumes "evict_page H i s = (r, s1)" "i \<in> set (rh_resident_order s)"
  shows "length (rh_resident_order s1) \<le> length (rh_resident_order s)"
proof -
  have "0 < length (rh_resident_order s)" using assms(2) by (cases "rh_resident_order s") auto
  then show ?thesis
    using assms by (auto simp: evict_page_def move_to_back_def forget_page_def length_remove1
        dest!: flush_page_order(1) split: if_splits prod.splits sum.splits bool.splits)
qed

function flush_and_evict_all :: "('c, 'b) heap_env \<Rightarrow> ('c, 'b) RemoteHeap \<Rightarrow> (cpp_error + unit) \<times> ('c, 'b) RemoteHeap" where
  "flush_and_evict_all H s =
    (if rh_resident_order s = [] then (Inr (), s)
     else case evict_page H (hd (rh_resident_order s)) s of
       (Inl e, s1) \<Rightarrow> (Inl e, s1)
     | (Inr _, s1) \<Rightarrow>
         if length (rh_resident_order s1) = length (rh_resident_order s) then (Inr (), s1)
         else flush_and_evict_all H s1)"
  by pat_completeness auto
termination
proof (relation "measure (\<lambda>(H, s). length (rh_resident_order s))", goal_cases)
  case (2 H s x s1)
  then have "length (rh_resident_order s1) \<le> length (rh_resident_order s)"
    using evict_page_order [of H "hd (rh_resident_order s)" s x s1] by simp
  then show ?case using 2 by simp
qed simp

declare flush_and_evict_all.simps [simp del]

section \<open>The resident set\<close>

definition page_bound :: "('c, 'b) RemoteHeap \<Rightarrow> nat \<Rightarrow> nat" where
  "page_bound s i = min (rh_page_bytes s) (rh_capacity s - i * rh_page_bytes s)"

definition heap_inv :: "('c, 'b) RemoteHeap \<Rightarrow> bool" where
  "heap_inv s \<longleftrightarrow> 0 < rh_page_bytes s \<and> rh_page_bytes s \<le> rh_local_budget_bytes s \<and>
     base_of s + rh_capacity s < W64 \<and> distinct (rh_resident_order s) \<and> set (rh_resident_order s) = rh_resident s \<and>
     (\<forall>i \<in> rh_resident s. i * rh_page_bytes s < rh_capacity s) \<and>
     st_resident_bytes (rh_stats s) = (\<Sum>i \<leftarrow> rh_resident_order s. page_bound s i)"

lemma page_length_exact:
  assumes "heap_inv s" "i * rh_page_bytes s < rh_capacity s"
  shows "page_offset s i = i * rh_page_bytes s" "page_length s i = page_bound s i"
proof -
  have "rh_capacity s < W64" using assms(1) by (simp add: heap_inv_def)
  then show o: "page_offset s i = i * rh_page_bytes s"
    using assms(2) by (simp add: page_offset_def u64_mul_def)
  show "page_length s i = page_bound s i"
    using assms(2) \<open>rh_capacity s < W64\<close> by (simp add: page_length_def o page_bound_def u64_sub_exact)
qed

text \<open>The pages are disjoint parts of the region, so their sizes add up to at most its size.\<close>

lemma page_bounds_le:
  assumes "distinct is"
  shows "(\<Sum>i \<leftarrow> is. min p (c - i * p)) \<le> (c :: nat)"
proof (cases "p = 0")
  case False
  let ?part = "\<lambda>i. {i * p..<min (i * p + p) c}"
  have card: "min p (c - i * p) = card (?part i)" for i by auto
  have disj: "?part i \<inter> ?part j = {}" if "i \<noteq> j" for i j
  proof -
    consider "i < j" | "j < i" using \<open>i \<noteq> j\<close> by linarith
    then have "i * p + p \<le> j * p \<or> j * p + p \<le> i * p"
      by cases (metis Suc_leI add.commute mult_Suc mult_le_mono1)+
    then show ?thesis by auto
  qed
  have "(\<Sum>i \<leftarrow> is. min p (c - i * p)) = (\<Sum>i \<in> set is. card (?part i))"
    using assms by (simp only: card sum_list_distinct_conv_sum_set)
  also have "\<dots> = card (\<Union>i \<in> set is. ?part i)"
    by (rule card_UN_disjoint [symmetric]) (use disj in auto)
  also have "\<dots> \<le> card {0..<c}" by (intro card_mono) auto
  finally show ?thesis by simp
qed (simp add: sum_list_0)

lemma resident_le: "heap_inv s \<Longrightarrow> st_resident_bytes (rh_stats s) \<le> rh_capacity s"
  using page_bounds_le by (auto simp: heap_inv_def page_bound_def)

lemma heap_inv_cong:
  assumes "heap_inv s" "rh_resident_order s' = rh_resident_order s" "rh_resident s' = rh_resident s"
    "st_resident_bytes (rh_stats s') = st_resident_bytes (rh_stats s)" "rh_capacity s' = rh_capacity s"
    "rh_page_bytes s' = rh_page_bytes s" "rh_base s' = rh_base s" "rh_local_budget_bytes s' = rh_local_budget_bytes s"
  shows "heap_inv s'"
  using assms by (simp add: heap_inv_def base_of_def page_bound_def)

lemma flush_page_inv: "flush_page H i s = (r, s1) \<Longrightarrow> heap_inv s \<Longrightarrow> heap_inv s1"
  using heap_inv_cong flush_page_order by metis

lemma move_to_back_inv: "heap_inv s \<Longrightarrow> i \<in> rh_resident s \<Longrightarrow> heap_inv (move_to_back i s)"
  by (auto simp: heap_inv_def move_to_back_def base_of_def page_bound_def distinct_remove1 sum_list_map_remove1)

lemma forget_page_inv:
  assumes "heap_inv s" "i \<in> rh_resident s"
  shows "heap_inv (forget_page i s)"
proof -
  have i: "i \<in> set (rh_resident_order s)" "i * rh_page_bytes s < rh_capacity s"
    using assms by (auto simp: heap_inv_def)
  have split: "(\<Sum>j \<leftarrow> rh_resident_order s. page_bound s j) =
      page_bound s i + (\<Sum>j \<leftarrow> remove1 i (rh_resident_order s). page_bound s j)"
    using i(1) by (simp add: sum_list_map_remove1)
  have "st_resident_bytes (rh_stats s) < W64" using resident_le [OF assms(1)] assms(1) by (simp add: heap_inv_def)
  then have "u64_sub (st_resident_bytes (rh_stats s)) (page_length s i) =
      (\<Sum>j \<leftarrow> remove1 i (rh_resident_order s). page_bound s j)"
    using page_length_exact(2) [OF assms(1) i(2)] split assms(1) by (simp add: heap_inv_def u64_sub_exact)
  moreover have "page_bound (forget_page i s) = page_bound s"
    by (simp add: fun_eq_iff page_bound_def forget_page_def)
  ultimately show ?thesis
    using assms by (auto simp: heap_inv_def forget_page_def base_of_def page_bound_def)
qed

lemma evict_page_inv:
  assumes "evict_page H i s = (r, s1)" "heap_inv s"
  shows "heap_inv s1"
proof (cases "i \<in> rh_resident s")
  case True
  obtain q s0 where f: "flush_page H i s = (q, s0)" by (metis surj_pair)
  note keep = flush_page_order [OF f] and inv = flush_page_inv [OF f assms(2)]
  have res: "i \<in> rh_resident s0" using True keep(2) by simp
  have be: "heap_inv (s0 \<lparr> rh_backend := b \<rparr>)" for b by (rule heap_inv_cong [OF inv]) simp_all
  show ?thesis
    using assms(1) True f inv move_to_back_inv [OF inv res] move_to_back_inv [OF be] forget_page_inv [OF be] res
    by (auto simp: evict_page_def split: sum.splits prod.splits bool.splits if_splits)
qed (use assms in \<open>simp add: evict_page_def\<close>)

lemma note_resident_inv:
  assumes "heap_inv s" "i * rh_page_bytes s < rh_capacity s"
  shows "heap_inv (note_resident i s)"
proof (cases "i \<in> rh_resident s")
  case True
  then show ?thesis by (intro heap_inv_cong [OF assms(1)]) (simp_all add: note_resident_def)
next
  case False
  then have d: "distinct (rh_resident_order s @ [i])" using assms(1) by (auto simp: heap_inv_def)
  have "(\<Sum>j \<leftarrow> rh_resident_order s @ [i]. page_bound s j) \<le> rh_capacity s"
    unfolding page_bound_def by (rule page_bounds_le [OF d])
  then have "u64_add (st_resident_bytes (rh_stats s)) (page_length s i) =
      (\<Sum>j \<leftarrow> rh_resident_order s @ [i]. page_bound s j)"
    using page_length_exact(2) [OF assms] assms(1) by (simp add: heap_inv_def u64_add_exact)
  then show ?thesis
    using assms False by (auto simp: heap_inv_def note_resident_def Let_def base_of_def page_bound_def)
qed

section \<open>The budget\<close>

lemma evict_page_keeps:
  assumes "evict_page H i s = (r, s1)"
  shows "rh_local_budget_bytes s1 = rh_local_budget_bytes s"
  using assms by (auto simp: evict_page_def move_to_back_def forget_page_def
      split: if_splits prod.splits sum.splits bool.splits dest!: flush_page_order(7))

definition budget_post :: "('c, 'b) RemoteHeap \<Rightarrow> (cpp_error + unit) \<times> ('c, 'b) RemoteHeap \<Rightarrow> bool" where
  "budget_post s y \<longleftrightarrow> (heap_inv s \<longrightarrow> heap_inv (snd y) \<and>
     rh_local_budget_bytes (snd y) = rh_local_budget_bytes s \<and>
     (fst y = Inr () \<longrightarrow> st_resident_bytes (rh_stats (snd y)) \<le> rh_local_budget_bytes s))"

lemma budget_post_done:
  assumes "\<not> (rh_local_budget_bytes s < st_resident_bytes (rh_stats s) \<and> 1 < length (rh_resident_order s))"
  shows "budget_post s (Inr (), s)"
proof -
  have "st_resident_bytes (rh_stats s) \<le> rh_local_budget_bytes s" if inv: "heap_inv s"
  proof (cases "length (rh_resident_order s) \<le> 1")
    case True
    then consider "rh_resident_order s = []" | i where "rh_resident_order s = [i]"
      by (cases "rh_resident_order s"; cases "tl (rh_resident_order s)") auto
    then show ?thesis using inv by cases (auto simp: heap_inv_def page_bound_def)
  qed (use assms in auto)
  then show ?thesis by (simp add: budget_post_def)
qed

lemma budget_post_evict:
  assumes "evict_page H i s = (q, s1)" "budget_post s1 y"
  shows "budget_post s y"
  using assms(2) evict_page_inv [OF assms(1)] evict_page_keeps [OF assms(1)] by (simp add: budget_post_def)

text \<open>When the loop returns without an error the resident set is within the budget.\<close>

lemma enforce_budget_post:
  assumes "enforce_budget H s = Some y"
  shows "budget_post s y"
proof (rule enforce_budget.raw_induct [where P = "\<lambda>_ s y. budget_post s y", OF _ assms], goal_cases)
  case (1 rec H s y)
  let ?over = "rh_local_budget_bytes s < st_resident_bytes (rh_stats s) \<and> 1 < length (rh_resident_order s)"
  show ?case
  proof (cases ?over)
    case True
    obtain q s1 where e: "evict_page H (hd (rh_resident_order s)) s = (q, s1)" by (metis surj_pair)
    show ?thesis
    proof (cases q)
      case (Inl err)
      then have "y = (Inl err, s1)" using 1(2) True e by simp
      then show ?thesis using evict_page_inv [OF e] evict_page_keeps [OF e] by (simp add: budget_post_def)
    next
      case (Inr u)
      then have "rec H s1 = Some y" using 1(2) True e by simp
      then show ?thesis using 1(1) budget_post_evict [OF e] by blast
    qed
  next
    case False
    then have "y = (Inr (), s)" using 1(2) by auto
    then show ?thesis using budget_post_done [OF False] by simp
  qed
qed

text \<open>The loop ends when evictions succeed.\<close>

definition evictable :: "('c, 'b) heap_env \<Rightarrow> bool" where
  "evictable H \<longleftrightarrow> (\<forall>h off bs cl. fst (he_write H h off bs cl) = Inr ()) \<and> (\<forall>a n be. fst (he_evict_pages H a n be))"

lemma evict_page_succeeds:
  assumes "evictable H" "i \<in> rh_resident s"
  shows "\<exists>s1. evict_page H i s = (Inr (), s1) \<and> rh_resident_order s1 = remove1 i (rh_resident_order s)"
proof -
  obtain q s0 where f: "flush_page H i s = (q, s0)" by (metis surj_pair)
  have q: "q = Inr ()"
    using f assms(1) by (auto simp: flush_page_def evictable_def Let_def split: if_splits prod.splits sum.splits)
      (metis Inl_Inr_False fst_conv)
  obtain b where "he_evict_pages H (page_addr s0 i) (page_length s0 i) (rh_backend s0) = (True, b)"
    using assms(1) unfolding evictable_def by (metis prod.collapse)
  then show ?thesis using assms(2) f q flush_page_order(1) [OF f] by (simp add: evict_page_def forget_page_def)
qed

lemma enforce_budget_terminates:
  assumes "evictable H" "heap_inv s"
  shows "\<exists>s'. enforce_budget H s = Some (Inr (), s')"
  using assms(2)
proof (induction "length (rh_resident_order s)" arbitrary: s rule: less_induct)
  case less
  show ?case
  proof (cases "rh_local_budget_bytes s < st_resident_bytes (rh_stats s) \<and> 1 < length (rh_resident_order s)")
    case True
    let ?i = "hd (rh_resident_order s)"
    have mem: "?i \<in> set (rh_resident_order s)" using True by (cases "rh_resident_order s") auto
    then have "?i \<in> rh_resident s" using less(2) by (simp add: heap_inv_def)
    from evict_page_succeeds [OF assms(1) this] obtain s1 where
      e: "evict_page H ?i s = (Inr (), s1)" "rh_resident_order s1 = remove1 ?i (rh_resident_order s)" by blast
    have "length (rh_resident_order s1) < length (rh_resident_order s)"
      using e(2) mem True by (auto simp: length_remove1)
    from less(1) [OF this evict_page_inv [OF e(1) less(2)]] show ?thesis
      using True e(1) by (subst enforce_budget.simps) simp
  qed (subst enforce_budget.simps, auto)
qed

text \<open>A fault that the client can answer.\<close>

definition answers_fault :: "('c, 'b) heap_env \<Rightarrow> FaultInfo \<Rightarrow> ('c, 'b) RemoteHeap \<Rightarrow> bool" where
  "answers_fault H info s \<longleftrightarrow> base_of s \<le> fi_addr info \<and> fi_addr info < base_of s + rh_capacity s \<and>
     (\<exists>bs cl. he_read H (rh_handle s) (page_offset s (page_index_of s (fi_addr info)))
         (page_length s (page_index_of s (fi_addr info))) (rh_client s) = (Inr bs, cl) \<and>
       length bs = page_length s (page_index_of s (fi_addr info)))"

lemma page_index_bound:
  assumes "heap_inv s" "base_of s \<le> addr" "addr < base_of s + rh_capacity s"
  shows "page_index_of s addr * rh_page_bytes s \<le> addr - base_of s"
    "page_index_of s addr * rh_page_bytes s < rh_capacity s"
    "addr - base_of s < page_index_of s addr * rh_page_bytes s + page_bound s (page_index_of s addr)"
proof -
  have "u64_sub addr (base_of s) = addr - base_of s"
    using assms by (intro u64_sub_exact) (auto simp: heap_inv_def)
  then have i: "page_index_of s addr = (addr - base_of s) div rh_page_bytes s" by (simp add: page_index_of_def)
  then show le: "page_index_of s addr * rh_page_bytes s \<le> addr - base_of s" by simp
  then show "page_index_of s addr * rh_page_bytes s < rh_capacity s" using assms(2,3) by linarith
  have "0 < rh_page_bytes s" using assms(1) by (simp add: heap_inv_def)
  then have "addr - base_of s < page_index_of s addr * rh_page_bytes s + rh_page_bytes s"
    unfolding i by (metis add.commute dividend_less_div_times)
  then show "addr - base_of s < page_index_of s addr * rh_page_bytes s + page_bound s (page_index_of s addr)"
    using assms(2,3) le by (auto simp: page_bound_def min_def)
qed


text \<open>A client that holds eight bytes and a backend that is the memory of the region.\<close>

definition demo_heap_env :: "(bytes, bytes) heap_env" where
  "demo_heap_env = \<lparr> he_max_local_bytes = (\<lambda>_. 0), he_allocate = (\<lambda>n cl. (Inr 1, replicate n 0)), he_free = (\<lambda>_ cl. cl),
     he_read = (\<lambda>_ off n cl. (Inr (peek off n cl), cl)), he_write = (\<lambda>_ off bs cl. (Inr (), blit off bs cl)),
     he_is_supported = (\<lambda>_. True), he_page_size = (\<lambda>_. 4),
     he_reserve_region = (\<lambda>n be. (\<lparr> pr_addr = Some 16, pr_size = n \<rparr>, replicate n 0)), he_release_region = (\<lambda>_ be. be),
     he_on_fault = (\<lambda>_ be. be),
     he_resolve_fault = (\<lambda>a bs be. blit (a - 16) bs be), he_is_dirty = (\<lambda>_ _ _. True), he_clear_dirty = (\<lambda>_ _ be. be),
     he_evict_pages = (\<lambda>_ _ be. (True, be)), he_load = (\<lambda>a n be. peek (a - 16) n be) \<rparr>"

definition demo_heap :: "(bytes, bytes) RemoteHeap" where
  "demo_heap = \<lparr> rh_client = replicate 8 7, rh_backend = replicate 8 0, rh_base = Some 16, rh_capacity = 8, rh_page_bytes = 4,
     rh_page_count = 2, rh_local_budget_bytes = 4, rh_handle = 1, rh_resident_order = [0], rh_resident = {0},
     rh_stats = \<lparr> st_resident_bytes = 4, st_fetches = 1, st_flushes = 0, st_evictions = 0 \<rparr> \<rparr>"


text \<open>When every write to the peer fails, no page can be evicted and the loop never returns:
  the page moved to the back is taken up again.\<close>

lemma evict_page_fails:
  assumes "\<And>h off bs cl. he_write H h off bs cl = (Inl (RuntimeError msg), cl)" "\<And>a n be. he_is_dirty H a n be"
    and "i \<in> rh_resident s"
  shows "evict_page H i s = (Inr (), move_to_back i s)"
  using assms by (simp add: evict_page_def flush_page_def Let_def is_exception_def)

lemma enforce_budget_diverges:
  assumes "\<And>h off bs cl. he_write H h off bs cl = (Inl (RuntimeError msg), cl)" "\<And>a n be. he_is_dirty H a n be"
    and "set (rh_resident_order s) = rh_resident s" "1 < length (rh_resident_order s)"
    and "rh_local_budget_bytes s < st_resident_bytes (rh_stats s)"
  shows "enforce_budget H s = None"
proof (rule ccontr)
  assume "enforce_budget H s \<noteq> None"
  then obtain y where run: "enforce_budget H s = Some y" by blast
  let ?stuck = "\<lambda>s. set (rh_resident_order s) = rh_resident s \<and> 1 < length (rh_resident_order s) \<and>
      rh_local_budget_bytes s < st_resident_bytes (rh_stats s)"
  have "H' = H \<longrightarrow> \<not> ?stuck s" if "enforce_budget H' s = Some y" for H' and s :: "('a, 'b) RemoteHeap" and y
  proof (rule enforce_budget.raw_induct [where P = "\<lambda>H' s y. H' = H \<longrightarrow> \<not> ?stuck s", OF _ that], goal_cases)
    case (1 rec H' s y)
    show ?case
    proof (intro impI notI)
      assume H': "H' = H" and stuck: "?stuck s"
      let ?i = "hd (rh_resident_order s)"
      have i: "?i \<in> set (rh_resident_order s)" using stuck by (cases "rh_resident_order s") auto
      then have "evict_page H ?i s = (Inr (), move_to_back ?i s)"
        using stuck by (intro evict_page_fails [OF assms(1,2)]) auto
      then have "rec H (move_to_back ?i s) = Some y" using 1(2) stuck H' by simp
      then have "\<not> ?stuck (move_to_back ?i s)" using 1(1) by blast
      moreover have "set (remove1 ?i (rh_resident_order s) @ [?i]) = set (rh_resident_order s)"
        using i stuck by (cases "rh_resident_order s") auto
      moreover have "length (remove1 ?i (rh_resident_order s) @ [?i]) = length (rh_resident_order s)"
        using i by (cases "rh_resident_order s") auto
      ultimately show False using stuck by (simp add: move_to_back_def)
    qed
  qed
  from this [OF run] show False using assms by simp
qed

end
