(* ===== verification/MallocHook.thy ===== *)
theory MallocHook
  imports HeapArena RemoteHeap
begin

text \<open>
  The malloc interposer (\<open>hook/meminfo_hook.cpp\<close>): large allocations of the host process are
  served from the arena over the remote heap, everything else by the C runtime the call came
  through. The C runtimes and Detours are the environment: the functions of a runtime are the
  fields of a \<open>CrtSlot\<close> and work on the process memory and on the runtime's own state. A null
  data pointer is 0, a null function pointer \<open>None\<close>, and a call through a null pointer is
  undefined behaviour. The bytes of the arena's region are read and written as ordinary memory;
  the faults this causes are the subject of the remote heap's theory. Log output, and the
  allocations the redirection itself makes on the runtime (they only move
  \<open>g_passed_through\<close>), are left out.
\<close>

section \<open>Configuration\<close>

record HookConfig =
  hc_remote_mode :: bool
  hc_peer_ip :: string
  hc_peer_port :: int
  hc_discovery_socket :: string
  hc_threshold :: nat
  hc_heap_size :: nat
  hc_budget :: nat
  hc_page_bytes :: nat
  hc_max_local :: nat
  hc_log_path :: string

text \<open>\<open>getenv\<close> is the environment block; a value of 1024 characters or more does not fit the
  buffer.\<close>

definition env_string :: "(string \<Rightarrow> string option) \<Rightarrow> string \<Rightarrow> string \<Rightarrow> string" where
  "env_string getenv name fallback =
    (case getenv name of
       None \<Rightarrow> fallback
     | Some v \<Rightarrow> if v = [] \<or> 1024 \<le> length v then fallback else v)"

text \<open>\<open>strtoull\<close> gives the number a text starts with, if it starts with one.\<close>

definition env_size :: "(string \<Rightarrow> nat option) \<Rightarrow> (string \<Rightarrow> string option) \<Rightarrow> string \<Rightarrow> nat \<Rightarrow> nat" where
  "env_size strtoull getenv name fallback =
    (let v = env_string getenv name [] in
     if v = [] then fallback
     else case strtoull v of None \<Rightarrow> fallback | Some n \<Rightarrow> if n = 0 then fallback else n)"

definition load_config :: "(string \<Rightarrow> nat option) \<Rightarrow> (string \<Rightarrow> string option) \<Rightarrow> HookConfig" where
  "load_config strtoull getenv =
    (let page = env_size strtoull getenv ''MEMINFO_PAGE'' (64 * 2 ^ 10);
         floor_bytes = u64_mul page 8;
         threshold = env_size strtoull getenv ''MEMINFO_THRESHOLD'' (2 ^ 20)
     in \<lparr> hc_remote_mode = (env_string getenv ''MEMINFO_HOOK_MODE'' ''log'' = ''remote''),
          hc_peer_ip = env_string getenv ''MEMINFO_PEER'' [],
          hc_peer_port = sint (of_nat (env_size strtoull getenv ''MEMINFO_PORT'' 9200) :: uint32),
          hc_discovery_socket = env_string getenv ''MEMINFO_SOCKET'' ''meminfo_discovery_ctl'',
          hc_threshold = (if threshold < floor_bytes then floor_bytes else threshold),
          hc_heap_size = env_size strtoull getenv ''MEMINFO_HEAP_SIZE'' (4 * 2 ^ 30),
          hc_budget = env_size strtoull getenv ''MEMINFO_BUDGET'' (512 * 2 ^ 20),
          hc_page_bytes = page,
          hc_max_local = env_size strtoull getenv ''MEMINFO_MAX_LOCAL'' (2 ^ 20),
          hc_log_path = env_string getenv ''MEMINFO_LOG'' ''meminfo_hook.log'' \<rparr>)"

section \<open>State\<close>

type_synonym memory = "nat \<Rightarrow> byte"

record 'r CrtSlot =
  cs_module_name :: string
  real_malloc :: "(nat \<Rightarrow> memory \<times> 'r \<Rightarrow> nat \<times> memory \<times> 'r) option"
  real_calloc :: "(nat \<Rightarrow> nat \<Rightarrow> memory \<times> 'r \<Rightarrow> nat \<times> memory \<times> 'r) option"
  real_realloc :: "(nat \<Rightarrow> nat \<Rightarrow> memory \<times> 'r \<Rightarrow> nat \<times> memory \<times> 'r) option"
  real_free :: "(nat \<Rightarrow> memory \<times> 'r \<Rightarrow> memory \<times> 'r) option"
  real_msize :: "(nat \<Rightarrow> memory \<times> 'r \<Rightarrow> nat) option"

datatype HookFn = HMalloc | HCalloc | HRealloc | HFree | HMsize

text \<open>\<open>g_state\<close> with the client inside its heap, the counters, the slots, and the detours in place.
  \<open>hk_memory\<close> and \<open>hk_crt\<close> are the process memory and the state of the runtimes.\<close>

record ('r, 'c, 'b) HookState =
  hk_config :: HookConfig
  hk_heap :: "('c, 'b) RemoteHeap option"
  hk_arena :: "HeapArena option"
  hk_ready :: bool
  hk_failed :: bool
  hk_depth :: nat
  hk_servicing_fault :: bool
  hk_redirected :: nat
  hk_redirected_bytes :: nat
  hk_passed_through :: nat
  hk_large_seen :: nat
  hk_large_bytes :: nat
  hk_slots :: "'r CrtSlot list"
  hk_slot_taken :: "nat \<Rightarrow> bool"
  hk_detours :: "(nat \<times> HookFn) list"
  hk_load_library_hooked :: bool
  hk_memory :: memory
  hk_crt :: 'r

definition should_pass_through :: "('r, 'c, 'b) HookState \<Rightarrow> bool" where
  "should_pass_through s \<longleftrightarrow> 0 < hk_depth s \<or> hk_servicing_fault s"

text \<open>What the initialisation builds on: the constructor of the client (local bytes, discovery
  socket, peer address and port), the interfaces of the remote heap, the backend's state.\<close>

record ('c, 'b) hook_env =
  hx_client :: "nat \<Rightarrow> string \<Rightarrow> string \<Rightarrow> int \<Rightarrow> cpp_error + 'c"
  hx_heap_env :: "('c, 'b) heap_env"
  hx_backend :: 'b

definition build_heap :: "('c, 'b) hook_env \<Rightarrow> HookConfig \<Rightarrow> cpp_error + ('c, 'b) RemoteHeap" where
  "build_heap X cfg =
    (case (if hc_peer_ip cfg \<noteq> [] then hx_client X (hc_max_local cfg) [] (hc_peer_ip cfg) (hc_peer_port cfg)
           else hx_client X (hc_max_local cfg) (hc_discovery_socket cfg) [] 0) of
       Inl e \<Rightarrow> Inl e
     | Inr cl \<Rightarrow> RemoteHeap_new (hx_heap_env X)
         \<lparr> rc_capacity_bytes = hc_heap_size cfg, rc_local_budget_bytes = hc_budget cfg,
           rc_page_bytes = hc_page_bytes cfg \<rparr> cl (hx_backend X))"

definition ensure_initialized :: "('c, 'b) hook_env \<Rightarrow> ('r, 'c, 'b) HookState \<Rightarrow> bool \<times> ('r, 'c, 'b) HookState" where
  "ensure_initialized X s =
    (if hk_ready s then (True, s)
     else if hk_failed s then (False, s)
     else case build_heap X (hk_config s) of
       Inr h \<Rightarrow> (True, s \<lparr> hk_heap := Some h,
         hk_arena := Some (HeapArena_new (case rh_base h of None \<Rightarrow> 0 | Some base \<Rightarrow> base) (rh_capacity h)),
         hk_ready := True \<rparr>)
     | Inl _ \<Rightarrow> (False, s \<lparr> hk_failed := True, hk_arena := None, hk_heap := None \<rparr>))"

type_synonym ('a, 'r, 'c, 'b) hook_result = "cpp_error + 'a \<times> ('r, 'c, 'b) HookState"

definition remote_allocate ::
  "('c, 'b) hook_env \<Rightarrow> nat \<Rightarrow> nat \<Rightarrow> ('r, 'c, 'b) HookState \<Rightarrow> (nat, 'r, 'c, 'b) hook_result" where
  "remote_allocate X bytes alignment s =
    (if \<not> hc_remote_mode (hk_config s) then Inr (0, s)
     else case ensure_initialized X s of
       (False, s1) \<Rightarrow> Inr (0, s1)
     | (True, s1) \<Rightarrow>
         (case hk_arena s1 of
            None \<Rightarrow> Inl UndefinedBehaviour
          | Some a \<Rightarrow>
              (case HeapArena_allocate a bytes alignment of
                 (p, a') \<Rightarrow>
                   let s2 = s1 \<lparr> hk_arena := Some a' \<rparr> in
                   Inr (p, if p = 0 then s2
                     else s2 \<lparr> hk_redirected := u64_add (hk_redirected s2) 1,
                       hk_redirected_bytes := u64_add (hk_redirected_bytes s2) bytes \<rparr>))))"

definition arena_owns :: "('r, 'c, 'b) HookState \<Rightarrow> nat \<Rightarrow> bool" where
  "arena_owns s p \<longleftrightarrow> hk_ready s \<and> (case hk_arena s of None \<Rightarrow> False | Some a \<Rightarrow> owns a p)"

definition note_large :: "nat \<Rightarrow> ('r, 'c, 'b) HookState \<Rightarrow> ('r, 'c, 'b) HookState" where
  "note_large bytes s = s \<lparr> hk_large_seen := u64_add (hk_large_seen s) 1,
     hk_large_bytes := u64_add (hk_large_bytes s) bytes \<rparr>"

text \<open>A call into the C runtime, through a pointer that may be null.\<close>

definition crt_call ::
  "(memory \<times> 'r \<Rightarrow> 'a \<times> memory \<times> 'r) option \<Rightarrow> ('r, 'c, 'b) HookState \<Rightarrow> ('a, 'r, 'c, 'b) hook_result" where
  "crt_call fo s =
    (case fo of
       None \<Rightarrow> Inl UndefinedBehaviour
     | Some f \<Rightarrow> (case f (hk_memory s, hk_crt s) of (x, mem, r) \<Rightarrow> Inr (x, s \<lparr> hk_memory := mem, hk_crt := r \<rparr>)))"

definition crt_malloc :: "'r CrtSlot \<Rightarrow> nat \<Rightarrow> ('r, 'c, 'b) HookState \<Rightarrow> (nat, 'r, 'c, 'b) hook_result" where
  "crt_malloc slot bytes = crt_call (map_option (\<lambda>f. f bytes) (real_malloc slot))"

definition crt_calloc :: "'r CrtSlot \<Rightarrow> nat \<Rightarrow> nat \<Rightarrow> ('r, 'c, 'b) HookState \<Rightarrow> (nat, 'r, 'c, 'b) hook_result" where
  "crt_calloc slot count sz = crt_call (map_option (\<lambda>f. f count sz) (real_calloc slot))"

definition crt_realloc :: "'r CrtSlot \<Rightarrow> nat \<Rightarrow> nat \<Rightarrow> ('r, 'c, 'b) HookState \<Rightarrow> (nat, 'r, 'c, 'b) hook_result" where
  "crt_realloc slot p bytes = crt_call (map_option (\<lambda>f. f p bytes) (real_realloc slot))"

definition crt_free :: "'r CrtSlot \<Rightarrow> nat \<Rightarrow> ('r, 'c, 'b) HookState \<Rightarrow> (unit, 'r, 'c, 'b) hook_result" where
  "crt_free slot p = crt_call (map_option (\<lambda>f st. ((), f p st)) (real_free slot))"

text \<open>\<open>memset\<close> and \<open>memcpy\<close> on the process memory.\<close>

definition mem_zero :: "nat \<Rightarrow> nat \<Rightarrow> memory \<Rightarrow> memory" where
  "mem_zero p n mem = (\<lambda>x. if p \<le> x \<and> x < p + n then 0 else mem x)"

definition mem_copy :: "nat \<Rightarrow> nat \<Rightarrow> nat \<Rightarrow> memory \<Rightarrow> memory" where
  "mem_copy dst src n mem = (\<lambda>x. if dst \<le> x \<and> x < dst + n then mem (src + (x - dst)) else mem x)"

section \<open>Hooks\<close>

definition hooked_malloc ::
  "('c, 'b) hook_env \<Rightarrow> 'r CrtSlot \<Rightarrow> nat \<Rightarrow> ('r, 'c, 'b) HookState \<Rightarrow> (nat, 'r, 'c, 'b) hook_result" where
  "hooked_malloc X slot bytes s =
    (if bytes < hc_threshold (hk_config s) \<or> should_pass_through s then
       crt_malloc slot bytes (s \<lparr> hk_passed_through := u64_add (hk_passed_through s) 1 \<rparr>)
     else case remote_allocate X bytes 16 (note_large bytes s) of
       Inl e \<Rightarrow> Inl e
     | Inr (p, s1) \<Rightarrow> if p \<noteq> 0 then Inr (p, s1) else crt_malloc slot bytes s1)"

definition hooked_calloc ::
  "('c, 'b) hook_env \<Rightarrow> 'r CrtSlot \<Rightarrow> nat \<Rightarrow> nat \<Rightarrow> ('r, 'c, 'b) HookState \<Rightarrow> (nat, 'r, 'c, 'b) hook_result" where
  "hooked_calloc X slot count sz s =
    (if count \<noteq> 0 \<and> SIZE_MAX div count < sz then Inr (0, s)
     else
       let bytes = u64_mul count sz in
       if bytes < hc_threshold (hk_config s) \<or> should_pass_through s then crt_calloc slot count sz s
       else case remote_allocate X bytes 16 (note_large bytes s) of
         Inl e \<Rightarrow> Inl e
       | Inr (p, s1) \<Rightarrow>
           if p = 0 then crt_calloc slot count sz s1
           else Inr (p, s1 \<lparr> hk_memory := mem_zero p bytes (hk_memory s1) \<rparr>))"

definition arena_deallocate :: "nat \<Rightarrow> ('r, 'c, 'b) HookState \<Rightarrow> ('r, 'c, 'b) HookState" where
  "arena_deallocate p s = s \<lparr> hk_arena := map_option (\<lambda>a. HeapArena_deallocate a p) (hk_arena s) \<rparr>"

definition arena_block_size :: "('r, 'c, 'b) HookState \<Rightarrow> nat \<Rightarrow> nat" where
  "arena_block_size s p = (case hk_arena s of None \<Rightarrow> 0 | Some a \<Rightarrow> block_size a p)"

definition hooked_free :: "'r CrtSlot \<Rightarrow> nat \<Rightarrow> ('r, 'c, 'b) HookState \<Rightarrow> (unit, 'r, 'c, 'b) hook_result" where
  "hooked_free slot p s =
    (if p \<noteq> 0 \<and> arena_owns s p then Inr ((), arena_deallocate p s) else crt_free slot p s)"

definition hooked_msize :: "'r CrtSlot \<Rightarrow> nat \<Rightarrow> ('r, 'c, 'b) HookState \<Rightarrow> cpp_error + nat" where
  "hooked_msize slot p s =
    (if p \<noteq> 0 \<and> arena_owns s p then Inr (arena_block_size s p)
     else case real_msize slot of None \<Rightarrow> Inl UndefinedBehaviour | Some f \<Rightarrow> Inr (f p (hk_memory s, hk_crt s)))"

definition copy_block :: "nat \<Rightarrow> nat \<Rightarrow> nat \<Rightarrow> nat \<Rightarrow> ('r, 'c, 'b) HookState \<Rightarrow> ('r, 'c, 'b) HookState" where
  "copy_block dst p old_bytes bytes s =
    s \<lparr> hk_memory := mem_copy dst p (if old_bytes < bytes then old_bytes else bytes) (hk_memory s) \<rparr>"

text \<open>The two halves of \<open>hooked_realloc\<close>: a block of the arena, and a block of the runtime.\<close>

definition realloc_arena ::
  "('c, 'b) hook_env \<Rightarrow> 'r CrtSlot \<Rightarrow> nat \<Rightarrow> nat \<Rightarrow> ('r, 'c, 'b) HookState \<Rightarrow> (nat, 'r, 'c, 'b) hook_result" where
  "realloc_arena X slot p bytes s =
    (let old_bytes = arena_block_size s p in
     case remote_allocate X bytes 16 s of
       Inl e \<Rightarrow> Inl e
     | Inr (d, s1) \<Rightarrow>
         (case (if d = 0 then crt_malloc slot bytes s1 else Inr (d, s1)) of
            Inl e \<Rightarrow> Inl e
          | Inr (dst, s2) \<Rightarrow>
              if dst = 0 then Inr (0, s2)
              else Inr (dst, arena_deallocate p (copy_block dst p old_bytes bytes s2))))"

definition realloc_foreign ::
  "('c, 'b) hook_env \<Rightarrow> 'r CrtSlot \<Rightarrow> nat \<Rightarrow> nat \<Rightarrow> ('r, 'c, 'b) HookState \<Rightarrow> (nat, 'r, 'c, 'b) hook_result" where
  "realloc_foreign X slot p bytes s =
    (case (if bytes < hc_threshold (hk_config s) \<or> should_pass_through s then None else real_msize slot) of
       None \<Rightarrow> crt_realloc slot p bytes s
     | Some msize \<Rightarrow>
         let s0 = note_large bytes s;
             old_bytes = msize p (hk_memory s0, hk_crt s0)
         in case remote_allocate X bytes 16 s0 of
              Inl e \<Rightarrow> Inl e
            | Inr (dst, s1) \<Rightarrow>
                if dst = 0 then crt_realloc slot p bytes s1
                else case crt_free slot p (copy_block dst p old_bytes bytes s1) of
                  Inl e \<Rightarrow> Inl e
                | Inr (_, s2) \<Rightarrow> Inr (dst, s2))"

definition hooked_realloc ::
  "('c, 'b) hook_env \<Rightarrow> 'r CrtSlot \<Rightarrow> nat \<Rightarrow> nat \<Rightarrow> ('r, 'c, 'b) HookState \<Rightarrow> (nat, 'r, 'c, 'b) hook_result" where
  "hooked_realloc X slot p bytes s =
    (if p = 0 then hooked_malloc X slot bytes s
     else if bytes = 0 then (case hooked_free slot p s of Inl e \<Rightarrow> Inl e | Inr (_, s1) \<Rightarrow> Inr (0, s1))
     else if arena_owns s p then realloc_arena X slot p bytes s
     else realloc_foreign X slot p bytes s)"

section \<open>Slots and detours\<close>

definition kMaxSlots :: nat where
  "kMaxSlots = 4"

definition kCrtModules :: "string list" where
  "kCrtModules = [''ucrtbase.dll'', ''msvcrt.dll'', ''api-ms-win-crt-heap-l1-1-0.dll'', ''msvcr120.dll'']"

text \<open>\<open>detour i f\<close> is the success of \<open>DetourAttach\<close> for function \<open>f\<close> of slot \<open>i\<close>. The result is the
  functions attached; \<open>any\<close> of the source is that there is one.\<close>

definition slot_functions :: "'r CrtSlot \<Rightarrow> HookFn list" where
  "slot_functions slot =
    (if Option.is_none (real_malloc slot) then [] else [HMalloc]) @
    (if Option.is_none (real_calloc slot) then [] else [HCalloc]) @
    (if Option.is_none (real_realloc slot) then [] else [HRealloc]) @
    (if Option.is_none (real_free slot) then [] else [HFree]) @
    (if Option.is_none (real_msize slot) then [] else [HMsize])"

definition attach_slot :: "(nat \<Rightarrow> HookFn \<Rightarrow> bool) \<Rightarrow> 'r CrtSlot list \<Rightarrow> nat \<Rightarrow> (nat \<times> HookFn) list" where
  "attach_slot detour slots i = map (Pair i) (filter (detour i) (slot_functions (slots ! i)))"

definition detach_slot :: "'r CrtSlot list \<Rightarrow> nat \<Rightarrow> (nat \<times> HookFn) list \<Rightarrow> (nat \<times> HookFn) list" where
  "detach_slot slots i ds = filter (\<lambda>d. d \<notin> Pair i ` set (slot_functions (slots ! i))) ds"

text \<open>\<open>modules name\<close> is the loaded module of that name with the functions it exports.\<close>

definition fill_slot :: "(string \<Rightarrow> 'r CrtSlot option) \<Rightarrow> string \<Rightarrow> 'r CrtSlot option" where
  "fill_slot modules name =
    (case modules name of
       None \<Rightarrow> None
     | Some m \<Rightarrow> if Option.is_none (real_malloc m) \<or> Option.is_none (real_free m) then None
         else Some (m \<lparr> cs_module_name := name \<rparr>))"

primrec scan_modules :: "(string \<Rightarrow> 'r CrtSlot option) \<Rightarrow> string list \<Rightarrow> 'r CrtSlot list \<Rightarrow> 'r CrtSlot list" where
  "scan_modules modules [] slots = slots"
| "scan_modules modules (name # ns) slots =
    (if kMaxSlots \<le> length slots then slots
     else if name \<in> cs_module_name ` set slots then scan_modules modules ns slots
     else case fill_slot modules name of
       None \<Rightarrow> scan_modules modules ns slots
     | Some slot \<Rightarrow> scan_modules modules ns (slots @ [slot]))"

text \<open>What the loader and Detours answer during one scan.\<close>

record 'r scan_env =
  sc_modules :: "string \<Rightarrow> 'r CrtSlot option"
  sc_detour :: "nat \<Rightarrow> HookFn \<Rightarrow> bool"
  sc_commit :: bool

definition scan_and_attach :: "'r scan_env \<Rightarrow> ('r, 'c, 'b) HookState \<Rightarrow> bool \<times> ('r, 'c, 'b) HookState" where
  "scan_and_attach E s =
    (let slots = scan_modules (sc_modules E) kCrtModules (hk_slots s);
         s1 = s \<lparr> hk_slots := slots \<rparr>
     in if length slots = length (hk_slots s) then (False, s1)
        else
          let new = filter (\<lambda>i. \<not> hk_slot_taken s i) [0..<length slots];
              attached = concat (map (attach_slot (sc_detour E) slots) new);
              s2 = s1 \<lparr> hk_slot_taken := (\<lambda>i. i \<in> set new \<or> hk_slot_taken s i) \<rparr>
          in if \<not> sc_commit E then (False, s2)
             else (attached \<noteq> [], s2 \<lparr> hk_detours := hk_detours s @ attached \<rparr>))"

definition data_only :: uint32 where
  "data_only = 0x2 OR 0x40 OR 0x20"

text \<open>\<open>module\<close> is the handle the real \<open>LoadLibraryExW\<close> returned, 0 on failure.\<close>

definition hooked_load_library_ex_w ::
  "'r scan_env \<Rightarrow> nat \<Rightarrow> uint32 \<Rightarrow> ('r, 'c, 'b) HookState \<Rightarrow> nat \<times> ('r, 'c, 'b) HookState" where
  "hooked_load_library_ex_w E module flags s =
    (module, if module \<noteq> 0 \<and> flags AND data_only = 0 \<and> \<not> should_pass_through s
             then snd (scan_and_attach E s) else s)"

text \<open>\<open>found\<close>: kernel32 exports \<open>LoadLibraryExW\<close>; \<open>commit\<close>: the transaction that detours it succeeds.\<close>

definition install_hooks ::
  "bool \<Rightarrow> bool \<Rightarrow> 'r scan_env \<Rightarrow> ('r, 'c, 'b) HookState \<Rightarrow> bool \<times> ('r, 'c, 'b) HookState" where
  "install_hooks found commit E s = scan_and_attach E (s \<lparr> hk_load_library_hooked := (found \<and> commit) \<rparr>)"

definition remove_hooks :: "bool \<Rightarrow> ('r, 'c, 'b) HookState \<Rightarrow> ('r, 'c, 'b) HookState" where
  "remove_hooks commit s =
    (if commit then s \<lparr> hk_detours := fold (detach_slot (hk_slots s)) [0..<length (hk_slots s)] (hk_detours s) \<rparr>
     else s)"

text \<open>The reasons of \<open>DllMain\<close>; \<open>exiting\<close> is that \<open>reserved\<close> is not null.\<close>

datatype 'r dll_reason =
    ProcessAttach "string \<Rightarrow> nat option" "string \<Rightarrow> string option" bool bool "'r scan_env"
  | ProcessDetach bool bool
  | OtherReason

definition DllMain :: "bool \<Rightarrow> 'r dll_reason \<Rightarrow> ('r, 'c, 'b) HookState \<Rightarrow> ('r, 'c, 'b) HookState" where
  "DllMain helper_process reason s =
    (if helper_process then s
     else case reason of
       ProcessAttach strtoull getenv found commit E \<Rightarrow>
         snd (install_hooks found commit E (s \<lparr> hk_config := load_config strtoull getenv \<rparr>))
     | ProcessDetach exiting commit \<Rightarrow>
         let s1 = s \<lparr> hk_arena := None, hk_heap := None \<rparr> in
         if exiting then s1 else remove_hooks commit s1
     | OtherReason \<Rightarrow> s)"

section \<open>Moving a block\<close>

lemma allocate_live:
  assumes "arena_inv a" "HeapArena_allocate a bytes 16 = (q, a')" "q \<noteq> 0"
  shows "arena_inv a'" "ha_base a' = ha_base a" "ha_size a' = ha_size a"
    "set (live_blocks a') = insert (q - ha_base a, bytes) (set (live_blocks a))"
proof -
  have b: "0 < bytes" using assms(2,3) by (cases bytes) (auto simp: HeapArena_allocate_def)
  have al: "is_pow2 16" "16 < W64" by code_simp+
  from assms(1) b al have "arena_inv a' \<and> ha_base a' = ha_base a \<and> ha_size a' = ha_size a \<and>
    set (live_blocks a') = insert (q - ha_base a, bytes) (set (live_blocks a))"
  proof (cases rule: allocate_cases)
    case fail
    then show ?thesis using assms(2,3) by simp
  next
    case (success start len x)
    then show ?thesis using assms(2) carve_inv [OF assms(1) success(1,2,3) b]
      by (auto simp: carve_def Let_def)
  qed
  then show "arena_inv a'" "ha_base a' = ha_base a" "ha_size a' = ha_size a"
    "set (live_blocks a') = insert (q - ha_base a, bytes) (set (live_blocks a))" by auto
qed

lemma allocate_null: "HeapArena_allocate a bytes al = (0, a') \<Longrightarrow> a' = a"
  by (auto simp: HeapArena_allocate_def split: if_splits option.splits)

text \<open>What is relied on from the runtime's \<open>malloc\<close>: it returns no memory of the arena's region
  and writes none of it.\<close>

definition crt_malloc_sound :: "'r CrtSlot \<Rightarrow> HeapArena \<Rightarrow> bool" where
  "crt_malloc_sound slot a \<longleftrightarrow>
    (\<forall>f n mem r q mem' r'. real_malloc slot = Some f \<longrightarrow> f n (mem, r) = (q, mem', r') \<longrightarrow>
       (q \<noteq> 0 \<longrightarrow> q + n \<le> ha_base a \<or> ha_base a + ha_size a \<le> q) \<and>
       (\<forall>x. owns a x \<longrightarrow> mem' x = mem x))"

text \<open>A destination for \<open>bytes\<close> bytes has been found, in a state that differs from the old one
  by that allocation only.\<close>

definition acquired :: "HeapArena \<Rightarrow> nat \<Rightarrow> nat \<Rightarrow> ('r, 'c, 'b) HookState \<Rightarrow> ('r, 'c, 'b) HookState \<Rightarrow> HeapArena \<Rightarrow> bool" where
  "acquired a bytes q s s2 a2 \<longleftrightarrow> hk_arena s2 = Some a2 \<and> arena_inv a2 \<and>
     ha_base a2 = ha_base a \<and> ha_size a2 = ha_size a \<and> set (live_blocks a) \<subseteq> set (live_blocks a2) \<and>
     (\<forall>x. owns a x \<longrightarrow> hk_memory s2 x = hk_memory s x) \<and>
     (\<forall>(start, len) \<in> set (live_blocks a).
        ha_base a + start + len \<le> q \<or> q + bytes \<le> ha_base a + start)"

lemma remote_allocate_ready:
  assumes "hk_ready s" "hk_arena s = Some a" "arena_inv a" "remote_allocate X bytes 16 s = Inr (d, s1)"
  shows "d = 0 \<Longrightarrow> hk_arena s1 = Some a" "hk_memory s1 = hk_memory s"
    "d \<noteq> 0 \<Longrightarrow> \<exists>a2. acquired a bytes d s s1 a2"
proof -
  show "hk_arena s1 = Some a" if "d = 0"
    using assms that
    by (auto simp: remote_allocate_def ensure_initialized_def Let_def split: if_splits prod.splits dest: allocate_null)
  show m: "hk_memory s1 = hk_memory s"
    using assms by (auto simp: remote_allocate_def ensure_initialized_def Let_def split: if_splits prod.splits)
  assume d: "d \<noteq> 0"
  then obtain a' where a': "HeapArena_allocate a bytes 16 = (d, a')" "hk_arena s1 = Some a'"
    using assms by (auto simp: remote_allocate_def ensure_initialized_def Let_def split: if_splits prod.splits)
  have al: "is_pow2 16" "16 < W64" by code_simp+
  have "fst (HeapArena_allocate a bytes 16) = d" using a' by simp
  from arena_allocate_ok [OF assms(3) al this d] allocate_live [OF assms(3) a'(1) d] a' m
  show "\<exists>a2. acquired a bytes d s s1 a2" by (intro exI [of _ a']) (auto simp: acquired_def)
qed

lemma live_block_bounds:
  assumes "arena_inv a" "(start, len) \<in> set (live_blocks a)"
  shows "0 < len" "start + len \<le> ha_size a"
  using arena_invD(6) [OF assms(1)] assms(2) by (auto simp: within_def)

lemma live_block_owned:
  assumes "arena_inv a" "(start, len) \<in> set (live_blocks a)" "i < len"
  shows "owns a (ha_base a + start + i)"
  using live_block_bounds [OF assms(1,2)] assms(3) by (auto simp: owns_def)

lemma crt_malloc_acquires:
  assumes "crt_malloc_sound slot a" "arena_inv a" "hk_arena s1 = Some a" "hk_memory s1 = hk_memory s"
    and "crt_malloc slot bytes s1 = Inr (q, s2)"
  shows "hk_arena s2 = Some a" "owns a x \<Longrightarrow> hk_memory s2 x = hk_memory s x"
    "q \<noteq> 0 \<Longrightarrow> acquired a bytes q s s2 a"
proof -
  obtain f mem r where f: "real_malloc slot = Some f" "f bytes (hk_memory s1, hk_crt s1) = (q, mem, r)"
    "s2 = s1 \<lparr> hk_memory := mem, hk_crt := r \<rparr>"
    using assms(5) by (auto simp: crt_malloc_def crt_call_def split: option.splits prod.splits)
  from assms(1) f(1,2) have sound: "q \<noteq> 0 \<Longrightarrow> q + bytes \<le> ha_base a \<or> ha_base a + ha_size a \<le> q"
    "\<And>x. owns a x \<Longrightarrow> mem x = hk_memory s1 x" unfolding crt_malloc_sound_def by blast+
  show "hk_arena s2 = Some a" "owns a x \<Longrightarrow> hk_memory s2 x = hk_memory s x"
    using f(3) assms(3,4) sound(2) by simp_all
  show "acquired a bytes q s s2 a" if "q \<noteq> 0"
    using sound(1) [OF that] sound(2) f(3) assms(2,3,4) live_block_bounds [OF assms(2)]
    unfolding acquired_def by fastforce
qed

text \<open>After a move: the common prefix is at the destination, every other live block is still
  live with its bytes, and the old block is gone.\<close>

definition moved_block ::
  "HeapArena \<Rightarrow> nat \<Rightarrow> nat \<Rightarrow> nat \<Rightarrow> nat \<Rightarrow> ('r, 'c, 'b) HookState \<Rightarrow> ('r, 'c, 'b) HookState \<Rightarrow> bool" where
  "moved_block a p old bytes q s s' \<longleftrightarrow>
    (\<forall>i < min old bytes. hk_memory s' (q + i) = hk_memory s (p + i)) \<and>
    (\<exists>a'. hk_arena s' = Some a' \<and> arena_inv a' \<and> ha_base a' = ha_base a \<and>
       (\<forall>(start, len) \<in> set (live_blocks a). start \<noteq> p - ha_base a \<longrightarrow>
          (start, len) \<in> set (live_blocks a') \<and>
          (\<forall>i < len. hk_memory s' (ha_base a + start + i) = hk_memory s (ha_base a + start + i))) \<and>
       (p - ha_base a, old) \<notin> set (live_blocks a'))"

lemma moved_if_acquired:
  assumes inv: "arena_inv a" and p: "owns a p" "map_of (live_blocks a) (p - ha_base a) = Some old"
    and acq: "acquired a bytes q s s2 a2"
  shows "moved_block a p old bytes q s (arena_deallocate p (copy_block q p old bytes s2))"
proof -
  let ?n = "min old bytes" and ?k = "p - ha_base a"
  have n: "(if old < bytes then old else bytes) = ?n" by auto
  have blk: "(?k, old) \<in> set (live_blocks a)" using p(2) by (simp add: om_find_iff [OF arena_invD(4) [OF inv]])
  note acqD = acq [unfolded acquired_def]
  have pk: "ha_base a + ?k = p" "0 < p" using p(1) arena_invD(1) [OF inv] by (auto simp: owns_def)
  have a2: "owns a2 p" "map_of (live_blocks a2) (p - ha_base a2) = Some old" "(?k, old) \<in> set (live_blocks a2)"
    using acqD p(1) blk om_find_iff [OF arena_invD(4), of a2] by (auto simp: owns_def)
  let ?a' = "HeapArena_deallocate a2 p"
  have live: "arena_inv ?a'" "set (live_blocks ?a') = set (live_blocks a2) - {(?k, old)}" "ha_base ?a' = ha_base a"
    using a2 acqD pk release_inv [of a2 ?k old] by (auto simp: HeapArena_deallocate_def)
  have copied: "hk_memory s2 (p + i) = hk_memory s (p + i)" if "i < old" for i
    using live_block_owned [OF inv blk that] acqD pk by simp
  have kept: "hk_memory (copy_block q p old bytes s2) (ha_base a + start + i) = hk_memory s (ha_base a + start + i)"
    if "(start, len) \<in> set (live_blocks a)" "i < len" for start len i
  proof -
    have "ha_base a + start + len \<le> q \<or> q + bytes \<le> ha_base a + start" using acqD that(1) by fastforce
    then show ?thesis using live_block_owned [OF inv that] acqD that(2)
      by (auto simp: copy_block_def mem_copy_def)
  qed
  have keep: "(start, len) \<in> set (live_blocks ?a')"
    if "(start, len) \<in> set (live_blocks a)" "start \<noteq> ?k" for start len
    using that acqD live(2) by auto
  have pre: "hk_memory (copy_block q p old bytes s2) (q + i) = hk_memory s (p + i)" if "i < ?n" for i
    using that copied by (simp add: copy_block_def mem_copy_def n)
  have ar: "hk_arena (arena_deallocate p (copy_block q p old bytes s2)) = Some ?a'"
    "hk_memory (arena_deallocate p (copy_block q p old bytes s2)) = hk_memory (copy_block q p old bytes s2)"
    using acqD by (simp_all add: arena_deallocate_def copy_block_def)
  show ?thesis unfolding moved_block_def ar using pre kept keep live by blast
qed

lemma realloc_arena_ok:
  assumes s: "hk_ready s" "hk_arena s = Some a" "arena_inv a" "crt_malloc_sound slot a"
    and p: "owns a p" "map_of (live_blocks a) (p - ha_base a) = Some old"
    and r: "realloc_arena X slot p bytes s = Inr (q, s')"
  shows "if q = 0 then hk_arena s' = Some a \<and> (\<forall>x. owns a x \<longrightarrow> hk_memory s' x = hk_memory s x)
    else moved_block a p old bytes q s s'"
proof -
  have old: "arena_block_size s p = old"
    using p s(2) arena_invD(1) [OF s(3)] by (auto simp: arena_block_size_def block_size_def owns_def)
  from r obtain d s1 where d: "remote_allocate X bytes 16 s = Inr (d, s1)"
    by (auto simp: realloc_arena_def Let_def split: sum.splits)
  note ra = remote_allocate_ready [OF s(1,2,3) d]
  show ?thesis
  proof (cases "d = 0")
    case False
    then obtain a2 where "acquired a bytes d s s1 a2" using ra(3) by blast
    from moved_if_acquired [OF s(3) p this] False r d old show ?thesis
      by (auto simp: realloc_arena_def Let_def)
  next
    case True
    with r d obtain s2 where c: "crt_malloc slot bytes s1 = Inr (q, s2)"
      "s' = (if q = 0 then s2 else arena_deallocate p (copy_block q p old bytes s2))"
      by (auto simp: realloc_arena_def Let_def old split: sum.splits if_splits)
    note cm = crt_malloc_acquires [OF s(4,3) ra(1) [OF True] ra(2) c(1)]
    show ?thesis using c(2) cm moved_if_acquired [OF s(3) p] by auto
  qed
qed

section \<open>A process with one runtime\<close>

text \<open>A runtime that allocates from the addresses above 100000 and keeps no other state than the
  next address, and a process whose arena has 256 bytes with one live block of 100.\<close>

definition demo_crt :: "nat CrtSlot" where
  "demo_crt = \<lparr> cs_module_name = [], real_malloc = Some (\<lambda>n (mem, r). (100000 + r, mem, r + n)),
     real_calloc = None, real_realloc = None, real_free = Some (\<lambda>p st. st), real_msize = None \<rparr>"

definition demo_hook_env :: "(bytes, bytes) hook_env" where
  "demo_hook_env = \<lparr> hx_client = (\<lambda>_ _ _ _. Inr []), hx_heap_env = demo_heap_env, hx_backend = [] \<rparr>"

definition demo_arena :: HeapArena where
  "demo_arena = snd (HeapArena_allocate (HeapArena_new 4096 256) 100 16)"

definition demo_hook :: "(nat, bytes, bytes) HookState" where
  "demo_hook = \<lparr> hk_config = (load_config (\<lambda>_. None) (\<lambda>_. None)) \<lparr> hc_remote_mode := True \<rparr>, hk_heap = None,
     hk_arena = Some demo_arena, hk_ready = True, hk_failed = False, hk_depth = 0,
     hk_servicing_fault = False, hk_redirected = 0, hk_redirected_bytes = 0, hk_passed_through = 0, hk_large_seen = 0,
     hk_large_bytes = 0, hk_slots = [], hk_slot_taken = (\<lambda>i. False), hk_detours = [],
     hk_load_library_hooked = False, hk_memory = of_nat, hk_crt = 0 \<rparr>"

lemma demo_arena_inv: "arena_inv demo_arena"
proof -
  have "arena_inv (HeapArena_new 4096 256)" by (rule HeapArena_new_inv) (simp_all add: W64_def)
  moreover have "HeapArena_allocate (HeapArena_new 4096 256) 100 16 = (4096, demo_arena)" by code_simp
  ultimately show ?thesis by (rule allocate_live(1)) simp
qed



section \<open>Detours are attached once\<close>

text \<open>The slots hold distinct modules, at most four; a slot in use is taken; each taken slot
  exists, and a function is detoured at most once and only in a taken slot.\<close>

definition hook_inv :: "('r, 'c, 'b) HookState \<Rightarrow> bool" where
  "hook_inv s \<longleftrightarrow> length (hk_slots s) \<le> kMaxSlots \<and> distinct (map cs_module_name (hk_slots s)) \<and>
     distinct (hk_detours s) \<and> (\<forall>i. hk_slot_taken s i \<longleftrightarrow> i < length (hk_slots s)) \<and>
     (\<forall>(i, f) \<in> set (hk_detours s). i < length (hk_slots s) \<and> f \<in> set (slot_functions (hk_slots s ! i)))"

lemma hook_invI:
  assumes "hk_slots s = slots" "hk_detours s = ds" "hk_slot_taken s = taken"
    and "length slots \<le> kMaxSlots" "distinct (map cs_module_name slots)" "distinct ds"
    and "\<And>i. taken i \<longleftrightarrow> i < length slots"
    and "\<forall>(i, f) \<in> set ds. i < length slots \<and> f \<in> set (slot_functions (slots ! i))"
  shows "hook_inv s"
  using assms unfolding hook_inv_def by blast

lemma scan_modules_prefix: "\<exists>new. scan_modules modules ns slots = slots @ new"
proof (induction ns arbitrary: slots)
  case (Cons n ns)
  have "\<exists>new. scan_modules modules ns (slots @ [x]) = slots @ new" for x using Cons [of "slots @ [x]"] by auto
  then show ?case using Cons [of slots] by (simp split: option.split)
qed simp

lemma scan_modules_ok:
  assumes "length slots \<le> kMaxSlots" "distinct (map cs_module_name slots)"
  shows "length (scan_modules modules ns slots) \<le> kMaxSlots \<and>
    distinct (map cs_module_name (scan_modules modules ns slots))"
  using assms
proof (induction ns arbitrary: slots)
  case (Cons n ns)
  have name: "cs_module_name x = n" if "fill_slot modules n = Some x" for x
    using that by (auto simp: fill_slot_def split: option.splits if_splits)
  show ?case
  proof (cases "kMaxSlots \<le> length slots \<or> n \<in> cs_module_name ` set slots")
    case True
    then show ?thesis using Cons.prems Cons.IH [OF Cons.prems] by auto
  next
    case False
    have "length (slots @ [x]) \<le> kMaxSlots" "distinct (map cs_module_name (slots @ [x]))"
      if "fill_slot modules n = Some x" for x using False Cons.prems(2) name [OF that] by auto
    then show ?thesis using False Cons.IH Cons.prems by (cases "fill_slot modules n") simp_all
  qed
qed simp

lemma distinct_slot_functions: "distinct (slot_functions slot)"
  by (simp add: slot_functions_def)

lemma set_attach_slot:
  "set (attach_slot detour slots i) = Pair i ` {f \<in> set (slot_functions (slots ! i)). detour i f}"
  by (auto simp: attach_slot_def)

lemma distinct_attached:
  "distinct is \<Longrightarrow> distinct (concat (map (attach_slot detour slots) is))"
proof (induction "is")
  case (Cons i "is")
  have "distinct (attach_slot detour slots i)"
    by (simp add: attach_slot_def distinct_map distinct_slot_functions inj_on_def)
  moreover have "set (attach_slot detour slots i) \<inter> set (concat (map (attach_slot detour slots) is)) = {}"
    using Cons.prems by (auto simp: set_attach_slot)
  ultimately show ?case using Cons by simp
qed simp

lemma scan_and_attach_inv:
  assumes "hook_inv s"
  shows "hook_inv (snd (scan_and_attach E s))"
proof -
  let ?slots = "scan_modules (sc_modules E) kCrtModules (hk_slots s)"
  let ?new = "filter (\<lambda>i. \<not> hk_slot_taken s i) [0..<length ?slots]"
  let ?att = "concat (map (attach_slot (sc_detour E) ?slots) ?new)"
  note inv = assms [unfolded hook_inv_def]
  obtain more where more: "?slots = hk_slots s @ more" using scan_modules_prefix by blast
  have ok: "length ?slots \<le> kMaxSlots" "distinct (map cs_module_name ?slots)"
    using scan_modules_ok inv by blast+
  have old: "i < length ?slots \<and> f \<in> set (slot_functions (?slots ! i))" if "(i, f) \<in> set (hk_detours s)" for i f
    using inv that unfolding more by (auto simp: nth_append)
  have att: "\<not> hk_slot_taken s i \<and> i < length ?slots \<and> f \<in> set (slot_functions (?slots ! i))"
    if "(i, f) \<in> set ?att" for i f
    using that by (auto simp: set_attach_slot)
  have "distinct ?att" by (rule distinct_attached) simp
  moreover have "d \<notin> set ?att" if "d \<in> set (hk_detours s)" for d
  proof -
    obtain i f where d: "d = (i, f)" by (cases d)
    have "hk_slot_taken s i" using inv that unfolding d by blast
    then show ?thesis using att [of i f] unfolding d by blast
  qed
  moreover have "distinct (hk_detours s)" using inv by blast
  ultimately have dist: "distinct (hk_detours s @ ?att)" unfolding distinct_append by blast
  have len: "length (hk_slots s) \<le> length ?slots" using more by simp
  have taken: "(i \<in> set ?new \<or> hk_slot_taken s i) \<longleftrightarrow> i < length ?slots" for i
  proof -
    have "hk_slot_taken s i \<longleftrightarrow> i < length (hk_slots s)" using inv by blast
    then show ?thesis using len by simp linarith
  qed
  have all: "\<forall>(i, f) \<in> set (hk_detours s @ ?att). i < length ?slots \<and> f \<in> set (slot_functions (?slots ! i))"
    using old att unfolding set_append by blast
  show ?thesis
  proof (cases "length ?slots = length (hk_slots s)")
    case True
    then have "?slots = hk_slots s" using more by simp
    then show ?thesis using assms by (simp add: scan_and_attach_def Let_def)
  next
    case False
    have old': "\<forall>(i, f) \<in> set (hk_detours s). i < length ?slots \<and> f \<in> set (slot_functions (?slots ! i))"
      using old by blast
    have "distinct (hk_detours s)" using inv by blast
    from hook_invI [OF _ _ _ ok this taken old', of "snd (scan_and_attach E s)"]
      hook_invI [OF _ _ _ ok dist taken all, of "snd (scan_and_attach E s)"] False
    show ?thesis by (cases "sc_commit E") (simp_all add: scan_and_attach_def Let_def)
  qed
qed

text \<open>The life of the library in a process: it is attached, then modules are loaded, in any
  order and with any answers of the loader and of Detours.\<close>

primrec load_modules :: "('r scan_env \<times> nat \<times> uint32) list \<Rightarrow> ('r, 'c, 'b) HookState \<Rightarrow> ('r, 'c, 'b) HookState" where
  "load_modules [] s = s"
| "load_modules (l # ls) s =
    (case l of (E, module, flags) \<Rightarrow> load_modules ls (snd (hooked_load_library_ex_w E module flags s)))"

lemma load_modules_inv: "hook_inv s \<Longrightarrow> hook_inv (load_modules ls s)"
  by (induction ls arbitrary: s)
    (auto simp: hooked_load_library_ex_w_def scan_and_attach_inv split: prod.splits)



section \<open>Process exit\<close>

text \<open>At process exit \<open>DllMain\<close> gives up the arena, leaves \<open>ready\<close> set and the detours in place. A
  later allocation at or above the threshold then goes through a null arena, and a block of the
  arena that is freed later goes to the C runtime, which never allocated it.\<close>

lemma exit_detach_null_arena:
  assumes "hk_ready s" "hc_remote_mode (hk_config s)" "hc_threshold (hk_config s) \<le> bytes" "\<not> should_pass_through s"
  shows "hooked_malloc X slot bytes (DllMain False (ProcessDetach True commit) s) = Inl UndefinedBehaviour"
  using assms
  by (simp add: DllMain_def hooked_malloc_def remote_allocate_def ensure_initialized_def note_large_def should_pass_through_def)

lemma exit_detach_foreign_free:
  "hooked_free slot p (DllMain False (ProcessDetach True commit) s) =
   crt_free slot p (DllMain False (ProcessDetach True commit) s)"
  by (simp add: DllMain_def hooked_free_def arena_owns_def)

text \<open>Unloading the library removes the detours of the C runtimes but not that of
  \<open>LoadLibraryExW\<close>, which keeps pointing into the unloaded library.\<close>

lemma unload_keeps_load_library_hook:
  "hk_load_library_hooked (DllMain False (ProcessDetach False commit) s) = hk_load_library_hooked s"
  by (simp add: DllMain_def remove_hooks_def Let_def)

text \<open>A scan whose transaction fails still marks the slots as taken, so that no later scan
  detours those runtimes.\<close>

lemma failed_commit_not_retried:
  assumes "\<not> sc_commit E" "i < length (hk_slots (snd (scan_and_attach E s)))"
    and "length (hk_slots s) < length (hk_slots (snd (scan_and_attach E s)))"
  shows "hk_slot_taken (snd (scan_and_attach E s)) i \<and> hk_detours (snd (scan_and_attach E s)) = hk_detours s"
  using assms by (auto simp: scan_and_attach_def Let_def split: if_splits)

end
