(* ===== verification/PageRegions.thy ===== *)
theory PageRegions
  imports HeapArena RemoteHeap
begin

text \<open>
  What the three page-fault backends (\<open>platform/src/*/page_fault_*.cpp\<close>) have in common, with the
  same text in each file: reserved regions in an ordered map with a state per page, the lookup
  of an address, and the loop over the pages of a range that changes states and the counter of
  resident pages. The state of a page is a type parameter. The locale at the end is the contract
  of \<open>IPageFaultBackend\<close> that the remote heap relies on: no written page is reported clean.
\<close>

section \<open>Definitions\<close>

record 'p Region =
  rg_size :: nat
  rg_states :: "'p list"

definition page_base :: "nat \<Rightarrow> nat \<Rightarrow> nat" where
  "page_base ps addr = unat ((of_nat addr :: uint64) AND NOT (of_nat ps - 1))"

definition offset_in_page :: "nat \<Rightarrow> nat \<Rightarrow> nat" where
  "offset_in_page ps addr = unat ((of_nat addr :: uint64) AND (of_nat ps - 1))"

text \<open>\<open>upper_bound\<close> and one step back is the last region that starts at or below the address.\<close>

definition region_for :: "nat \<Rightarrow> 'p Region omap \<Rightarrow> nat \<Rightarrow> (nat \<times> 'p Region \<times> nat) option" where
  "region_for ps regions addr =
    (case om_before (addr + 1) regions of
       None \<Rightarrow> None
     | Some (base, r) \<Rightarrow>
         if addr < base \<or> u64_add base (rg_size r) \<le> addr then None
         else Some (base, r, (addr - base) div ps))"

text \<open>The addresses \<open>page + off\<close> that the loops visit, and the end of a range rounded to pages.\<close>

definition page_range :: "nat \<Rightarrow> nat \<Rightarrow> nat \<Rightarrow> nat list" where
  "page_range ps page len = map (\<lambda>i. u64_add page (i * ps)) [0..<(len + ps - 1) div ps]"

definition range_total :: "nat \<Rightarrow> nat \<Rightarrow> nat \<Rightarrow> nat" where
  "range_total ps addr len = round_up (u64_add (offset_in_page ps addr) len) ps"

text \<open>The bytes that a fault at \<open>addr\<close> with \<open>len\<close> bytes of data fills: at least one page.\<close>

definition fill_total :: "nat \<Rightarrow> nat \<Rightarrow> nat \<Rightarrow> nat" where
  "fill_total ps addr len =
    (let span = u64_add (offset_in_page ps addr) len in round_up (if span = 0 then ps else span) ps)"

definition set_region :: "nat \<Rightarrow> 'p Region \<Rightarrow> 'p Region omap \<Rightarrow> 'p Region omap" where
  "set_region base r m = map (\<lambda>e. if fst e = base then (base, r) else e) m"

text \<open>The body of the loop: \<open>g\<close> is the new state of a page and \<open>h\<close> what happens to the counter.\<close>

type_synonym 'p books = "'p Region omap \<times> nat"

definition visit_page :: "('p \<Rightarrow> 'p) \<Rightarrow> ('p \<Rightarrow> nat \<Rightarrow> nat) \<Rightarrow> nat \<Rightarrow> nat \<Rightarrow> 'p books \<Rightarrow> 'p books" where
  "visit_page g h ps addr mn =
    (case mn of (m, n) \<Rightarrow>
       (case region_for ps m addr of
          None \<Rightarrow> (m, n)
        | Some (base, r, i) \<Rightarrow>
            (set_region base (r \<lparr> rg_states := (rg_states r)[i := g (rg_states r ! i)] \<rparr>) m, h (rg_states r ! i) n)))"

definition for_each_page :: "('p \<Rightarrow> 'p) \<Rightarrow> ('p \<Rightarrow> nat \<Rightarrow> nat) \<Rightarrow> nat \<Rightarrow> nat \<Rightarrow> nat \<Rightarrow> 'p books \<Rightarrow> 'p books" where
  "for_each_page g h ps page len mn = fold (visit_page g h ps) (page_range ps page len) mn"

definition any_page :: "('p \<Rightarrow> bool) \<Rightarrow> nat \<Rightarrow> nat \<Rightarrow> nat \<Rightarrow> 'p Region omap \<Rightarrow> bool" where
  "any_page P ps addr len m =
    list_ex (\<lambda>x. case region_for ps m x of None \<Rightarrow> False | Some (base, r, i) \<Rightarrow> P (rg_states r ! i))
      (page_range ps (page_base ps addr) (range_total ps addr len))"

definition new_region :: "nat \<Rightarrow> nat \<Rightarrow> 'p \<Rightarrow> 'p Region" where
  "new_region ps n absent = \<lparr> rg_size = n, rg_states = replicate (n div ps) absent \<rparr>"

definition count_states :: "('p \<Rightarrow> bool) \<Rightarrow> 'p Region \<Rightarrow> nat" where
  "count_states P r = length (filter P (rg_states r))"

section \<open>Regions and pages\<close>

text \<open>Regions are whole pages at page boundaries and do not overlap.\<close>

definition regions_ok :: "nat \<Rightarrow> 'p Region omap \<Rightarrow> bool" where
  "regions_ok ps m \<longleftrightarrow> 0 < ps \<and> om_ok m \<and>
     (\<forall>(b, r) \<in> set m. ps dvd b \<and> rg_size r = ps * length (rg_states r) \<and> b + rg_size r < W64 \<and> 0 < rg_size r) \<and>
     (\<forall>(b, r) \<in> set m. \<forall>(b', r') \<in> set m. b < b' \<longrightarrow> b + rg_size r \<le> b')"

lemma regions_okD:
  assumes "regions_ok ps m"
  shows "0 < ps" "om_ok m"
    "(b, r) \<in> set m \<Longrightarrow> ps dvd b \<and> rg_size r = ps * length (rg_states r) \<and> b + rg_size r < W64 \<and> 0 < rg_size r"
    "(b, r) \<in> set m \<Longrightarrow> (b', r') \<in> set m \<Longrightarrow> b < b' \<Longrightarrow> b + rg_size r \<le> b'"
  using assms unfolding regions_ok_def by fast+

lemma regions_okI:
  assumes "0 < ps" "om_ok m"
    and "\<And>b r. (b, r) \<in> set m \<Longrightarrow>
      ps dvd b \<and> rg_size r = ps * length (rg_states r) \<and> b + rg_size r < W64 \<and> 0 < rg_size r"
    and "\<And>b r b' r'. (b, r) \<in> set m \<Longrightarrow> (b', r') \<in> set m \<Longrightarrow> b < b' \<Longrightarrow> b + rg_size r \<le> b'"
  shows "regions_ok ps m"
  using assms unfolding regions_ok_def by fast

lemma region_for_iff:
  assumes "regions_ok ps m"
  shows "region_for ps m x = Some (b, r, i) \<longleftrightarrow>
    (b, r) \<in> set m \<and> b \<le> x \<and> x < b + rg_size r \<and> i = (x - b) div ps"
proof
  assume "region_for ps m x = Some (b, r, i)"
  then have "om_before (x + 1) m = Some (b, r)" "b \<le> x" "x < u64_add b (rg_size r)" "i = (x - b) div ps"
    by (auto simp: region_for_def split: option.splits if_splits)
  then show "(b, r) \<in> set m \<and> b \<le> x \<and> x < b + rg_size r \<and> i = (x - b) div ps"
    using om_before_Some(1) [OF regions_okD(2) [OF assms]] regions_okD(3) [OF assms, of b r] u64_add_exact by metis
next
  assume a: "(b, r) \<in> set m \<and> b \<le> x \<and> x < b + rg_size r \<and> i = (x - b) div ps"
  then have "\<not> x + 1 \<le> b" by simp
  then obtain c q where c: "om_before (x + 1) m = Some (c, q)"
    using om_before_None [OF regions_okD(2) [OF assms]] a by fastforce
  note bs = om_before_Some [OF regions_okD(2) [OF assms] c]
  have "b \<le> c" using bs(3) a by auto
  moreover have "\<not> b < c" using regions_okD(4) [OF assms _ bs(1), of b r] a bs(2) by auto
  ultimately have bc: "c = b" by simp
  then have "q = r" using om_keys_inject [OF regions_okD(2) [OF assms]] bs(1) a by metis
  moreover have "u64_add b (rg_size r) = b + rg_size r" using regions_okD(3) [OF assms, of b r] a u64_add_exact by blast
  ultimately show "region_for ps m x = Some (b, r, i)" using c a bc by (simp add: region_for_def)
qed

text \<open>The state of the page at an address, if a region has it.\<close>

definition page_at :: "nat \<Rightarrow> 'p Region omap \<Rightarrow> nat \<Rightarrow> 'p option" where
  "page_at ps m x = map_option (\<lambda>(b, r, i). rg_states r ! i) (region_for ps m x)"

lemma page_at_iff:
  assumes "regions_ok ps m"
  shows "page_at ps m x = Some st \<longleftrightarrow>
    (\<exists>(b, r) \<in> set m. b \<le> x \<and> x < b + rg_size r \<and> rg_states r ! ((x - b) div ps) = st)"
  unfolding page_at_def by (auto simp: region_for_iff [OF assms])

section \<open>Counting\<close>

definition page_count :: "('p \<Rightarrow> bool) \<Rightarrow> 'p Region omap \<Rightarrow> nat" where
  "page_count P m = sum_list (map (\<lambda>e. count_states P (snd e)) m)"

lemma filter_update:
  assumes "i < length xs"
  shows "length (filter P (xs[i := v])) + (if P (xs ! i) then 1 else 0) = length (filter P xs) + (if P v then 1 else 0)"
  using assms
proof (induction xs arbitrary: i)
  case (Cons x xs)
  show ?case
  proof (cases i)
    case (Suc j)
    then show ?thesis using Cons.IH [of j] Cons.prems by simp
  qed simp
qed simp

lemma set_set_region: "om_ok m \<Longrightarrow> (b, r) \<in> set m \<Longrightarrow> set (set_region b r' m) = insert (b, r') (set m - {(b, r)})"
  by (induction m) (auto simp: set_region_def)

lemma om_ok_set_region: "om_ok m \<Longrightarrow> om_ok (set_region b r m)"
  by (induction m) (auto simp: set_region_def)

lemma count_set_region:
  assumes "om_ok m" "(b, r) \<in> set m"
  shows "page_count P (set_region b r' m) + count_states P r = page_count P m + count_states P r'"
  using assms
proof (induction m)
  case (Cons e m)
  have "set_region b r' m = m" if "\<forall>x \<in> set m. fst x \<noteq> b" using that by (simp add: set_region_def map_idI)
  moreover have "e = (b, r)" "\<forall>x \<in> set m. fst x \<noteq> b" if "fst e = b" using that Cons.prems by auto
  ultimately show ?case using Cons by (cases "fst e = b") (auto simp: set_region_def page_count_def)
qed simp

lemma count_erase: "om_ok m \<Longrightarrow> (b, r) \<in> set m \<Longrightarrow> page_count P m = page_count P (om_erase b m) + count_states P r"
proof (induction m)
  case (Cons e m)
  have "om_erase b m = m" if "\<forall>x \<in> set m. fst x \<noteq> b" using that by (simp add: om_erase_def)
  moreover have "e = (b, r)" "\<forall>x \<in> set m. fst x \<noteq> b" if "fst e = b" using that Cons.prems by auto
  ultimately show ?case using Cons by (cases "fst e = b") (auto simp: om_erase_def page_count_def)
qed simp

lemma count_emplace:
  assumes "k \<notin> fst ` set m" "count_states P r = 0"
  shows "page_count P (om_emplace k r m) = page_count P m"
  using assms by (induction k r m rule: om_emplace.induct) (auto simp: page_count_def)

section \<open>Visiting a page\<close>

lemma page_index_inj:
  assumes "(0::nat) < ps" "ps dvd b" "ps dvd x" "ps dvd y" "b \<le> x" "b \<le> y" "(x - b) div ps = (y - b) div ps"
  shows "x = y"
proof -
  have "ps dvd x - b" "ps dvd y - b" using assms by simp_all
  then have "x - b = y - b" using assms(7) by (metis dvd_mult_div_cancel)
  then show ?thesis using assms(5,6) by simp
qed

lemma page_index_less:
  assumes "0 < ps" "rg_size r = ps * length (rg_states r)" "b \<le> x" "x < b + rg_size r"
  shows "(x - b) div ps < length (rg_states r)"
proof -
  have "x - b < length (rg_states r) * ps" using assms by (simp add: mult.commute)
  then show ?thesis by (simp add: less_mult_imp_div_less)
qed

text \<open>The state of one page is changed: the geometry stays, and only that page is affected.\<close>

lemma change_page:
  fixes v :: 'p
  assumes ok: "regions_ok ps m" and y: "region_for ps m y = Some (b, r, i)"
  defines "m' \<equiv> set_region b (r \<lparr> rg_states := (rg_states r)[i := v] \<rparr>) m"
  shows "regions_ok ps m'" "i < length (rg_states r)"
    "page_count P m' + (if P (rg_states r ! i) then 1 else 0) = page_count P m + (if P v then 1 else 0)"
    "ps dvd x \<Longrightarrow> ps dvd y \<Longrightarrow> page_at ps m' x = (if x = y then Some v else page_at ps m x)"
proof -
  let ?r = "r \<lparr> rg_states := (rg_states r)[i := v] \<rparr>"
  note D = regions_okD [OF ok]
  have yb: "(b, r) \<in> set m" "b \<le> y" "y < b + rg_size r" "i = (y - b) div ps"
    using y region_for_iff [OF ok] by auto
  note G = D(3) [OF yb(1)]
  have set': "set m' = insert (b, ?r) (set m - {(b, r)})" unfolding m'_def using D(2) yb(1) by (rule set_set_region)
  show i: "i < length (rg_states r)" using page_index_less [OF D(1) _ yb(2,3)] G yb(4) by simp
  show "page_count P m' + (if P (rg_states r ! i) then 1 else 0) = page_count P m + (if P v then 1 else 0)"
    using count_set_region [OF D(2) yb(1), of P ?r] filter_update [OF i, of P v] by (simp add: m'_def count_states_def)
  have shape: "\<exists>q0. (c, q0) \<in> set m \<and> rg_size q = rg_size q0 \<and> length (rg_states q) = length (rg_states q0)"
    if "(c, q) \<in> set m'" for c q using that yb(1) unfolding set' by auto
  have okm: "om_ok m'" unfolding m'_def using D(2) by (rule om_ok_set_region)
  show ok': "regions_ok ps m'"
    using D(1) okm
  proof (rule regions_okI)
    show "ps dvd c \<and> rg_size q = ps * length (rg_states q) \<and> c + rg_size q < W64 \<and> 0 < rg_size q"
      if "(c, q) \<in> set m'" for c q using shape [OF that] D(3) by metis
    show "c + rg_size q \<le> c'" if "(c, q) \<in> set m'" "(c', q') \<in> set m'" "c < c'" for c q c' q'
      using shape [OF that(1)] shape [OF that(2)] D(4) that(3) by metis
  qed
  assume al: "ps dvd x" "ps dvd y"
  show "page_at ps m' x = (if x = y then Some v else page_at ps m x)"
  proof (cases "b \<le> x \<and> x < b + rg_size r")
    case True
    have rx: "region_for ps m x = Some (b, r, (x - b) div ps)" using region_for_iff [OF ok] True yb(1) by simp
    have rx': "region_for ps m' x = Some (b, ?r, (x - b) div ps)"
      using region_for_iff [OF ok', of x b ?r] True set' by simp
    show ?thesis
    proof (cases "x = y")
      case True
      then show ?thesis using rx' i by (simp add: page_at_def yb(4) [symmetric])
    next
      case False
      then have "i \<noteq> (x - b) div ps" using page_index_inj [of ps b x y] D(1) G al True yb(2,4) by auto
      then show ?thesis using rx rx' False by (simp add: page_at_def)
    qed
  next
    case False
    then have "x \<noteq> y" using yb by auto
    moreover have "page_at ps m' x = Some st \<longleftrightarrow> page_at ps m x = Some st" for st
      using False unfolding page_at_iff [OF ok] page_at_iff [OF ok'] set' by auto
    ultimately show ?thesis by (metis option.exhaust)
  qed
qed

lemma page_count_pos:
  assumes "regions_ok ps m" "region_for ps m y = Some (b, r, i)" "P (rg_states r ! i)"
  shows "0 < page_count P m"
proof -
  have r: "(b, r) \<in> set m" using assms(2) region_for_iff [OF assms(1)] by blast
  have "rg_states r ! i \<in> set (filter P (rg_states r))" using change_page(2) [OF assms(1,2)] assms(3) by simp
  then have "filter P (rg_states r) \<noteq> []" by (metis empty_iff empty_set)
  then have "0 < count_states P r" by (simp add: count_states_def)
  then show ?thesis using count_erase [OF regions_okD(2) [OF assms(1)] r, of P] by simp
qed

text \<open>The loop body counts right: the counter moves as the predicate does.\<close>

definition counts :: "('p \<Rightarrow> bool) \<Rightarrow> ('p \<Rightarrow> 'p) \<Rightarrow> ('p \<Rightarrow> nat \<Rightarrow> nat) \<Rightarrow> bool" where
  "counts P g h \<longleftrightarrow> (\<forall>st k. (P st \<longrightarrow> 0 < k) \<longrightarrow>
     h st (k mod W64) = (k + (if P (g st) then 1 else 0) - (if P st then 1 else 0)) mod W64)"

definition books_ok :: "('p \<Rightarrow> bool) \<Rightarrow> nat \<Rightarrow> 'p books \<Rightarrow> bool" where
  "books_ok P ps mn \<longleftrightarrow> regions_ok ps (fst mn) \<and> snd mn = page_count P (fst mn) mod W64"

lemma visit_page_ok:
  assumes "books_ok P ps mn" "counts P g h" "ps dvd y"
  shows "books_ok P ps (visit_page g h ps y mn) \<and>
    (\<forall>x. ps dvd x \<longrightarrow> page_at ps (fst (visit_page g h ps y mn)) x =
       (if x = y then map_option g (page_at ps (fst mn) x) else page_at ps (fst mn) x))"
proof -
  obtain m n where mn: "mn = (m, n)" by (cases mn)
  have ok: "regions_ok ps m" and n: "n = page_count P m mod W64" using assms(1) mn by (auto simp: books_ok_def)
  show ?thesis
  proof (cases "region_for ps m y")
    case None
    then show ?thesis using assms(1) mn by (simp add: visit_page_def page_at_def)
  next
    case (Some t)
    obtain b r i where t: "region_for ps m y = Some (b, r, i)" using Some by (cases t) auto
    let ?st = "rg_states r ! i"
    note c = change_page(1,3,4) [OF ok t, where v = "g ?st"]
    have "0 < page_count P m" if "P ?st"
      using page_count_pos [of ps m y b r i P] ok t that by simp
    then have "h ?st n = (page_count P m + (if P (g ?st) then 1 else 0) - (if P ?st then 1 else 0)) mod W64"
      using assms(2) n by (simp add: counts_def)
    moreover have "page_count P m + (if P (g ?st) then 1 else 0) - (if P ?st then 1 else 0) =
      page_count P (set_region b (r \<lparr> rg_states := (rg_states r)[i := g ?st] \<rparr>) m)"
      using c(2) [of P] by linarith
    ultimately show ?thesis using c(1,3) assms(3) t mn
      by (auto simp: visit_page_def books_ok_def page_at_def)
  qed
qed

lemma visit_pages_ok:
  assumes "books_ok P ps mn" "counts P g h" "\<forall>y \<in> set ys. ps dvd y" "\<And>st. g (g st) = g st"
  shows "books_ok P ps (fold (visit_page g h ps) ys mn) \<and>
    (\<forall>x. ps dvd x \<longrightarrow> page_at ps (fst (fold (visit_page g h ps) ys mn)) x =
       (if x \<in> set ys then map_option g (page_at ps (fst mn) x) else page_at ps (fst mn) x))"
  using assms(1,3)
proof (induction ys arbitrary: mn)
  case (Cons y ys)
  let ?mn = "visit_page g h ps y mn"
  have v: "books_ok P ps ?mn" "\<And>x. ps dvd x \<Longrightarrow> page_at ps (fst ?mn) x =
      (if x = y then map_option g (page_at ps (fst mn) x) else page_at ps (fst mn) x)"
    using visit_page_ok [OF Cons.prems(1) assms(2), of y] Cons.prems(2) by auto
  have "map_option g (map_option g o') = map_option g o'" for o' using assms(4) by (cases o') auto
  then show ?case using Cons.IH [OF v(1)] Cons.prems(2) v(2) by simp
qed simp

section \<open>Page arithmetic\<close>

lemma page_base_eq: "k < 64 \<Longrightarrow> addr < W64 \<Longrightarrow> page_base (2 ^ k) addr = addr - addr mod 2 ^ k"
  using unat_and_not_mask [of "of_nat addr" k]
  by (simp add: page_base_def mask_eq_exp_minus_1 unat_of_nat W64_def)

lemma offset_in_page_eq: "k < 64 \<Longrightarrow> addr < W64 \<Longrightarrow> offset_in_page (2 ^ k) addr = addr mod 2 ^ k"
proof -
  assume a: "k < 64" "addr < W64"
  have "(of_nat addr :: uint64) AND (of_nat (2 ^ k) - 1) = take_bit k (of_nat addr)"
    by (simp add: mask_eq_exp_minus_1 [symmetric] take_bit_eq_mask)
  then have "offset_in_page (2 ^ k) addr = unat (take_bit k (of_nat addr :: uint64))" by (simp add: offset_in_page_def)
  also have "\<dots> = unat (of_nat addr :: uint64) mod 2 ^ k"
    by (simp only: unsigned_take_bit_eq take_bit_eq_mod [of k "unat (of_nat addr :: uint64)"])
  also have "unat (of_nat addr :: uint64) = addr" using a by (simp add: unat_of_nat W64_def)
  finally show ?thesis .
qed

lemma page_dvd_W64: "k < 64 \<Longrightarrow> (2::nat) ^ k dvd W64"
  unfolding W64_def by (rule le_imp_power_dvd) simp

lemma page_base_dvd: "k < 64 \<Longrightarrow> addr < W64 \<Longrightarrow> 2 ^ k dvd page_base (2 ^ k) addr"
  by (simp add: page_base_eq minus_mod_eq_mult_div)

lemma page_base_of:
  assumes "k < 64" "2 ^ k dvd x" "x \<le> addr" "addr < x + 2 ^ k" "addr < W64"
  shows "page_base (2 ^ k) addr = x" "offset_in_page (2 ^ k) addr < 2 ^ k"
proof -
  obtain q where q: "x = 2 ^ k * q" using assms(2) by blast
  have "addr = (addr - x) + 2 ^ k * q" using assms(3) q by simp
  then have "addr mod 2 ^ k = ((addr - x) + 2 ^ k * q) mod 2 ^ k" by simp
  also have "\<dots> = addr - x" using assms(3,4) by (simp del: add_diff_assoc2)
  finally show "page_base (2 ^ k) addr = x" "offset_in_page (2 ^ k) addr < 2 ^ k"
    using page_base_eq [OF assms(1,5)] offset_in_page_eq [OF assms(1,5)] assms(3,4) by auto
qed

lemma page_range_dvd: "k < 64 \<Longrightarrow> 2 ^ k dvd page \<Longrightarrow> y \<in> set (page_range (2 ^ k) page len) \<Longrightarrow> 2 ^ k dvd y"
  using page_dvd_W64 [of k] by (auto simp: page_range_def u64_add_def dvd_mod)

lemma page_range_first: "0 < ps \<Longrightarrow> 0 < len \<Longrightarrow> page < W64 \<Longrightarrow> page \<in> set (page_range ps page len)"
proof -
  assume a: "0 < ps" "0 < len" "page < W64"
  have "1 \<le> (len + ps - 1) div ps" using a div_le_mono [of ps "len + ps - 1" ps] by simp
  then have "0 \<in> set [0..<(len + ps - 1) div ps]" by simp
  then show ?thesis unfolding page_range_def set_map using a by (intro image_eqI [of _ _ 0]) (simp_all add: u64_add_def)
qed

lemma round_up_dvd: "k < 64 \<Longrightarrow> 2 ^ k dvd round_up n (2 ^ k)"
  using page_dvd_W64 [of k] by (simp add: round_up_def u64_mul_def dvd_mod)

lemma round_up_pos:
  assumes "0 < n" "0 < m" "n + 2 * m \<le> W64"
  shows "0 < round_up n m"
proof -
  let ?q = "(n + m - 1) div m"
  have q: "1 \<le> ?q" using assms div_le_mono [of m "n + m - 1" m] by simp
  have "?q * m \<le> n + m - 1" by (rule div_times_less_eq_dividend)
  then have "?q * m < W64" using assms by linarith
  moreover have "0 < ?q * m" using assms(2) q by (metis less_le_trans nat_0_less_mult_iff zero_less_one)
  moreover have "u64_sub (u64_add n m) 1 = n + m - 1" using assms by (simp add: u64_add_exact u64_sub_exact)
  ultimately show ?thesis by (simp add: round_up_def u64_mul_exact)
qed

lemma range_total_pos:
  assumes "k < 64" "2 ^ k dvd x" "x \<le> addr" "addr < x + 2 ^ k" "addr < W64" "0 < len" "len + 3 * 2 ^ k \<le> W64"
  shows "0 < range_total (2 ^ k) addr len"
proof -
  let ?n = "offset_in_page (2 ^ k) addr + len"
  have "?n + 2 * 2 ^ k \<le> W64" "0 < ?n" using page_base_of(2) [OF assms(1-5)] assms(6,7) by auto
  moreover from this have "?n < W64" by (metis add_lessD1 less_add_same_cancel1 le_less_trans less_le_trans
      mult_pos_pos zero_less_numeral zero_less_power)
  ultimately show ?thesis
    using round_up_pos [of ?n "2 ^ k"] by (simp add: range_total_def u64_add_exact)
qed

section \<open>Operations on the bookkeeping\<close>

lemma for_each_page_ok:
  assumes "k < 64" "books_ok P (2 ^ k) mn" "counts P g h" "2 ^ k dvd page" "\<And>st. g (g st) = g st"
  shows "books_ok P (2 ^ k) (for_each_page g h (2 ^ k) page len mn)"
    "2 ^ k dvd x \<Longrightarrow> page_at (2 ^ k) (fst (for_each_page g h (2 ^ k) page len mn)) x =
       (if x \<in> set (page_range (2 ^ k) page len) then map_option g (page_at (2 ^ k) (fst mn) x)
        else page_at (2 ^ k) (fst mn) x)"
proof -
  have "\<forall>y \<in> set (page_range (2 ^ k) page len). 2 ^ k dvd y" using page_range_dvd assms(1,4) by blast
  note v = visit_pages_ok [OF assms(2,3) this assms(5)]
  show "books_ok P (2 ^ k) (for_each_page g h (2 ^ k) page len mn)" using v by (simp add: for_each_page_def)
  show "2 ^ k dvd x \<Longrightarrow> page_at (2 ^ k) (fst (for_each_page g h (2 ^ k) page len mn)) x =
       (if x \<in> set (page_range (2 ^ k) page len) then map_option g (page_at (2 ^ k) (fst mn) x)
        else page_at (2 ^ k) (fst mn) x)" using v by (simp add: for_each_page_def)
qed

text \<open>What the kernel guarantees of a new mapping: page aligned, inside the address space, apart
  from the others.\<close>

definition maps_apart :: "nat \<Rightarrow> nat \<Rightarrow> nat \<Rightarrow> 'p Region omap \<Rightarrow> bool" where
  "maps_apart ps a n m \<longleftrightarrow> 0 < n \<and> ps dvd a \<and> a + n < W64 \<and>
     (\<forall>(b, r) \<in> set m. a + n \<le> b \<or> b + rg_size r \<le> a)"

lemma page_at_new:
  assumes "0 < ps" "ps dvd n" "a \<le> x" "x < a + n"
  shows "rg_states (new_region ps n absent) ! ((x - a) div ps) = absent"
proof -
  have "x - a < (n div ps) * ps" using assms by simp
  then show ?thesis by (simp add: new_region_def less_mult_imp_div_less)
qed

lemma emplace_region_ok:
  assumes "k < 64" "books_ok P (2 ^ k) (m, c)" "maps_apart (2 ^ k) a n m" "2 ^ k dvd n" "\<not> P absent"
  shows "books_ok P (2 ^ k) (om_emplace a (new_region (2 ^ k) n absent) m, c)"
    "page_at (2 ^ k) (om_emplace a (new_region (2 ^ k) n absent) m) x =
       (if a \<le> x \<and> x < a + n then Some absent else page_at (2 ^ k) m x)"
proof -
  let ?ps = "2 ^ k" and ?r = "new_region (2 ^ k) n absent"
  have ok: "regions_ok ?ps m" using assms(2) by (simp add: books_ok_def)
  have apart: "a + n \<le> b \<or> b + rg_size r \<le> a" if "(b, r) \<in> set m" for b r
    using assms(3) that unfolding maps_apart_def by fast
  have n: "0 < n" "?ps dvd a" "a + n < W64" using assms(3) unfolding maps_apart_def by blast+
  have size: "rg_size ?r = ?ps * length (rg_states ?r)" "rg_size ?r = n" using assms(4) by (simp_all add: new_region_def)
  have fresh: "a \<notin> fst ` set m" using apart n(1) regions_okD(3) [OF ok] by fastforce
  have set': "set (om_emplace a ?r m) = insert (a, ?r) (set m)" by (rule set_om_emplace [OF fresh])
  have sep: "b + rg_size r \<le> b'" if "(b, r) \<in> insert (a, ?r) (set m)" "(b', r') \<in> insert (a, ?r) (set m)" "b < b'" for b r b' r'
    using that apart [of b r] apart [of b' r'] regions_okD(4) [OF ok, of b r b' r'] n(1) size by auto
  have each: "?ps dvd b \<and> rg_size r = ?ps * length (rg_states r) \<and> b + rg_size r < W64 \<and> 0 < rg_size r"
    if "(b, r) \<in> insert (a, ?r) (set m)" for b r
    using that n size regions_okD(3) [OF ok, of b r] by auto
  have ok': "regions_ok ?ps (om_emplace a ?r m)"
    by (rule regions_okI, rule regions_okD(1) [OF ok], rule om_ok_emplace [OF regions_okD(2) [OF ok]],
        unfold set', erule each, rule sep)
  moreover have "page_count P (om_emplace a ?r m) = page_count P m"
    by (rule count_emplace [OF fresh]) (simp add: count_states_def new_region_def assms(5))
  ultimately show "books_ok P ?ps (om_emplace a ?r m, c)" using assms(2) by (simp add: books_ok_def)
  show "page_at ?ps (om_emplace a ?r m) x = (if a \<le> x \<and> x < a + n then Some absent else page_at ?ps m x)"
  proof (cases "a \<le> x \<and> x < a + n")
    case True
    then show ?thesis using page_at_iff [OF ok', of x absent] page_at_new [of ?ps n a x absent] assms(4) size(2)
      unfolding set' by auto
  next
    case False
    have "page_at ?ps (om_emplace a ?r m) x = Some st \<longleftrightarrow> page_at ?ps m x = Some st" for st
      using False size(2) unfolding page_at_iff [OF ok] page_at_iff [OF ok'] set' by auto
    then show ?thesis using False by (metis option.exhaust)
  qed
qed

lemma u64_sub_mod:
  assumes "b \<le> a" "b < W64"
  shows "u64_sub (a mod W64) b = (a - b) mod W64"
proof -
  have "u64_sub (a mod W64) b = (a mod W64 + (W64 - b)) mod W64" using assms(2) by (simp add: u64_sub_def)
  also have "\<dots> = (a + (W64 - b)) mod W64" by (simp add: mod_add_left_eq)
  also have "a + (W64 - b) = (a - b) + W64" using assms by simp
  finally show ?thesis by simp
qed

lemma u64_add_mod: "u64_add (a mod W64) b = (a + b) mod W64"
  by (simp add: u64_add_def mod_add_left_eq)

lemma erase_region_ok:
  assumes "books_ok P ps (m, c)" "map_of m b = Some r"
  shows "books_ok P ps (om_erase b m, u64_sub c (count_states P r))"
    "page_at ps (om_erase b m) x = (if b \<le> x \<and> x < b + rg_size r then None else page_at ps m x)"
proof -
  have ok: "regions_ok ps m" and c: "c = page_count P m mod W64" using assms(1) by (auto simp: books_ok_def)
  have r: "(b, r) \<in> set m" using assms(2) om_find_iff [OF regions_okD(2) [OF ok]] by blast
  have sub: "set (om_erase b m) = {e \<in> set m. fst e \<noteq> b}" by (rule set_om_erase)
  have ok': "regions_ok ps (om_erase b m)" using ok unfolding regions_ok_def sub by (auto simp: om_ok_erase)
  note d = regions_okD(3) [OF ok r]
  have "count_states P r \<le> length (rg_states r)" by (simp add: count_states_def)
  moreover have "length (rg_states r) \<le> rg_size r" using d regions_okD(1) [OF ok] by simp
  ultimately have "count_states P r < W64" using d by linarith
  then show "books_ok P ps (om_erase b m, u64_sub c (count_states P r))"
    using count_erase [OF regions_okD(2) [OF ok] r, of P] c ok' u64_sub_mod by (simp add: books_ok_def)
  have keep: "(e, q) \<in> set m \<Longrightarrow> e \<noteq> b \<Longrightarrow> e \<le> x \<Longrightarrow> x < e + rg_size q \<Longrightarrow> \<not> (b \<le> x \<and> x < b + rg_size r)" for e q
    using regions_okD(4) [OF ok, of e q b r] regions_okD(4) [OF ok, of b r e q] r by (metis leD le_less_trans less_le_trans nat_neq_iff)
  have same: "(b, q) \<in> set m \<Longrightarrow> q = r" for q using om_keys_inject [OF regions_okD(2) [OF ok] _ r] by blast
  have "page_at ps (om_erase b m) x = Some st \<longleftrightarrow> page_at ps m x = Some st \<and> \<not> (b \<le> x \<and> x < b + rg_size r)" for st
    unfolding page_at_iff [OF ok] page_at_iff [OF ok'] sub using keep same by fastforce
  then show "page_at ps (om_erase b m) x = (if b \<le> x \<and> x < b + rg_size r then None else page_at ps m x)"
    by (metis not_None_eq)
qed

lemma any_page_ok:
  assumes "k < 64" "2 ^ k dvd x" "x \<le> addr" "addr < x + 2 ^ k" "addr < W64" "0 < len" "len + 3 * 2 ^ k \<le> W64"
    and "page_at (2 ^ k) m x = Some st" "P st"
  shows "any_page P (2 ^ k) addr len m"
proof -
  have "x \<in> set (page_range (2 ^ k) x (range_total (2 ^ k) addr len))"
    using page_range_first range_total_pos [OF assms(1-7)] assms(3,5) by simp
  moreover obtain b r i where "region_for (2 ^ k) m x = Some (b, r, i)" "rg_states r ! i = st"
    using assms(8) by (auto simp: page_at_def)
  ultimately show ?thesis using assms(9)
    unfolding any_page_def page_base_of(1) [OF assms(1-5)] list_ex_iff by (intro bexI [of _ x]) simp_all
qed

section \<open>The contract of a backend\<close>

text \<open>Any sequence of operations leaves a state in which a page that can be stored to without a
  fault is reported dirty. This is what makes it safe to drop a page that is reported clean.\<close>

locale fault_backend =
  fixes step :: "'s \<Rightarrow> 's \<Rightarrow> bool"
    and inv :: "'s \<Rightarrow> bool"
    and psize :: "'s \<Rightarrow> nat"
    and writable :: "'s \<Rightarrow> nat set"
    and dirty :: "nat \<Rightarrow> nat \<Rightarrow> 's \<Rightarrow> bool"
  assumes step_inv: "inv s \<Longrightarrow> step s s' \<Longrightarrow> inv s'"
    and writable_dirty: "inv s \<Longrightarrow> x \<in> writable s \<Longrightarrow> x \<le> addr \<Longrightarrow> addr < x + psize s \<Longrightarrow> addr < W64 \<Longrightarrow>
      0 < len \<Longrightarrow> len + 3 * psize s \<le> W64 \<Longrightarrow> dirty addr len s"
begin

lemma steps_inv: "step\<^sup>*\<^sup>* s s' \<Longrightarrow> inv s \<Longrightarrow> inv s'"
  by (induction rule: rtranclp_induct) (auto intro: step_inv)

lemma no_write_missed:
  assumes "step\<^sup>*\<^sup>* s s'" "inv s"
  shows "\<forall>x \<in> writable s'. \<forall>addr len. x \<le> addr \<longrightarrow> addr < x + psize s' \<longrightarrow> addr < W64 \<longrightarrow>
    0 < len \<longrightarrow> len + 3 * psize s' \<le> W64 \<longrightarrow> dirty addr len s'"
  using writable_dirty [OF steps_inv [OF assms]] by blast

end

end
