(* ===== verification/PageFaultLinux.thy ===== *)
theory PageFaultLinux
  imports PageRegions
begin

text \<open>
  The Linux page-fault backend (\<open>platform/src/linux/page_fault_linux.cpp\<close>): regions registered
  with userfaultfd and the set of their pages that have been filled. The kernel is the
  environment: the result of a system call is an argument of the operation that makes it, and
  \<open>pf_present\<close> is the kernel's side of the state, the pages that really have memory. It changes
  as the manual pages say: a successful copy or zero-fill populates its range, a successful
  \<open>MADV_DONTNEED\<close> and an unmapping empty it. The state of a page is whether it is resident.
\<close>

section \<open>State\<close>

record PageFaultBackendLinux =
  pf_uffd :: bool
  pf_page_size :: nat
  pf_resolved :: bool
  pf_regions :: "bool Region omap"
  pf_resident_pages :: nat
  pf_present :: "nat set"

text \<open>The constructor; \<open>ps\<close> is the page size of the system, \<open>opened\<close> and \<open>api\<close> the success of the
  \<open>userfaultfd\<close> call and of \<open>UFFDIO_API\<close>.\<close>

definition PageFaultBackendLinux_new :: "int \<Rightarrow> bool \<Rightarrow> bool \<Rightarrow> PageFaultBackendLinux" where
  "PageFaultBackendLinux_new ps opened api = \<lparr> pf_uffd = (opened \<and> api), pf_page_size = (if 0 < ps then nat ps else 4096),
     pf_resolved = False, pf_regions = [], pf_resident_pages = 0, pf_present = {} \<rparr>"

section \<open>Operations\<close>

definition mark_count :: "bool \<Rightarrow> bool \<Rightarrow> nat \<Rightarrow> nat" where
  "mark_count resident was n = (if was = resident then n else u64_add n (if resident then 1 else SIZE_MAX))"

definition mark_resident :: "nat \<Rightarrow> nat \<Rightarrow> bool \<Rightarrow> PageFaultBackendLinux \<Rightarrow> PageFaultBackendLinux" where
  "mark_resident addr len resident s =
    (case for_each_page (\<lambda>_. resident) (mark_count resident) (pf_page_size s) addr len
        (pf_regions s, pf_resident_pages s) of
       (m, n) \<Rightarrow> s \<lparr> pf_regions := m, pf_resident_pages := n \<rparr>)"

text \<open>\<open>mapped\<close> is the address \<open>mmap\<close> returned, if any; \<open>registered\<close> the success of
  \<open>UFFDIO_REGISTER\<close>.\<close>

definition reserve_region ::
  "nat option \<Rightarrow> bool \<Rightarrow> nat \<Rightarrow> PageFaultBackendLinux \<Rightarrow> PageRegion \<times> PageFaultBackendLinux" where
  "reserve_region mapped registered bytes s =
    (let rounded = round_up bytes (pf_page_size s) in
     if \<not> pf_uffd s \<or> bytes = 0 then (\<lparr> pr_addr = None, pr_size = 0 \<rparr>, s)
     else case mapped of
       None \<Rightarrow> (\<lparr> pr_addr = None, pr_size = 0 \<rparr>, s)
     | Some addr \<Rightarrow>
         if \<not> registered then (\<lparr> pr_addr = None, pr_size = 0 \<rparr>, s)
         else (\<lparr> pr_addr = Some addr, pr_size = rounded \<rparr>,
               s \<lparr> pf_regions := om_emplace addr (new_region (pf_page_size s) rounded False) (pf_regions s) \<rparr>))"

definition release_region :: "nat \<Rightarrow> PageFaultBackendLinux \<Rightarrow> PageFaultBackendLinux" where
  "release_region addr s =
    (case map_of (pf_regions s) addr of
       None \<Rightarrow> s
     | Some r \<Rightarrow> s \<lparr> pf_resident_pages := u64_sub (pf_resident_pages s) (count_states (\<lambda>b. b) r),
         pf_regions := om_erase addr (pf_regions s),
         pf_present := {x \<in> pf_present s. x < addr \<or> addr + rg_size r \<le> x} \<rparr>)"

definition PageFaultBackendLinux_destroy :: "PageFaultBackendLinux \<Rightarrow> PageFaultBackendLinux" where
  "PageFaultBackendLinux_destroy s = fold release_region (map fst (pf_regions s)) s \<lparr> pf_uffd := False \<rparr>"

text \<open>\<open>copied\<close> is the success of \<open>UFFDIO_COPY\<close>. What it copies is the staged buffer: the data at
  its offset in the page, zeros around it.\<close>

definition staged :: "nat \<Rightarrow> nat \<Rightarrow> bytes \<Rightarrow> bytes" where
  "staged ps addr data = blit (offset_in_page ps addr) data (replicate (fill_total ps addr (length data)) 0)"

definition resolve_fault :: "bool \<Rightarrow> nat \<Rightarrow> bytes \<Rightarrow> PageFaultBackendLinux \<Rightarrow> PageFaultBackendLinux" where
  "resolve_fault copied addr data s =
    (if \<not> pf_uffd s \<or> addr = 0 then s
     else
       let dst = page_base (pf_page_size s) addr;
           len = length (staged (pf_page_size s) addr data);
           s1 = mark_resident dst len True s
       in if copied then s1 \<lparr> pf_resolved := True,
              pf_present := pf_present s1 \<union> set (page_range (pf_page_size s) dst len) \<rparr>
          else mark_resident dst len False s1)"

definition is_dirty :: "nat \<Rightarrow> nat \<Rightarrow> PageFaultBackendLinux \<Rightarrow> bool" where
  "is_dirty addr len s = any_page (\<lambda>b. b) (pf_page_size s) addr len (pf_regions s)"

definition clear_dirty :: "nat \<Rightarrow> nat \<Rightarrow> PageFaultBackendLinux \<Rightarrow> PageFaultBackendLinux" where
  "clear_dirty addr len s = s"

text \<open>\<open>advised\<close> is the success of \<open>madvise\<close>.\<close>

definition evict_pages :: "bool \<Rightarrow> nat \<Rightarrow> nat \<Rightarrow> PageFaultBackendLinux \<Rightarrow> bool \<times> PageFaultBackendLinux" where
  "evict_pages advised addr len s =
    (let page = page_base (pf_page_size s) addr;
         n = range_total (pf_page_size s) addr len
     in if n = 0 then (True, s)
        else if \<not> advised then (False, s)
        else (True, mark_resident page n False
                (s \<lparr> pf_present := pf_present s - set (page_range (pf_page_size s) page n) \<rparr>)))"

definition zero_page :: "bool \<Rightarrow> nat \<Rightarrow> PageFaultBackendLinux \<Rightarrow> PageFaultBackendLinux" where
  "zero_page zeroed addr s =
    (let x = page_base (pf_page_size s) addr;
         s1 = mark_resident x (pf_page_size s) True s
     in if zeroed then s1 \<lparr> pf_present := pf_present s1 \<union> set (page_range (pf_page_size s) x (pf_page_size s)) \<rparr>
        else mark_resident x (pf_page_size s) False s1)"

text \<open>One page-fault event on the handler thread; \<open>callback\<close> is what the registered handler does
  to the backend, the identity when there is none.\<close>

definition on_fault_event ::
  "(PageFaultBackendLinux \<Rightarrow> PageFaultBackendLinux) \<Rightarrow> bool \<Rightarrow> nat \<Rightarrow> PageFaultBackendLinux \<Rightarrow> PageFaultBackendLinux" where
  "on_fault_event callback zeroed addr s =
    (let s1 = callback (s \<lparr> pf_resolved := False \<rparr>) in if pf_resolved s1 then s1 else zero_page zeroed addr s1)"

section \<open>Steps of the backend\<close>

abbreviation pf_page :: "PageFaultBackendLinux \<Rightarrow> nat \<Rightarrow> bool option" where
  "pf_page s \<equiv> page_at (pf_page_size s) (pf_regions s)"

definition pf_inv :: "PageFaultBackendLinux \<Rightarrow> bool" where
  "pf_inv s \<longleftrightarrow> (\<exists>k < 64. pf_page_size s = 2 ^ k) \<and>
     books_ok (\<lambda>b. b) (pf_page_size s) (pf_regions s, pf_resident_pages s) \<and>
     (\<forall>x \<in> pf_present s. pf_page_size s dvd x \<and> pf_page s x = Some True)"

text \<open>What is relied on from the kernel: a new mapping is apart from the others; a copy or a
  zero-fill succeeds only inside registered ranges, and is taken to fail only where no page of
  the range has memory.\<close>

definition kernel_maps :: "nat option \<Rightarrow> nat \<Rightarrow> PageFaultBackendLinux \<Rightarrow> bool" where
  "kernel_maps mapped n s \<longleftrightarrow>
    (case mapped of None \<Rightarrow> True | Some a \<Rightarrow> maps_apart (pf_page_size s) a n (pf_regions s))"

definition kernel_fills :: "bool \<Rightarrow> nat list \<Rightarrow> PageFaultBackendLinux \<Rightarrow> bool" where
  "kernel_fills ok xs s \<longleftrightarrow> (if ok then \<forall>x \<in> set xs. pf_page s x \<noteq> None else set xs \<inter> pf_present s = {})"

definition resolve_range :: "nat \<Rightarrow> bytes \<Rightarrow> PageFaultBackendLinux \<Rightarrow> nat list" where
  "resolve_range addr data s = page_range (pf_page_size s) (page_base (pf_page_size s) addr)
     (length (staged (pf_page_size s) addr data))"

inductive pf_step :: "PageFaultBackendLinux \<Rightarrow> PageFaultBackendLinux \<Rightarrow> bool" where
  reserve: "kernel_maps mapped (round_up bytes (pf_page_size s)) s \<Longrightarrow>
    pf_step s (snd (reserve_region mapped registered bytes s))"
| release: "pf_step s (release_region addr s)"
| resolve: "addr < W64 \<Longrightarrow> kernel_fills copied (resolve_range addr data s) s \<Longrightarrow>
    pf_step s (resolve_fault copied addr data s)"
| evict: "addr < W64 \<Longrightarrow> pf_step s (snd (evict_pages advised addr len s))"
| begin_event: "pf_step s (s \<lparr> pf_resolved := False \<rparr>)"
| zero: "addr < W64 \<Longrightarrow>
    kernel_fills zeroed (page_range (pf_page_size s) (page_base (pf_page_size s) addr) (pf_page_size s)) s \<Longrightarrow>
    pf_step s (zero_page zeroed addr s)"

lemma mark_counts: "counts (\<lambda>b. b) (\<lambda>_. v) (mark_count v)"
proof -
  have "(k + SIZE_MAX) mod W64 = (k - 1) mod W64" if "0 < k" for k
  proof -
    have "k + SIZE_MAX = (k - 1) + W64" using that W64_pos unfolding SIZE_MAX_def by linarith
    then show ?thesis by simp
  qed
  then show ?thesis by (auto simp: counts_def mark_count_def u64_add_mod)
qed

lemma mark_resident_ok:
  fixes v :: bool and len :: nat
  assumes "pf_inv s" "pf_page_size s dvd page"
  defines "s' \<equiv> mark_resident page len v s"
  shows "books_ok (\<lambda>b. b) (pf_page_size s) (pf_regions s', pf_resident_pages s')"
    "pf_page_size s' = pf_page_size s" "pf_present s' = pf_present s"
    "pf_page_size s dvd x \<Longrightarrow> pf_page s' x =
       (if x \<in> set (page_range (pf_page_size s) page len) then map_option (\<lambda>_. v) (pf_page s x) else pf_page s x)"
proof -
  obtain k where k: "k < 64" "pf_page_size s = 2 ^ k" using assms(1) by (auto simp: pf_inv_def)
  have b: "books_ok (\<lambda>b. b) (2 ^ k) (pf_regions s, pf_resident_pages s)" using assms(1) k by (simp add: pf_inv_def)
  have al: "2 ^ k dvd page" using assms(2) k by simp
  note f = for_each_page_ok [OF k(1) b mark_counts [of v] al, where len = len]
  show "books_ok (\<lambda>b. b) (pf_page_size s) (pf_regions s', pf_resident_pages s')"
    using f(1) k by (auto simp: s'_def mark_resident_def split: prod.split)
  show "pf_page_size s' = pf_page_size s" "pf_present s' = pf_present s"
    by (simp_all add: s'_def mark_resident_def split: prod.split)
  show "pf_page_size s dvd x \<Longrightarrow> pf_page s' x =
       (if x \<in> set (page_range (pf_page_size s) page len) then map_option (\<lambda>_. v) (pf_page s x) else pf_page s x)"
    using f(2) [of x] k by (cases "for_each_page (\<lambda>_. v) (mark_count v) (2 ^ k) page len (pf_regions s, pf_resident_pages s)")
      (simp add: s'_def mark_resident_def)
qed

text \<open>Filling a range, with the rollback, and emptying one.\<close>

lemma mark_True_inv:
  assumes "pf_inv s" "pf_page_size s dvd page"
  shows "pf_inv (mark_resident page len True s)"
  using assms mark_resident_ok [OF assms, where v = True and len = len] unfolding pf_inv_def by auto

lemma filled_inv:
  assumes "pf_inv s" "pf_page_size s dvd page" "kernel_fills True (page_range (pf_page_size s) page len) s"
  shows "pf_inv (mark_resident page len True s \<lparr> pf_resolved := v,
    pf_present := pf_present s \<union> set (page_range (pf_page_size s) page len) \<rparr>)"
proof -
  note m = mark_resident_ok [OF assms(1,2), where v = True and len = len]
  obtain k where k: "k < 64" "pf_page_size s = 2 ^ k" using assms(1) by (auto simp: pf_inv_def)
  have "pf_page_size s dvd x \<and> pf_page (mark_resident page len True s) x = Some True"
    if "x \<in> pf_present s \<union> set (page_range (pf_page_size s) page len)" for x
  proof -
    have "pf_page_size s dvd x" using that assms(1,2) page_range_dvd [of k page x len] k by (auto simp: pf_inv_def)
    moreover have "pf_page s x \<noteq> None" "x \<in> pf_present s \<Longrightarrow> pf_page s x = Some True"
      using that assms(1,3) by (auto simp: pf_inv_def kernel_fills_def)
    ultimately show ?thesis using m(4) [of x] that by auto
  qed
  then show ?thesis using m(1,2) k by (auto simp: pf_inv_def)
qed

lemma emptied_inv:
  assumes "pf_inv s" "pf_page_size s dvd page" "P \<subseteq> pf_present s" "P \<inter> set (page_range (pf_page_size s) page len) = {}"
  shows "pf_inv (mark_resident page len False (s \<lparr> pf_present := P \<rparr>))"
proof -
  let ?s = "s \<lparr> pf_present := P \<rparr>"
  have inv: "pf_inv ?s" using assms(1,3) by (auto simp: pf_inv_def)
  note m = mark_resident_ok [OF inv, of page, where v = False and len = len]
  have "pf_page_size s dvd x \<and> pf_page (mark_resident page len False ?s) x = Some True" if "x \<in> P" for x
  proof -
    have "x \<notin> set (page_range (pf_page_size s) page len)" "pf_page_size s dvd x" "pf_page s x = Some True"
      using that assms(1,3,4) by (auto simp: pf_inv_def)
    then show ?thesis using m(4) [of x] assms(2) by simp
  qed
  then show ?thesis using m(1,2,3) inv assms(2) by (auto simp: pf_inv_def)
qed

lemma page_base_aligned: "pf_inv s \<Longrightarrow> addr < W64 \<Longrightarrow> pf_page_size s dvd page_base (pf_page_size s) addr"
  using page_base_dvd by (auto simp: pf_inv_def)

text \<open>A range that is marked and, when the kernel refuses it, unmarked again.\<close>

lemma rolled_back_inv:
  assumes "pf_inv s" "pf_page_size s dvd page" "kernel_fills False (page_range (pf_page_size s) page len) s"
  shows "pf_inv (mark_resident page len False (mark_resident page len True s))"
proof -
  let ?s = "mark_resident page len True s"
  note b = mark_resident_ok(2,3) [OF assms(1,2), of len True]
  have "pf_inv (mark_resident page len False (?s \<lparr> pf_present := pf_present ?s \<rparr>))"
    using mark_True_inv [OF assms(1,2)] by (rule emptied_inv) (use b assms(2,3) in \<open>auto simp: kernel_fills_def\<close>)
  then show ?thesis by simp
qed

lemma resolve_inv:
  assumes "pf_inv s" "addr < W64" "kernel_fills copied (resolve_range addr data s) s"
  shows "pf_inv (resolve_fault copied addr data s)"
proof -
  note al = page_base_aligned [OF assms(1,2)]
  let ?page = "page_base (pf_page_size s) addr" and ?len = "length (staged (pf_page_size s) addr data)"
  note present = mark_resident_ok(3) [OF assms(1) al, of ?len True]
  show ?thesis
  proof (cases copied)
    case True
    then show ?thesis using filled_inv [OF assms(1) al, of ?len True] assms present
      by (simp add: resolve_fault_def resolve_range_def Let_def)
  next
    case False
    then show ?thesis using rolled_back_inv [OF assms(1) al, of ?len] assms
      by (simp add: resolve_fault_def resolve_range_def Let_def)
  qed
qed

lemma resolved_unchanged: "pf_resolved t = v \<Longrightarrow> t \<lparr> pf_resolved := v, pf_present := P \<rparr> = t \<lparr> pf_present := P \<rparr>"
  by (cases t) simp

lemma zero_inv:
  assumes "pf_inv s" "addr < W64"
    and "kernel_fills zeroed (page_range (pf_page_size s) (page_base (pf_page_size s) addr) (pf_page_size s)) s"
  shows "pf_inv (zero_page zeroed addr s)"
proof -
  note al = page_base_aligned [OF assms(1,2)]
  let ?page = "page_base (pf_page_size s) addr" and ?len = "pf_page_size s"
  let ?s = "mark_resident ?page ?len True s"
  have b: "pf_present ?s = pf_present s" "pf_resolved ?s = pf_resolved s"
    using mark_resident_ok(3) [OF assms(1) al, of ?len True] by (simp_all add: mark_resident_def split: prod.split)
  show ?thesis
  proof (cases zeroed)
    case True
    then show ?thesis using filled_inv [OF assms(1) al, of ?len "pf_resolved s"] assms b
      by (simp add: zero_page_def Let_def resolved_unchanged [OF b(2)])
  next
    case False
    then show ?thesis using rolled_back_inv [OF assms(1) al, of ?len] assms by (simp add: zero_page_def Let_def)
  qed
qed

lemma evict_inv:
  assumes "pf_inv s" "addr < W64"
  shows "pf_inv (snd (evict_pages advised addr len s))"
proof -
  let ?page = "page_base (pf_page_size s) addr" and ?n = "range_total (pf_page_size s) addr len"
  let ?P = "pf_present s - set (page_range (pf_page_size s) ?page ?n)"
  have "pf_inv (mark_resident ?page ?n False (s \<lparr> pf_present := ?P \<rparr>))"
    using assms(1) page_base_aligned [OF assms] by (rule emptied_inv) auto
  then show ?thesis using assms(1) by (simp add: evict_pages_def Let_def)
qed

lemma pf_release_inv: "pf_inv s \<Longrightarrow> pf_inv (release_region addr s)"
  using erase_region_ok [of "\<lambda>b. b" "pf_page_size s" "pf_regions s" "pf_resident_pages s" addr]
  by (auto simp: release_region_def pf_inv_def split: option.split)

lemma reserve_inv:
  assumes "pf_inv s" "kernel_maps mapped (round_up bytes (pf_page_size s)) s"
  shows "pf_inv (snd (reserve_region mapped registered bytes s))"
proof (cases "pf_uffd s \<and> bytes \<noteq> 0 \<and> registered \<and> mapped \<noteq> None")
  case False
  then show ?thesis using assms(1) by (auto simp: reserve_region_def Let_def split: option.splits)
next
  case True
  then obtain a where a: "mapped = Some a" by blast
  obtain k where k: "k < 64" "pf_page_size s = 2 ^ k" using assms(1) by (auto simp: pf_inv_def)
  have ap: "maps_apart (2 ^ k) a (round_up bytes (2 ^ k)) (pf_regions s)" using assms(2) a k by (simp add: kernel_maps_def)
  have b: "books_ok (\<lambda>b. b) (2 ^ k) (pf_regions s, pf_resident_pages s)" using assms(1) k by (simp add: pf_inv_def)
  note e = emplace_region_ok [OF k(1) b ap round_up_dvd [OF k(1)], of False]
  have "\<not> (a \<le> x \<and> x < a + round_up bytes (2 ^ k))" if "page_at (2 ^ k) (pf_regions s) x = Some st" for x st
    using that ap page_at_iff [of "2 ^ k" "pf_regions s" x st] b unfolding maps_apart_def books_ok_def by fastforce
  then show ?thesis using True a assms(1) k e by (auto simp: reserve_region_def Let_def pf_inv_def)
qed

lemma pf_step_inv: "pf_inv s \<Longrightarrow> pf_step s s' \<Longrightarrow> pf_inv s'"
  by (erule pf_step.cases) (simp_all add: reserve_inv pf_release_inv resolve_inv evict_inv zero_inv, simp add: pf_inv_def)

section \<open>No page with memory is reported clean\<close>

lemma dirty_if_present:
  assumes "pf_inv s" "x \<in> pf_present s" "x \<le> addr" "addr < x + pf_page_size s" "addr < W64"
    and "0 < len" "len + 3 * pf_page_size s \<le> W64"
  shows "is_dirty addr len s"
proof -
  obtain k where k: "k < 64" "pf_page_size s = 2 ^ k" using assms(1) by (auto simp: pf_inv_def)
  have "2 ^ k dvd x" "page_at (2 ^ k) (pf_regions s) x = Some True" using assms(1,2) k by (auto simp: pf_inv_def)
  then show ?thesis using any_page_ok [OF k(1), of x addr len _ True "\<lambda>b. b"] assms(3-7) k by (simp add: is_dirty_def)
qed

interpretation linux_backend: fault_backend pf_step pf_inv pf_page_size pf_present is_dirty
  by unfold_locales (auto intro: pf_step_inv dirty_if_present)

lemma pf_new_inv: "k < 64 \<Longrightarrow> pf_inv (PageFaultBackendLinux_new (2 ^ k) opened api)"
  by (auto simp: pf_inv_def PageFaultBackendLinux_new_def books_ok_def regions_ok_def page_count_def nat_power_eq)


text \<open>A backend with pages of four bytes: a region of eight bytes whose second page is filled.\<close>

definition demo_reserved :: PageFaultBackendLinux where
  "demo_reserved = snd (reserve_region (Some 64) True 7 (PageFaultBackendLinux_new (2 ^ 2) True True))"

definition demo_resolved :: PageFaultBackendLinux where
  "demo_resolved = resolve_fault True 69 [7] demo_reserved"


text \<open>The assumption on refused copies is needed. A copy that the kernel refuses because the page
  already has memory is rolled back as if the page had been empty: the page is then reported
  clean although it may have been written.\<close>

lemma rollback_forgets_resident:
  assumes "pf_inv s" "addr < W64" "addr \<noteq> 0" "pf_uffd s" "x \<in> set (resolve_range addr data s)"
  shows "pf_page (resolve_fault False addr data s) x \<noteq> Some True"
proof -
  note al = page_base_aligned [OF assms(1,2)]
  let ?page = "page_base (pf_page_size s) addr" and ?len = "length (staged (pf_page_size s) addr data)"
  let ?s = "mark_resident ?page ?len True s"
  note ps = mark_resident_ok(2) [OF assms(1) al, of ?len True]
  have "pf_page_size s dvd x" using assms(1,5) al page_range_dvd by (auto simp: pf_inv_def resolve_range_def)
  then show ?thesis
    using mark_resident_ok(2,4) [OF mark_True_inv [OF assms(1) al, of ?len], of ?page, where len = ?len and v = False] ps al assms
    by (auto simp: resolve_fault_def resolve_range_def Let_def)
qed

text \<open>A fault that the handler leaves unanswered is answered with zeros, and the page counts as
  resident from then on.\<close>

lemma unanswered_fault_zero_filled:
  "on_fault_event (\<lambda>s. s) zeroed addr s = zero_page zeroed addr (s \<lparr> pf_resolved := False \<rparr>)"
  by (simp add: on_fault_event_def)

end
