(* ===== verification/PageProtection.thy ===== *)
theory PageProtection
  imports PageRegions
begin

text \<open>
  The part that the Windows and the macOS page-fault backends share: pages that are absent,
  resident or dirty, and write detection by page protection. The protection of a page is the
  kernel's side of the state. A store succeeds without a fault exactly on a page that is
  writable, so that the invariant has two halves: a writable page is dirty, and a page without
  contents is inaccessible. The bytes of the pages are not part of this model.
\<close>

section \<open>State\<close>

datatype FaultPageState = ABSENT | RESIDENT | DIRTY

datatype prot = NoAccess | ReadOnly | ReadWrite

text \<open>\<open>pb_in_write_fault\<close> and \<open>pb_resolved\<close> are the variables of the thread that faulted.\<close>

record prot_pages =
  pb_page_size :: nat
  pb_regions :: "FaultPageState Region omap"
  pb_resident_pages :: nat
  pb_fault_handler :: bool
  pb_in_write_fault :: bool
  pb_resolved :: bool
  pb_prot :: "nat \<Rightarrow> prot"

abbreviation pb_page :: "'a prot_pages_scheme \<Rightarrow> nat \<Rightarrow> FaultPageState option" where
  "pb_page s \<equiv> page_at (pb_page_size s) (pb_regions s)"

abbreviation pb_range :: "'a prot_pages_scheme \<Rightarrow> nat \<Rightarrow> nat \<Rightarrow> nat list" where
  "pb_range s \<equiv> page_range (pb_page_size s)"

section \<open>Operations\<close>

text \<open>A successful change of protection of a range of pages.\<close>

definition protect_pages :: "prot \<Rightarrow> nat \<Rightarrow> nat \<Rightarrow> 'a prot_pages_scheme \<Rightarrow> 'a prot_pages_scheme" where
  "protect_pages p page len s = s \<lparr> pb_prot := (\<lambda>x. if x \<in> set (pb_range s page len) then p else pb_prot s x) \<rparr>"

definition update_states ::
  "(FaultPageState \<Rightarrow> FaultPageState) \<Rightarrow> (FaultPageState \<Rightarrow> nat \<Rightarrow> nat) \<Rightarrow> nat \<Rightarrow> nat \<Rightarrow> 'a prot_pages_scheme \<Rightarrow> 'a prot_pages_scheme" where
  "update_states g h page len s =
    (case for_each_page g h (pb_page_size s) page len (pb_regions s, pb_resident_pages s) of
       (m, n) \<Rightarrow> s \<lparr> pb_regions := m, pb_resident_pages := n \<rparr>)"

definition set_count :: "FaultPageState \<Rightarrow> FaultPageState \<Rightarrow> nat \<Rightarrow> nat" where
  "set_count state st n = (if st = ABSENT \<and> state \<noteq> ABSENT then u64_add n 1 else n)"

definition set_states :: "nat \<Rightarrow> nat \<Rightarrow> FaultPageState \<Rightarrow> 'a prot_pages_scheme \<Rightarrow> 'a prot_pages_scheme" where
  "set_states page len state = update_states (\<lambda>_. state) (set_count state) page len"

definition clean_state :: "FaultPageState \<Rightarrow> FaultPageState" where
  "clean_state st = (if st = DIRTY then RESIDENT else st)"

definition evict_count :: "FaultPageState \<Rightarrow> nat \<Rightarrow> nat" where
  "evict_count st n = (if st \<noteq> ABSENT then u64_sub n 1 else n)"

section \<open>Invariant\<close>

definition prot_inv :: "'a prot_pages_scheme \<Rightarrow> bool" where
  "prot_inv s \<longleftrightarrow> (\<exists>k < 64. pb_page_size s = 2 ^ k) \<and>
     books_ok (\<lambda>st. st \<noteq> ABSENT) (pb_page_size s) (pb_regions s, pb_resident_pages s) \<and>
     (\<forall>x st. pb_page_size s dvd x \<longrightarrow> pb_page s x = Some st \<longrightarrow>
        (pb_prot s x = ReadWrite \<longrightarrow> st = DIRTY) \<and> (st = ABSENT \<longrightarrow> pb_prot s x = NoAccess))"

lemma prot_inv_page:
  "prot_inv s \<Longrightarrow> pb_page_size s dvd x \<Longrightarrow> pb_page s x = Some st \<Longrightarrow>
   (pb_prot s x = ReadWrite \<longrightarrow> st = DIRTY) \<and> (st = ABSENT \<longrightarrow> pb_prot s x = NoAccess)"
  by (simp add: prot_inv_def)

lemma protect_pages_sel [simp]:
  "pb_page_size (protect_pages p page len s) = pb_page_size s" "pb_regions (protect_pages p page len s) = pb_regions s"
  "pb_resident_pages (protect_pages p page len s) = pb_resident_pages s"
  "pb_in_write_fault (protect_pages p page len s) = pb_in_write_fault s"
  "pb_prot (protect_pages p page len s) x = (if x \<in> set (pb_range s page len) then p else pb_prot s x)"
  by (simp_all add: protect_pages_def)

lemma protect_twice: "protect_pages p page len (protect_pages q page len s) = protect_pages p page len s"
  by (simp add: protect_pages_def fun_eq_iff)

lemma update_states_sel [simp]:
  "pb_page_size (update_states g h page len s) = pb_page_size s" "pb_prot (update_states g h page len s) = pb_prot s"
  "pb_in_write_fault (update_states g h page len s) = pb_in_write_fault s"
  by (simp_all add: update_states_def split: prod.split)

lemma update_states_ok:
  assumes "prot_inv s" "counts (\<lambda>st. st \<noteq> ABSENT) g h" "pb_page_size s dvd page" "\<And>st. g (g st) = g st"
    and "pb_page_size t = pb_page_size s" "pb_regions t = pb_regions s" "pb_resident_pages t = pb_resident_pages s"
  shows "books_ok (\<lambda>st. st \<noteq> ABSENT) (pb_page_size s)
      (pb_regions (update_states g h page len t), pb_resident_pages (update_states g h page len t))"
    "pb_page_size s dvd x \<Longrightarrow> pb_page (update_states g h page len t) x =
       (if x \<in> set (pb_range s page len) then map_option g (pb_page s x) else pb_page s x)"
proof -
  obtain k where k: "k < 64" "pb_page_size s = 2 ^ k" using assms(1) by (auto simp: prot_inv_def)
  have b: "books_ok (\<lambda>st. st \<noteq> ABSENT) (2 ^ k) (pb_regions s, pb_resident_pages s)"
    using assms(1) k by (simp add: prot_inv_def)
  have al: "2 ^ k dvd page" using assms(3) k by simp
  note f = for_each_page_ok [OF k(1) b assms(2) al assms(4), where len = len]
  obtain m n where mn: "for_each_page g h (2 ^ k) page len (pb_regions s, pb_resident_pages s) = (m, n)" by fastforce
  show "books_ok (\<lambda>st. st \<noteq> ABSENT) (pb_page_size s)
      (pb_regions (update_states g h page len t), pb_resident_pages (update_states g h page len t))"
    using f(1) k mn assms(5-7) by (simp add: update_states_def)
  show "pb_page_size s dvd x \<Longrightarrow> pb_page (update_states g h page len t) x =
       (if x \<in> set (pb_range s page len) then map_option g (pb_page s x) else pb_page s x)"
    using f(2) [of x] k mn assms(5-7) by (simp add: update_states_def)
qed

text \<open>A range whose states and protection change together.\<close>

lemma range_change_inv:
  assumes "prot_inv s" "counts (\<lambda>st. st \<noteq> ABSENT) g h" "pb_page_size s dvd page" "\<And>st. g (g st) = g st"
    and ok: "\<And>x st. x \<in> set (pb_range s page len) \<Longrightarrow> pb_page s x = Some st \<Longrightarrow>
      (p = ReadWrite \<longrightarrow> g st = DIRTY) \<and> (g st = ABSENT \<longrightarrow> p = NoAccess)"
  shows "prot_inv (update_states g h page len (protect_pages p page len s))"
proof -
  let ?t = "update_states g h page len (protect_pages p page len s)"
  note u = update_states_ok [OF assms(1-4), where t = "protect_pages p page len s" and len = len, simplified]
  have "(pb_prot ?t x = ReadWrite \<longrightarrow> st = DIRTY) \<and> (st = ABSENT \<longrightarrow> pb_prot ?t x = NoAccess)"
    if x: "pb_page_size s dvd x" "pb_page ?t x = Some st" for x st
  proof (cases "x \<in> set (pb_range s page len)")
    case True
    then obtain st0 where "pb_page s x = Some st0" "st = g st0" using u(2) [OF x(1)] x(2) by auto
    then show ?thesis using ok [OF True] True by simp
  next
    case False
    then show ?thesis using u(2) [OF x(1)] x prot_inv_page [OF assms(1) x(1)] by simp
  qed
  then show ?thesis using u(1) assms(1) by (auto simp: prot_inv_def)
qed

lemma set_counts: "state \<noteq> ABSENT \<Longrightarrow> counts (\<lambda>st. st \<noteq> ABSENT) (\<lambda>_. state) (set_count state)"
  by (auto simp: counts_def set_count_def u64_add_mod)

lemma clean_counts: "counts (\<lambda>st. st \<noteq> ABSENT) clean_state (\<lambda>_ n. n)"
  by (auto simp: counts_def clean_state_def)

lemma evict_counts: "counts (\<lambda>st. st \<noteq> ABSENT) (\<lambda>_. ABSENT) evict_count"
  using one_less_W64 by (auto simp: counts_def evict_count_def u64_sub_mod)

lemma fill_inv:
  assumes "prot_inv s" "pb_page_size s dvd page" "state \<noteq> ABSENT" "p = ReadWrite \<longrightarrow> state = DIRTY"
  shows "prot_inv (set_states page len state (protect_pages p page len s))"
  unfolding set_states_def using assms(1) set_counts [OF assms(3)] assms(2)
  by (rule range_change_inv) (use assms(3,4) in auto)

lemma clean_inv:
  assumes "prot_inv s" "pb_page_size s dvd page" "\<forall>x \<in> set (pb_range s page len). pb_page s x \<noteq> Some ABSENT"
  shows "prot_inv (update_states clean_state (\<lambda>_ n. n) page len (protect_pages ReadOnly page len s))"
  using assms(1) clean_counts assms(2)
  by (rule range_change_inv) (use assms(3) in \<open>auto simp: clean_state_def split: if_splits\<close>)

lemma drop_inv:
  assumes "prot_inv s" "pb_page_size s dvd page"
  shows "prot_inv (update_states (\<lambda>_. ABSENT) evict_count page len (protect_pages NoAccess page len s))"
  using assms(1) evict_counts assms(2) by (rule range_change_inv) auto

lemma prot_page_base: "prot_inv s \<Longrightarrow> addr < W64 \<Longrightarrow> pb_page_size s dvd page_base (pb_page_size s) addr"
  using page_base_dvd by (auto simp: prot_inv_def)

lemma prot_inv_cong:
  "prot_inv s \<Longrightarrow> pb_page_size t = pb_page_size s \<Longrightarrow> pb_regions t = pb_regions s \<Longrightarrow>
   pb_resident_pages t = pb_resident_pages s \<Longrightarrow> pb_prot t = pb_prot s \<Longrightarrow> prot_inv t"
  by (simp add: prot_inv_def)

lemma prot_reserve_inv:
  assumes "prot_inv s" "maps_apart (pb_page_size s) a (round_up n (pb_page_size s)) (pb_regions s)"
    and "pb_page_size t = pb_page_size s" "pb_resident_pages t = pb_resident_pages s"
    and "pb_regions t = om_emplace a (new_region (pb_page_size s) (round_up n (pb_page_size s)) ABSENT) (pb_regions s)"
    and "\<And>x. pb_prot t x = (if a \<le> x \<and> x < a + round_up n (pb_page_size s) then NoAccess else pb_prot s x)"
  shows "prot_inv t"
proof -
  obtain k where k: "k < 64" "pb_page_size s = 2 ^ k" using assms(1) by (auto simp: prot_inv_def)
  have b: "books_ok (\<lambda>st. st \<noteq> ABSENT) (2 ^ k) (pb_regions s, pb_resident_pages s)"
    using assms(1) k by (simp add: prot_inv_def)
  note e = emplace_region_ok [OF k(1) b assms(2) [unfolded k(2)] round_up_dvd [OF k(1)], of ABSENT]
  show ?thesis using assms(1,3-6) k e by (auto simp: prot_inv_def split: if_splits)
qed

lemma prot_release_inv:
  assumes "prot_inv s" "map_of (pb_regions s) a = Some r" "pb_page_size t = pb_page_size s" "pb_prot t = pb_prot s"
    and "pb_regions t = om_erase a (pb_regions s)"
    and "pb_resident_pages t = u64_sub (pb_resident_pages s) (count_states (\<lambda>st. st \<noteq> ABSENT) r)"
  shows "prot_inv t"
proof -
  have b: "books_ok (\<lambda>st. st \<noteq> ABSENT) (pb_page_size s) (pb_regions s, pb_resident_pages s)"
    using assms(1) by (simp add: prot_inv_def)
  show ?thesis using assms erase_region_ok [OF b assms(2)] by (auto simp: prot_inv_def split: if_splits)
qed

text \<open>The pages that can be stored to without a fault, and that they answer dirty.\<close>

definition writable_pages :: "'a prot_pages_scheme \<Rightarrow> nat set" where
  "writable_pages s = {x. pb_page_size s dvd x \<and> pb_page s x \<noteq> None \<and> pb_prot s x = ReadWrite}"

definition dirty_pages :: "nat \<Rightarrow> nat \<Rightarrow> 'a prot_pages_scheme \<Rightarrow> bool" where
  "dirty_pages addr len s = any_page (\<lambda>st. st = DIRTY) (pb_page_size s) addr len (pb_regions s)"

lemma writable_dirty_pages:
  assumes "prot_inv s" "x \<in> writable_pages s" "x \<le> addr" "addr < x + pb_page_size s" "addr < W64"
    and "0 < len" "len + 3 * pb_page_size s \<le> W64"
  shows "dirty_pages addr len s"
proof -
  obtain k where k: "k < 64" "pb_page_size s = 2 ^ k" using assms(1) by (auto simp: prot_inv_def)
  have "2 ^ k dvd x" "page_at (2 ^ k) (pb_regions s) x = Some DIRTY"
    using assms(2) k prot_inv_page [OF assms(1), of x] by (auto simp: writable_pages_def)
  then show ?thesis using any_page_ok [OF k(1), of x addr len _ DIRTY "\<lambda>st. st = DIRTY"] assms(3-7) k
    by (simp add: dirty_pages_def)
qed

end
