(* ===== verification/PageFaultWin.thy ===== *)
theory PageFaultWin
  imports PageProtection
begin

text \<open>
  The Windows page-fault backend (\<open>platform/src/windows/page_fault_win.cpp\<close>), built on a vectored
  exception handler. The results of \<open>VirtualAlloc\<close>, \<open>VirtualProtect\<close> and \<open>VirtualFree\<close> are
  arguments of the operations; a success changes the protection of the range. \<open>VirtualProtect\<close>
  succeeds only on committed pages. The copy of the data into the page is not part of the model.
\<close>

section \<open>State and operations\<close>

text \<open>\<open>pw_veh\<close>: the handler is registered and the instance published.\<close>

record PageFaultBackendWin = prot_pages +
  pw_veh :: bool

definition PageFaultBackendWin_new :: "nat \<Rightarrow> bool \<Rightarrow> PageFaultBackendWin" where
  "PageFaultBackendWin_new ps registered = \<lparr> pb_page_size = (if ps \<noteq> 0 then ps else 4096), pb_regions = [],
     pb_resident_pages = 0, pb_fault_handler = False, pb_in_write_fault = False, pb_resolved = False,
     pb_prot = (\<lambda>_. NoAccess), pw_veh = registered \<rparr>"

definition win_is_supported :: "PageFaultBackendWin \<Rightarrow> bool" where
  "win_is_supported s = pw_veh s"

definition win_reserve_region :: "nat option \<Rightarrow> nat \<Rightarrow> PageFaultBackendWin \<Rightarrow> PageRegion \<times> PageFaultBackendWin" where
  "win_reserve_region reserved bytes s =
    (if bytes = 0 then (\<lparr> pr_addr = None, pr_size = 0 \<rparr>, s)
     else
       let rounded = round_up bytes (pb_page_size s) in
       case reserved of
         None \<Rightarrow> (\<lparr> pr_addr = None, pr_size = 0 \<rparr>, s)
       | Some addr \<Rightarrow> (\<lparr> pr_addr = Some addr, pr_size = rounded \<rparr>,
           s \<lparr> pb_regions := om_emplace addr (new_region (pb_page_size s) rounded ABSENT) (pb_regions s),
               pb_prot := (\<lambda>x. if addr \<le> x \<and> x < addr + rounded then NoAccess else pb_prot s x) \<rparr>))"

definition win_release_region :: "nat \<Rightarrow> PageFaultBackendWin \<Rightarrow> PageFaultBackendWin" where
  "win_release_region addr s =
    (case map_of (pb_regions s) addr of
       None \<Rightarrow> s
     | Some r \<Rightarrow> s \<lparr> pb_resident_pages := u64_sub (pb_resident_pages s) (count_states (\<lambda>st. st \<noteq> ABSENT) r),
                     pb_regions := om_erase addr (pb_regions s) \<rparr>)"

definition PageFaultBackendWin_destroy :: "PageFaultBackendWin \<Rightarrow> PageFaultBackendWin" where
  "PageFaultBackendWin_destroy s = fold win_release_region (map fst (pb_regions s)) (s \<lparr> pw_veh := False \<rparr>)"

definition win_on_fault :: "bool \<Rightarrow> PageFaultBackendWin \<Rightarrow> PageFaultBackendWin" where
  "win_on_fault cb s = s \<lparr> pb_fault_handler := cb \<rparr>"

definition win_resolve_fault :: "bool \<Rightarrow> bool \<Rightarrow> nat \<Rightarrow> nat \<Rightarrow> PageFaultBackendWin \<Rightarrow> PageFaultBackendWin" where
  "win_resolve_fault committed protected addr len s =
    (if addr = 0 then s
     else
       let page = page_base (pb_page_size s) addr;
           n = fill_total (pb_page_size s) addr len
       in if \<not> committed then s
          else
            let s1 = protect_pages ReadWrite page n s in
            if pb_in_write_fault s1 then set_states page n DIRTY s1 \<lparr> pb_resolved := True \<rparr>
            else if \<not> protected then set_states page n DIRTY s1 \<lparr> pb_resolved := True \<rparr>
            else set_states page n RESIDENT (protect_pages ReadOnly page n s1) \<lparr> pb_resolved := True \<rparr>)"

definition win_is_dirty :: "nat \<Rightarrow> nat \<Rightarrow> PageFaultBackendWin \<Rightarrow> bool" where
  "win_is_dirty addr len s = dirty_pages addr len s"

text \<open>\<open>clear_dirty\<close> changes the protection before it takes the lock under which it changes the
  states; the two halves are separate definitions.\<close>

definition win_clear_protect :: "nat \<Rightarrow> nat \<Rightarrow> PageFaultBackendWin \<Rightarrow> PageFaultBackendWin" where
  "win_clear_protect addr len s =
    protect_pages ReadOnly (page_base (pb_page_size s) addr) (range_total (pb_page_size s) addr len) s"

definition win_clear_mark :: "nat \<Rightarrow> nat \<Rightarrow> PageFaultBackendWin \<Rightarrow> PageFaultBackendWin" where
  "win_clear_mark addr len s =
    update_states clean_state (\<lambda>_ n. n) (page_base (pb_page_size s) addr) (range_total (pb_page_size s) addr len) s"

definition win_clear_dirty :: "bool \<Rightarrow> nat \<Rightarrow> nat \<Rightarrow> PageFaultBackendWin \<Rightarrow> PageFaultBackendWin" where
  "win_clear_dirty protected addr len s =
    (if \<not> protected then s else win_clear_mark addr len (win_clear_protect addr len s))"

definition win_evict_pages :: "bool \<Rightarrow> nat \<Rightarrow> nat \<Rightarrow> PageFaultBackendWin \<Rightarrow> bool \<times> PageFaultBackendWin" where
  "win_evict_pages decommitted addr len s =
    (let page = page_base (pb_page_size s) addr;
         n = range_total (pb_page_size s) addr len
     in if n = 0 then (True, s)
        else if \<not> decommitted then (False, s)
        else (True, update_states (\<lambda>_. ABSENT) evict_count page n (protect_pages NoAccess page n s)))"

text \<open>The exception handler; \<open>True\<close> continues the program at the faulting instruction.
  \<open>access_violation\<close> is the test of the exception code, \<open>protected\<close> the result of
  \<open>VirtualProtect\<close>, \<open>handler\<close> what the registered callback does to the backend.\<close>

definition VectoredHandler ::
  "bool \<Rightarrow> bool \<Rightarrow> (PageFaultBackendWin \<Rightarrow> PageFaultBackendWin) \<Rightarrow> bool \<Rightarrow> nat \<Rightarrow> PageFaultBackendWin \<Rightarrow>
   bool \<times> PageFaultBackendWin" where
  "VectoredHandler access_violation protected handler is_write fault_addr s =
    (if \<not> access_violation \<or> \<not> pw_veh s then (False, s)
     else case region_for (pb_page_size s) (pb_regions s) fault_addr of
       None \<Rightarrow> (False, s)
     | Some (base, r, i) \<Rightarrow>
         if rg_states r ! i \<noteq> ABSENT then
           if \<not> is_write \<or> \<not> protected then (False, s)
           else
             let page = page_base (pb_page_size s) fault_addr in
             (True, set_states page (pb_page_size s) DIRTY (protect_pages ReadWrite page (pb_page_size s) s))
         else if \<not> pb_fault_handler s then (False, s)
         else
           let s1 = handler (s \<lparr> pb_in_write_fault := is_write, pb_resolved := False \<rparr>) in
           (pb_resolved s1, s1 \<lparr> pb_in_write_fault := pb_in_write_fault s, pb_resolved := pb_resolved s \<rparr>))"

section \<open>Steps\<close>

text \<open>The operations as atomic steps, with what is relied on from the system: a reservation is
  apart from the others, and \<open>VirtualProtect\<close> fails where a page of the range is not committed.\<close>

definition win_committed :: "nat \<Rightarrow> nat \<Rightarrow> PageFaultBackendWin \<Rightarrow> bool" where
  "win_committed page len s \<longleftrightarrow> (\<forall>x \<in> set (pb_range s page len). pb_prot s x \<noteq> NoAccess)"

inductive win_step :: "PageFaultBackendWin \<Rightarrow> PageFaultBackendWin \<Rightarrow> bool" where
  reserve: "(\<And>a. reserved = Some a \<Longrightarrow> maps_apart (pb_page_size s) a (round_up bytes (pb_page_size s)) (pb_regions s)) \<Longrightarrow>
    win_step s (snd (win_reserve_region reserved bytes s))"
| release: "win_step s (win_release_region addr s)"
| on_fault: "win_step s (win_on_fault cb s)"
| resolve: "addr < W64 \<Longrightarrow> win_step s (win_resolve_fault committed protected addr len s)"
| clear: "addr < W64 \<Longrightarrow>
    (protected \<Longrightarrow> win_committed (page_base (pb_page_size s) addr) (range_total (pb_page_size s) addr len) s) \<Longrightarrow>
    win_step s (win_clear_dirty protected addr len s)"
| evict: "addr < W64 \<Longrightarrow> win_step s (snd (win_evict_pages decommitted addr len s))"
| exception: "fault_addr < W64 \<Longrightarrow>
    win_step\<^sup>*\<^sup>* (s \<lparr> pb_in_write_fault := is_write, pb_resolved := False \<rparr>)
      (handler (s \<lparr> pb_in_write_fault := is_write, pb_resolved := False \<rparr>)) \<Longrightarrow>
    win_step s (snd (VectoredHandler access_violation protected handler is_write fault_addr s))"

section \<open>The invariant is kept\<close>

lemma win_resolve_inv:
  assumes "prot_inv s" "addr < W64"
  shows "prot_inv (win_resolve_fault committed protected addr len s)"
proof -
  note al = prot_page_base [OF assms]
  have "prot_inv (t \<lparr> pb_resolved := v \<rparr>)" if "prot_inv t" for t :: PageFaultBackendWin and v
    using that by (rule prot_inv_cong) simp_all
  then show ?thesis using assms(1) fill_inv [OF assms(1) al]
    by (simp add: win_resolve_fault_def Let_def protect_twice)
qed

lemma win_clear_inv:
  assumes "prot_inv s" "addr < W64"
    and "protected \<Longrightarrow> win_committed (page_base (pb_page_size s) addr) (range_total (pb_page_size s) addr len) s"
  shows "prot_inv (win_clear_dirty protected addr len s)"
proof (cases protected)
  case True
  let ?page = "page_base (pb_page_size s) addr" and ?n = "range_total (pb_page_size s) addr len"
  note al = prot_page_base [OF assms(1,2)]
  obtain k where k: "k < 64" "pb_page_size s = 2 ^ k" using assms(1) by (auto simp: prot_inv_def)
  have "pb_page s x \<noteq> Some ABSENT" if "x \<in> set (pb_range s ?page ?n)" for x
  proof -
    have "pb_page_size s dvd x" using page_range_dvd [OF k(1)] al that k(2) by metis
    then show ?thesis using assms(3) [OF True] that prot_inv_page [OF assms(1), of x] by (auto simp: win_committed_def)
  qed
  then show ?thesis using clean_inv [OF assms(1) al, of ?n] True
    by (simp add: win_clear_dirty_def win_clear_mark_def win_clear_protect_def)
qed (simp add: win_clear_dirty_def assms(1))

lemma win_evict_inv: "prot_inv s \<Longrightarrow> addr < W64 \<Longrightarrow> prot_inv (snd (win_evict_pages decommitted addr len s))"
  by (simp add: win_evict_pages_def Let_def drop_inv prot_page_base)

lemma win_reserve_inv:
  assumes "prot_inv s"
    and "\<And>a. reserved = Some a \<Longrightarrow> maps_apart (pb_page_size s) a (round_up bytes (pb_page_size s)) (pb_regions s)"
  shows "prot_inv (snd (win_reserve_region reserved bytes s))"
proof (cases "bytes = 0 \<or> reserved = None")
  case True
  then show ?thesis using assms(1) by (auto simp: win_reserve_region_def Let_def)
next
  case False
  then obtain a where a: "reserved = Some a" by blast
  show ?thesis using assms(1) assms(2) [OF a]
    by (rule prot_reserve_inv) (use False a in \<open>simp_all add: win_reserve_region_def Let_def\<close>)
qed

lemma win_release_inv: "prot_inv s \<Longrightarrow> prot_inv (win_release_region addr s)"
  by (cases "map_of (pb_regions s) addr") (auto simp: win_release_region_def intro: prot_release_inv)

lemma win_handler_inv:
  assumes "prot_inv s" "fault_addr < W64"
    and "prot_inv (handler (s \<lparr> pb_in_write_fault := is_write, pb_resolved := False \<rparr>))"
  shows "prot_inv (snd (VectoredHandler access_violation protected handler is_write fault_addr s))"
proof -
  note fill = fill_inv [OF assms(1) prot_page_base [OF assms(1,2)], of DIRTY ReadWrite "pb_page_size s"]
  have "prot_inv (t \<lparr> pb_in_write_fault := v, pb_resolved := w \<rparr>)" if "prot_inv t" for t :: PageFaultBackendWin and v w
    using that by (rule prot_inv_cong) simp_all
  from this [OF assms(3)] show ?thesis using assms(1) fill
    by (auto simp: VectoredHandler_def Let_def split: option.split)
qed

lemma win_step_inv: "win_step s s' \<Longrightarrow> prot_inv s \<longrightarrow> prot_inv s'"
proof (induction rule: win_step.induct)
  case (exception fault_addr is_write s handler access_violation protected)
  let ?s = "s \<lparr> pb_in_write_fault := is_write, pb_resolved := False \<rparr>"
  have run: "prot_inv t \<longrightarrow> prot_inv t'" if "(\<lambda>a b. win_step a b \<and> (prot_inv a \<longrightarrow> prot_inv b))\<^sup>*\<^sup>* t t'" for t t'
    using that by (induction rule: rtranclp_induct) auto
  have "prot_inv s \<Longrightarrow> prot_inv ?s" by (erule prot_inv_cong) simp_all
  then show ?case using run [OF exception(2)] exception(1) by (blast intro: win_handler_inv)
qed (auto simp: win_reserve_inv win_release_inv win_resolve_inv win_clear_inv win_evict_inv win_on_fault_def
    elim: prot_inv_cong)

interpretation win_backend: fault_backend win_step prot_inv pb_page_size writable_pages win_is_dirty
  by unfold_locales (use win_step_inv in \<open>auto simp: win_is_dirty_def intro: writable_dirty_pages\<close>)

lemma win_new_inv: "k < 64 \<Longrightarrow> prot_inv (PageFaultBackendWin_new (2 ^ k) registered)"
  by (auto simp: prot_inv_def PageFaultBackendWin_new_def books_ok_def regions_ok_def page_count_def page_at_def region_for_def
      om_before_def)


text \<open>Pages of four bytes: a region of two pages, the second one filled by a load and then stored
  to.\<close>

definition demo_win_reserved :: PageFaultBackendWin where
  "demo_win_reserved = snd (win_reserve_region (Some 64) 7 (PageFaultBackendWin_new (2 ^ 2) True))"

definition demo_win_loaded :: PageFaultBackendWin where
  "demo_win_loaded = win_resolve_fault True True 69 1 demo_win_reserved"

definition demo_win_stored :: PageFaultBackendWin where
  "demo_win_stored = snd (VectoredHandler True True (\<lambda>s. s) True 70 demo_win_loaded)"

lemma demo_win_run: "win_step\<^sup>*\<^sup>* (PageFaultBackendWin_new (2 ^ 2) True) demo_win_stored"
proof -
  let ?s0 = "PageFaultBackendWin_new (2 ^ 2) True"
  have "maps_apart (pb_page_size ?s0) 64 (round_up 7 (pb_page_size ?s0)) (pb_regions ?s0)" by code_simp
  then have "win_step ?s0 demo_win_reserved" unfolding demo_win_reserved_def by (intro win_step.reserve) simp
  moreover have "win_step demo_win_reserved demo_win_loaded"
    unfolding demo_win_loaded_def by (rule win_step.resolve) (simp add: W64_def)
  moreover have "win_step demo_win_loaded demo_win_stored"
    unfolding demo_win_stored_def by (rule win_step.exception) (simp_all add: W64_def)
  ultimately show ?thesis by (meson converse_rtranclp_into_rtranclp r_into_rtranclp)
qed


text \<open>The two halves of \<open>clear_dirty\<close> are not one step. A store between them is recorded as dirty
  by the exception handler, and the record is then erased: the page stays writable and answers
  clean.\<close>

lemma clear_dirty_race:
  "let s1 = win_clear_protect 68 4 demo_win_stored;
       s2 = snd (VectoredHandler True True (\<lambda>s. s) True 70 s1);
       s3 = win_clear_mark 68 4 s2
   in win_is_dirty 68 4 s2 \<and> pb_prot s3 68 = ReadWrite \<and> \<not> win_is_dirty 68 4 s3"
  by code_simp

end
