(* ===== verification/PageFaultMac.thy ===== *)
theory PageFaultMac
  imports PageProtection
begin

text \<open>
  The macOS page-fault backend (\<open>platform/src/macos/page_fault_mac.cpp\<close>), built on a signal
  handler and \<open>mprotect\<close>. It differs from the Windows one in what the system tells it: the signal
  does not say whether the access was a store, so that a fault on a filled page counts as one, and
  \<open>mprotect\<close> succeeds on pages that have no contents. The results of the system calls are
  arguments; the bytes of the pages are not part of the model.
\<close>

section \<open>State and operations\<close>

text \<open>\<open>pm_installed\<close>: the signal handlers are installed and the instance published.\<close>

record PageFaultBackendMac = prot_pages +
  pm_installed :: bool

definition PageFaultBackendMac_new :: "int \<Rightarrow> PageFaultBackendMac" where
  "PageFaultBackendMac_new ps = \<lparr> pb_page_size = (if 0 < ps then nat ps else 4096), pb_regions = [],
     pb_resident_pages = 0, pb_fault_handler = False, pb_in_write_fault = False, pb_resolved = False,
     pb_prot = (\<lambda>_. NoAccess), pm_installed = True \<rparr>"

definition mac_is_supported :: "PageFaultBackendMac \<Rightarrow> bool" where
  "mac_is_supported s = pm_installed s"

definition mac_reserve_region :: "nat option \<Rightarrow> nat \<Rightarrow> PageFaultBackendMac \<Rightarrow> PageRegion \<times> PageFaultBackendMac" where
  "mac_reserve_region mapped bytes s =
    (if bytes = 0 then (\<lparr> pr_addr = None, pr_size = 0 \<rparr>, s)
     else
       let rounded = round_up bytes (pb_page_size s) in
       case mapped of
         None \<Rightarrow> (\<lparr> pr_addr = None, pr_size = 0 \<rparr>, s)
       | Some addr \<Rightarrow> (\<lparr> pr_addr = Some addr, pr_size = rounded \<rparr>,
           s \<lparr> pb_regions := om_emplace addr (new_region (pb_page_size s) rounded ABSENT) (pb_regions s),
               pb_prot := (\<lambda>x. if addr \<le> x \<and> x < addr + rounded then NoAccess else pb_prot s x) \<rparr>))"

definition mac_release_region :: "nat \<Rightarrow> PageFaultBackendMac \<Rightarrow> PageFaultBackendMac" where
  "mac_release_region addr s =
    (case map_of (pb_regions s) addr of
       None \<Rightarrow> s
     | Some r \<Rightarrow> s \<lparr> pb_resident_pages := u64_sub (pb_resident_pages s) (count_states (\<lambda>st. st \<noteq> ABSENT) r),
                     pb_regions := om_erase addr (pb_regions s) \<rparr>)"

definition PageFaultBackendMac_destroy :: "PageFaultBackendMac \<Rightarrow> PageFaultBackendMac" where
  "PageFaultBackendMac_destroy s = fold mac_release_region (map fst (pb_regions s)) s \<lparr> pm_installed := False \<rparr>"

definition mac_on_fault :: "bool \<Rightarrow> PageFaultBackendMac \<Rightarrow> PageFaultBackendMac" where
  "mac_on_fault cb s = s \<lparr> pb_fault_handler := cb \<rparr>"

definition mac_resolve_fault :: "bool \<Rightarrow> bool \<Rightarrow> nat \<Rightarrow> nat \<Rightarrow> PageFaultBackendMac \<Rightarrow> PageFaultBackendMac" where
  "mac_resolve_fault opened protected addr len s =
    (if addr = 0 then s
     else
       let page = page_base (pb_page_size s) addr;
           n = fill_total (pb_page_size s) addr len
       in if \<not> opened then s
          else
            let s1 = protect_pages ReadWrite page n s;
                write_fault = pb_in_write_fault s1
            in if \<not> write_fault \<and> \<not> protected then set_states page n DIRTY s1 \<lparr> pb_resolved := True \<rparr>
               else set_states page n (if write_fault then DIRTY else RESIDENT)
                 (if write_fault then s1 else protect_pages ReadOnly page n s1) \<lparr> pb_resolved := True \<rparr>)"

definition mac_is_dirty :: "nat \<Rightarrow> nat \<Rightarrow> PageFaultBackendMac \<Rightarrow> bool" where
  "mac_is_dirty addr len s = dirty_pages addr len s"

definition mac_clear_dirty :: "bool \<Rightarrow> nat \<Rightarrow> nat \<Rightarrow> PageFaultBackendMac \<Rightarrow> PageFaultBackendMac" where
  "mac_clear_dirty protected addr len s =
    (let page = page_base (pb_page_size s) addr;
         n = range_total (pb_page_size s) addr len
     in if \<not> protected then s
        else update_states clean_state (\<lambda>_ n. n) page n (protect_pages ReadOnly page n s))"

definition mac_evict_pages :: "bool \<Rightarrow> nat \<Rightarrow> nat \<Rightarrow> PageFaultBackendMac \<Rightarrow> bool \<times> PageFaultBackendMac" where
  "mac_evict_pages closed addr len s =
    (let page = page_base (pb_page_size s) addr;
         n = range_total (pb_page_size s) addr len
     in if n = 0 then (True, s)
        else if \<not> closed then (False, s)
        else (True, update_states (\<lambda>_. ABSENT) evict_count page n (protect_pages NoAccess page n s)))"

text \<open>The signal handler; \<open>False\<close> restores the default action and raises the signal again.\<close>

definition segv_handler ::
  "bool \<Rightarrow> (PageFaultBackendMac \<Rightarrow> PageFaultBackendMac) \<Rightarrow> nat \<Rightarrow> PageFaultBackendMac \<Rightarrow> bool \<times> PageFaultBackendMac" where
  "segv_handler opened handler fault_addr s =
    (if \<not> pm_installed s then (False, s)
     else case region_for (pb_page_size s) (pb_regions s) fault_addr of
       None \<Rightarrow> (False, s)
     | Some (base, r, i) \<Rightarrow>
         if rg_states r ! i \<noteq> ABSENT then
           if \<not> opened then (False, s)
           else
             let page = page_base (pb_page_size s) fault_addr in
             (True, set_states page (pb_page_size s) DIRTY (protect_pages ReadWrite page (pb_page_size s) s))
         else if \<not> pb_fault_handler s then (False, s)
         else
           let s1 = handler (s \<lparr> pb_in_write_fault := False, pb_resolved := False \<rparr>) in
           (pb_resolved s1, s1 \<lparr> pb_in_write_fault := pb_in_write_fault s, pb_resolved := pb_resolved s \<rparr>))"

section \<open>Steps\<close>

text \<open>The operations as atomic steps. A mapping is apart from the others; dirty flags are cleared
  only on pages that have contents, as the remote heap does after writing a page back.\<close>

inductive mac_step :: "PageFaultBackendMac \<Rightarrow> PageFaultBackendMac \<Rightarrow> bool" where
  reserve: "(\<And>a. mapped = Some a \<Longrightarrow> maps_apart (pb_page_size s) a (round_up bytes (pb_page_size s)) (pb_regions s)) \<Longrightarrow>
    mac_step s (snd (mac_reserve_region mapped bytes s))"
| release: "mac_step s (mac_release_region addr s)"
| on_fault: "mac_step s (mac_on_fault cb s)"
| resolve: "addr < W64 \<Longrightarrow> mac_step s (mac_resolve_fault opened protected addr len s)"
| clear: "addr < W64 \<Longrightarrow>
    (\<forall>x \<in> set (pb_range s (page_base (pb_page_size s) addr) (range_total (pb_page_size s) addr len)). pb_page s x \<noteq> Some ABSENT) \<Longrightarrow>
    mac_step s (mac_clear_dirty protected addr len s)"
| evict: "addr < W64 \<Longrightarrow> mac_step s (snd (mac_evict_pages closed addr len s))"
| signal: "fault_addr < W64 \<Longrightarrow>
    mac_step\<^sup>*\<^sup>* (s \<lparr> pb_in_write_fault := False, pb_resolved := False \<rparr>)
      (handler (s \<lparr> pb_in_write_fault := False, pb_resolved := False \<rparr>)) \<Longrightarrow>
    mac_step s (snd (segv_handler opened handler fault_addr s))"

section \<open>The invariant is kept\<close>

lemma mac_resolve_inv:
  assumes "prot_inv s" "addr < W64"
  shows "prot_inv (mac_resolve_fault opened protected addr len s)"
proof -
  note al = prot_page_base [OF assms]
  have "prot_inv (t \<lparr> pb_resolved := v \<rparr>)" if "prot_inv t" for t :: PageFaultBackendMac and v
    using that by (rule prot_inv_cong) simp_all
  then show ?thesis using assms(1) fill_inv [OF assms(1) al]
    by (simp add: mac_resolve_fault_def Let_def protect_twice)
qed

lemma mac_reserve_inv:
  assumes "prot_inv s"
    and "\<And>a. mapped = Some a \<Longrightarrow> maps_apart (pb_page_size s) a (round_up bytes (pb_page_size s)) (pb_regions s)"
  shows "prot_inv (snd (mac_reserve_region mapped bytes s))"
proof (cases "bytes = 0 \<or> mapped = None")
  case True
  then show ?thesis using assms(1) by (auto simp: mac_reserve_region_def Let_def)
next
  case False
  then obtain a where a: "mapped = Some a" by blast
  show ?thesis using assms(1) assms(2) [OF a]
    by (rule prot_reserve_inv) (use False a in \<open>simp_all add: mac_reserve_region_def Let_def\<close>)
qed

lemma mac_release_inv: "prot_inv s \<Longrightarrow> prot_inv (mac_release_region addr s)"
  by (cases "map_of (pb_regions s) addr") (auto simp: mac_release_region_def intro: prot_release_inv)

lemma mac_handler_inv:
  assumes "prot_inv s" "fault_addr < W64"
    and "prot_inv (handler (s \<lparr> pb_in_write_fault := False, pb_resolved := False \<rparr>))"
  shows "prot_inv (snd (segv_handler opened handler fault_addr s))"
proof -
  note fill = fill_inv [OF assms(1) prot_page_base [OF assms(1,2)], of DIRTY ReadWrite "pb_page_size s"]
  have "prot_inv (t \<lparr> pb_in_write_fault := v, pb_resolved := w \<rparr>)" if "prot_inv t" for t :: PageFaultBackendMac and v w
    using that by (rule prot_inv_cong) simp_all
  from this [OF assms(3)] show ?thesis using assms(1) fill
    by (auto simp: segv_handler_def Let_def split: option.split)
qed

lemma mac_step_inv: "mac_step s s' \<Longrightarrow> prot_inv s \<longrightarrow> prot_inv s'"
proof (induction rule: mac_step.induct)
  case (signal fault_addr s handler opened)
  let ?s = "s \<lparr> pb_in_write_fault := False, pb_resolved := False \<rparr>"
  have run: "prot_inv t \<longrightarrow> prot_inv t'" if "(\<lambda>a b. mac_step a b \<and> (prot_inv a \<longrightarrow> prot_inv b))\<^sup>*\<^sup>* t t'" for t t'
    using that by (induction rule: rtranclp_induct) auto
  have "prot_inv s \<Longrightarrow> prot_inv ?s" by (erule prot_inv_cong) simp_all
  then show ?case using run [OF signal(2)] signal(1) by (blast intro: mac_handler_inv)
qed (auto simp: mac_reserve_inv mac_release_inv mac_resolve_inv mac_clear_dirty_def mac_evict_pages_def mac_on_fault_def
    Let_def clean_inv drop_inv prot_page_base elim: prot_inv_cong)

interpretation mac_backend: fault_backend mac_step prot_inv pb_page_size writable_pages mac_is_dirty
  by unfold_locales (use mac_step_inv in \<open>auto simp: mac_is_dirty_def intro: writable_dirty_pages\<close>)

lemma mac_new_inv: "k < 64 \<Longrightarrow> prot_inv (PageFaultBackendMac_new (2 ^ k))"
  by (auto simp: prot_inv_def PageFaultBackendMac_new_def books_ok_def regions_ok_def page_count_def page_at_def region_for_def
      om_before_def nat_power_eq)


text \<open>Pages of four bytes: a region of two pages, the second one filled and then trapped on.\<close>

definition demo_mac_reserved :: PageFaultBackendMac where
  "demo_mac_reserved = snd (mac_reserve_region (Some 64) 7 (PageFaultBackendMac_new (2 ^ 2)))"

definition demo_mac_stored :: PageFaultBackendMac where
  "demo_mac_stored = snd (segv_handler True (\<lambda>s. s) 70 (mac_resolve_fault True True 69 1 demo_mac_reserved))"

lemma demo_mac_run: "mac_step\<^sup>*\<^sup>* (PageFaultBackendMac_new (2 ^ 2)) demo_mac_stored"
proof -
  let ?s0 = "PageFaultBackendMac_new (2 ^ 2)"
  have "maps_apart (pb_page_size ?s0) 64 (round_up 7 (pb_page_size ?s0)) (pb_regions ?s0)" by code_simp
  then have "mac_step ?s0 demo_mac_reserved" unfolding demo_mac_reserved_def by (intro mac_step.reserve) simp
  moreover have "mac_step demo_mac_reserved (mac_resolve_fault True True 69 1 demo_mac_reserved)"
    by (rule mac_step.resolve) (simp add: W64_def)
  moreover have "mac_step (mac_resolve_fault True True 69 1 demo_mac_reserved) demo_mac_stored"
    unfolding demo_mac_stored_def by (rule mac_step.signal) (simp_all add: W64_def)
  ultimately show ?thesis by (meson converse_rtranclp_into_rtranclp r_into_rtranclp)
qed


text \<open>Without that restriction \<open>clear_dirty\<close> opens an absent page for reading: the next load sees
  zeros and no fault fetches the contents.\<close>

lemma clear_dirty_exposes_absent:
  "pb_page (mac_clear_dirty True 64 4 demo_mac_stored) 64 = Some ABSENT \<and>
   pb_prot (mac_clear_dirty True 64 4 demo_mac_stored) 64 = ReadOnly"
  by code_simp

end
