(* ===== verification/Discovery.thy ===== *)
theory Discovery
  imports Control
begin

text \<open>
  The discovery daemon (\<open>discoveryd/src\<close>): the peer table with its ageing, the announcer and
  the listener of the multicast protocol, the probe that asks memoryd for its pool, the
  control socket, and the daemon that ties them together. Each libuv callback and each control
  request is one function on the daemon's state. Times are milliseconds. The table is an
  association list whose order stands for the hash map's iteration order.
\<close>

section \<open>Peer table\<close>

datatype EntryState = EActive | EStale | EEvicted

record PeerEntry =
  pe_id :: node_id_t
  pe_hostname :: string
  pe_address :: string
  pe_free_ram_bytes :: nat
  pe_free_vram_bytes :: nat
  pe_memory_port :: nat
  pe_gpu_port :: nat
  pe_last_seen :: nat
  pe_state :: EntryState

record PeerTable =
  pt_peers :: "(node_id_t \<times> PeerEntry) list"
  pt_ttl_seconds :: int

definition PeerTable_new :: PeerTable where
  "PeerTable_new = \<lparr> pt_peers = [], pt_ttl_seconds = 10 \<rparr>"

definition set_ttl_seconds :: "int \<Rightarrow> PeerTable \<Rightarrow> PeerTable" where
  "set_ttl_seconds ttl t = t \<lparr> pt_ttl_seconds := ttl \<rparr>"

text \<open>\<open>peers_[id] = info\<close>\<close>

fun put_peer :: "node_id_t \<Rightarrow> PeerEntry \<Rightarrow> (node_id_t \<times> PeerEntry) list \<Rightarrow> (node_id_t \<times> PeerEntry) list" where
  "put_peer i e [] = [(i, e)]"
| "put_peer i e ((j, f) # ps) = (if i = j then (i, e) # ps else (j, f) # put_peer i e ps)"

definition PeerTable_update :: "nat \<Rightarrow> PeerEntry \<Rightarrow> PeerTable \<Rightarrow> PeerTable" where
  "PeerTable_update now info t =
    t \<lparr> pt_peers := put_peer (pe_id info) (info \<lparr> pe_last_seen := now, pe_state := EActive \<rparr>) (pt_peers t) \<rparr>"

definition elapsed_seconds :: "nat \<Rightarrow> PeerEntry \<Rightarrow> int" where
  "elapsed_seconds now e = int ((now - pe_last_seen e) div 1000)"

definition tick_peer :: "nat \<Rightarrow> int \<Rightarrow> PeerEntry \<Rightarrow> PeerEntry option" where
  "tick_peer now ttl e =
    (if ttl * 3 < elapsed_seconds now e then None
     else if ttl < elapsed_seconds now e then Some (e \<lparr> pe_state := EStale \<rparr>)
     else Some (e \<lparr> pe_state := EActive \<rparr>))"

primrec tick_peers :: "nat \<Rightarrow> int \<Rightarrow> (node_id_t \<times> PeerEntry) list \<Rightarrow> (node_id_t \<times> PeerEntry) list" where
  "tick_peers now ttl [] = []"
| "tick_peers now ttl (p # ps) =
    (case tick_peer now ttl (snd p) of
       None \<Rightarrow> tick_peers now ttl ps
     | Some e \<Rightarrow> (fst p, e) # tick_peers now ttl ps)"

definition PeerTable_tick :: "nat \<Rightarrow> PeerTable \<Rightarrow> PeerTable" where
  "PeerTable_tick now t = t \<lparr> pt_peers := tick_peers now (pt_ttl_seconds t) (pt_peers t) \<rparr>"

definition get_peers :: "PeerTable \<Rightarrow> PeerEntry list" where
  "get_peers t = map snd (pt_peers t)"

definition get_peer :: "node_id_t \<Rightarrow> PeerTable \<Rightarrow> cpp_error + PeerEntry" where
  "get_peer i t = (case map_of (pt_peers t) i of None \<Rightarrow> Inl (OutOfRange ''Peer not found'') | Some e \<Rightarrow> Inr e)"

definition remove_peer :: "node_id_t \<Rightarrow> PeerTable \<Rightarrow> PeerTable" where
  "remove_peer i t = t \<lparr> pt_peers := filter (\<lambda>p. fst p \<noteq> i) (pt_peers t) \<rparr>"

definition active_count :: "PeerTable \<Rightarrow> nat" where
  "active_count t = length (filter (\<lambda>p. pe_state (snd p) = EActive) (pt_peers t))"

section \<open>Announcements\<close>

record Announcement =
  an_protocol_version :: uint16
  an_node_id :: "bytes option"
  an_hostname :: "string option"
  an_free_ram_bytes :: nat
  an_free_vram_bytes :: nat
  an_heartbeat_ts :: nat
  an_memory_port :: nat
  an_gpu_port :: nat
  an_listen_address :: "string option"

record discovery_codec =
  verify_announcement :: "bytes \<Rightarrow> bool"
  get_announcement :: "bytes \<Rightarrow> Announcement"
  finish_announcement :: "Announcement \<Rightarrow> bytes"

record Announcer =
  ar_local_id :: node_id_t
  ar_local_hostname :: string
  ar_listen_address :: string
  ar_memory_port :: nat
  ar_gpu_port :: nat
  ar_free_ram :: nat
  ar_free_vram :: nat
  ar_mcast_ip :: string
  ar_mcast_port :: int
  ar_interval_ms :: int
  ar_is_running :: bool
  ar_pool_joined :: bool
  ar_timer :: "(nat \<times> int) option"
  ar_closed :: bool

definition Announcer_new ::
  "node_id_t \<Rightarrow> string \<Rightarrow> string \<Rightarrow> nat \<Rightarrow> nat \<Rightarrow> string \<Rightarrow> int \<Rightarrow> int \<Rightarrow> Announcer" where
  "Announcer_new local_id hostname address memory_port gpu_port mcast_ip mcast_port interval_ms =
    \<lparr> ar_local_id = local_id, ar_local_hostname = hostname, ar_listen_address = address,
      ar_memory_port = memory_port, ar_gpu_port = gpu_port, ar_free_ram = 0, ar_free_vram = 0,
      ar_mcast_ip = mcast_ip, ar_mcast_port = mcast_port, ar_interval_ms = interval_ms, ar_is_running = False,
      ar_pool_joined = True, ar_timer = None, ar_closed = False \<rparr>"

text \<open>The timer fires at once and then at every interval. A failure to set the multicast
  interface is only logged.\<close>

definition Announcer_start :: "int \<Rightarrow> Announcer \<Rightarrow> Announcer" where
  "Announcer_start bind_rc a =
    (if ar_is_running a then a
     else if bind_rc < 0 then a
     else a \<lparr> ar_timer := Some (0, ar_interval_ms a), ar_is_running := True \<rparr>)"

definition Announcer_stop :: "Announcer \<Rightarrow> Announcer" where
  "Announcer_stop a =
    (if \<not> ar_is_running a then a else a \<lparr> ar_timer := None, ar_closed := True, ar_is_running := False \<rparr>)"

definition update_metrics :: "nat \<Rightarrow> nat \<Rightarrow> Announcer \<Rightarrow> Announcer" where
  "update_metrics free_ram free_vram a = a \<lparr> ar_free_ram := free_ram, ar_free_vram := free_vram \<rparr>"

definition set_pool_joined :: "bool \<Rightarrow> Announcer \<Rightarrow> Announcer" where
  "set_pool_joined joined a = a \<lparr> ar_pool_joined := joined \<rparr>"

text \<open>The datagram the timer callback sends.\<close>

definition Announcer_on_timer :: "discovery_codec \<Rightarrow> nat \<Rightarrow> Announcer \<Rightarrow> bytes" where
  "Announcer_on_timer c epoch_ms a =
    finish_announcement c \<lparr> an_protocol_version = MEMINFO_PROTOCOL_VERSION,
      an_node_id = Some (ar_local_id a), an_hostname = Some (ar_local_hostname a),
      an_free_ram_bytes = (if ar_pool_joined a then ar_free_ram a else 0),
      an_free_vram_bytes = (if ar_pool_joined a then ar_free_vram a else 0),
      an_heartbeat_ts = epoch_ms, an_memory_port = ar_memory_port a, an_gpu_port = ar_gpu_port a,
      an_listen_address = Some (ar_listen_address a) \<rparr>"

record Listener =
  li_mcast_ip :: string
  li_mcast_port :: int
  li_bind_iface :: string
  li_is_running :: bool
  li_closed :: bool

definition Listener_new :: "string \<Rightarrow> int \<Rightarrow> string \<Rightarrow> Listener" where
  "Listener_new mcast_ip mcast_port bind_iface = \<lparr> li_mcast_ip = mcast_ip, li_mcast_port = mcast_port,
     li_bind_iface = bind_iface, li_is_running = False, li_closed = False \<rparr>"

definition Listener_start :: "(int \<Rightarrow> string) \<Rightarrow> int \<Rightarrow> int \<Rightarrow> int \<Rightarrow> Listener \<Rightarrow> cpp_error + Listener" where
  "Listener_start uv_strerror bind_rc join_rc recv_rc l =
    (if li_is_running l then Inr l
     else if bind_rc < 0 then Inl (RuntimeError (''UDP bind error: '' @ uv_strerror bind_rc))
     else if join_rc < 0 then Inl (RuntimeError (''Multicast join error: '' @ uv_strerror join_rc))
     else if recv_rc < 0 then Inl (RuntimeError (''UDP recv start error: '' @ uv_strerror recv_rc))
     else Inr (l \<lparr> li_is_running := True \<rparr>))"

definition Listener_stop :: "Listener \<Rightarrow> Listener" where
  "Listener_stop l = (if \<not> li_is_running l then l else l \<lparr> li_closed := True, li_is_running := False \<rparr>)"

definition entry_of :: "node_id_t \<Rightarrow> Announcement \<Rightarrow> PeerEntry" where
  "entry_of i ann = \<lparr> pe_id = i, pe_hostname = (case an_hostname ann of None \<Rightarrow> [] | Some h \<Rightarrow> h),
     pe_address = (case an_listen_address ann of None \<Rightarrow> [] | Some a \<Rightarrow> a),
     pe_free_ram_bytes = an_free_ram_bytes ann, pe_free_vram_bytes = an_free_vram_bytes ann,
     pe_memory_port = an_memory_port ann, pe_gpu_port = an_gpu_port ann, pe_last_seen = 0, pe_state = EActive \<rparr>"

text \<open>\<open>nread\<close> is the length of the datagram; the sender's address is not looked at.\<close>

definition Listener_on_recv :: "discovery_codec \<Rightarrow> nat \<Rightarrow> bytes \<Rightarrow> PeerTable \<Rightarrow> PeerTable" where
  "Listener_on_recv c now data t =
    (if data = [] \<or> \<not> verify_announcement c data then t
     else
       let ann = get_announcement c data in
       if \<not> check_protocol_version (an_protocol_version ann) then t
       else case an_node_id ann of
         None \<Rightarrow> t
       | Some i \<Rightarrow> if length i \<noteq> 16 then t else PeerTable_update now (entry_of i ann) t)"

section \<open>Pool probe\<close>

record PoolProbe =
  pp_socket_name :: string
  pp_poll_interval_ms :: nat
  pp_running :: bool
  pp_available :: bool
  pp_free_bytes :: nat
  pp_total_bytes :: nat

definition PoolProbe_new :: "string \<Rightarrow> nat \<Rightarrow> PoolProbe" where
  "PoolProbe_new socket_name interval = \<lparr> pp_socket_name = socket_name,
     pp_poll_interval_ms = (if interval = 0 then 1000 else interval), pp_running = False, pp_available = False,
     pp_free_bytes = 0, pp_total_bytes = 0 \<rparr>"

definition PoolProbe_start :: "PoolProbe \<Rightarrow> PoolProbe" where
  "PoolProbe_start p = (if pp_socket_name p = [] \<or> pp_running p then p else p \<lparr> pp_running := True \<rparr>)"

definition PoolProbe_stop :: "PoolProbe \<Rightarrow> PoolProbe" where
  "PoolProbe_stop p = p \<lparr> pp_running := False \<rparr>"

definition poll_once :: "control_codec \<Rightarrow> (bytes \<Rightarrow> cpp_error + bytes) \<Rightarrow> PoolProbe \<Rightarrow> bool \<times> PoolProbe" where
  "poll_once c ipc p =
    (if pp_socket_name p = [] then (False, p)
     else case ipc (finish_control_request c \<lparr> cq_command = ControlCommand_GET_MEMORY_STATS, cq_request_id = 0 \<rparr>) of
       Inl e \<Rightarrow> (False, p \<lparr> pp_available := False \<rparr>)
     | Inr resp_buf \<Rightarrow>
         if length resp_buf < 4 \<or> \<not> verify_control_response c resp_buf then (False, p \<lparr> pp_available := False \<rparr>)
         else
           let resp = get_control_response c resp_buf in
           if \<not> cr_success resp then (False, p \<lparr> pp_available := False \<rparr>)
           else (True, p \<lparr> pp_free_bytes := cr_pool_free_bytes resp, pp_total_bytes := cr_pool_total_bytes resp,
                  pp_available := True \<rparr>))"

text \<open>The polling thread, for as many intervals as it runs.\<close>

primrec PoolProbe_run :: "control_codec \<Rightarrow> (bytes \<Rightarrow> cpp_error + bytes) list \<Rightarrow> PoolProbe \<Rightarrow> PoolProbe" where
  "PoolProbe_run c [] p = p"
| "PoolProbe_run c (ipc # ipcs) p = PoolProbe_run c ipcs (snd (poll_once c ipc p))"

section \<open>The daemon\<close>

record DiscoveryDaemon =
  dd_peer_table :: PeerTable
  dd_announcer :: Announcer
  dd_listener :: Listener
  dd_pool_probe :: PoolProbe
  dd_control_socket :: string
  dd_is_running :: bool
  dd_pool_joined :: bool
  dd_local_id :: node_id_t
  dd_local_hostname :: string
  dd_listen_address :: string
  dd_memory_port :: nat
  dd_gpu_port :: nat
  dd_free_ram :: nat
  dd_free_vram :: nat

definition to_port :: "int \<Rightarrow> nat" where
  "to_port v = (if v < 0 \<or> 65535 < v then 0 else nat v)"

text \<open>\<open>hostname\<close> is what \<open>uv_os_gethostname\<close> gives, if it succeeds.\<close>

definition DiscoveryDaemon_new ::
  "'node toml_table \<Rightarrow> ('node \<Rightarrow> int option) \<Rightarrow> ('node \<Rightarrow> string option) \<Rightarrow> (nat \<Rightarrow> bytes) \<Rightarrow> string option \<Rightarrow> DiscoveryDaemon" where
  "DiscoveryDaemon_new config as_int as_string random_bytes hostname =
    (let local_id = generate_uuid random_bytes;
         local_hostname = (case hostname of None \<Rightarrow> ''localhost'' | Some h \<Rightarrow> h);
         address = Config_get config as_string ''discovery'' ''listen_address'' ''0.0.0.0'';
         memory_port = to_port (Config_get config as_int ''discovery'' ''memory_port'' 9200);
         gpu_port = to_port (Config_get config as_int ''discovery'' ''gpu_port'' 9300);
         mcast_ip = Config_get config as_string ''discovery'' ''multicast_group'' ''239.255.73.77'';
         mcast_port = Config_get config as_int ''discovery'' ''multicast_port'' 9100;
         interval_ms = Config_get config as_int ''discovery'' ''announce_interval_ms'' 1000
     in \<lparr> dd_peer_table = set_ttl_seconds (Config_get config as_int ''discovery'' ''peer_ttl_seconds'' 10) PeerTable_new,
          dd_announcer = Announcer_new local_id local_hostname address memory_port gpu_port mcast_ip mcast_port interval_ms,
          dd_listener = Listener_new mcast_ip mcast_port address,
          dd_pool_probe = PoolProbe_new (Config_get config as_string ''discovery'' ''memory_control_socket'' '''')
            (nat (interval_ms mod 2 ^ 32)),
          dd_control_socket = Config_get config as_string ''discovery'' ''control_socket'' ''/var/run/meminfo_discovery.sock'',
          dd_is_running = False, dd_pool_joined = True, dd_local_id = local_id, dd_local_hostname = local_hostname,
          dd_listen_address = address, dd_memory_port = memory_port, dd_gpu_port = gpu_port,
          dd_free_ram = 0, dd_free_vram = 0 \<rparr>)"

definition update_announcer_state :: "DiscoveryDaemon \<Rightarrow> DiscoveryDaemon" where
  "update_announcer_state d = d \<lparr> dd_announcer := set_pool_joined (dd_pool_joined d) (dd_announcer d) \<rparr>"

text \<open>\<open>run()\<close> up to the event loop; a listener that cannot start throws.\<close>

definition DiscoveryDaemon_run ::
  "control_codec \<Rightarrow> (bytes \<Rightarrow> cpp_error + bytes) \<Rightarrow> (int \<Rightarrow> string) \<Rightarrow> int \<Rightarrow> int \<Rightarrow> int \<Rightarrow> int \<Rightarrow> DiscoveryDaemon \<Rightarrow>
   (cpp_error + unit) \<times> DiscoveryDaemon" where
  "DiscoveryDaemon_run c ipc uv_strerror announce_rc bind_rc join_rc recv_rc d =
    (if dd_is_running d then (Inr (), d)
     else
       let d1 = update_announcer_state (d \<lparr> dd_announcer := Announcer_start announce_rc (dd_announcer d) \<rparr>);
           d2 = d1 \<lparr> dd_pool_probe := PoolProbe_start (snd (poll_once c ipc (dd_pool_probe d1))) \<rparr>
       in case Listener_start uv_strerror bind_rc join_rc recv_rc (dd_listener d2) of
            Inl e \<Rightarrow> (Inl e, d2)
          | Inr l \<Rightarrow> (Inr (), d2 \<lparr> dd_listener := l, dd_is_running := True \<rparr>))"

text \<open>\<open>monitor\<close> is the free memory the operating system reports, when there is a monitor.\<close>

definition current_free_ram :: "nat option \<Rightarrow> DiscoveryDaemon \<Rightarrow> nat" where
  "current_free_ram monitor d =
    (if pp_available (dd_pool_probe d) then pp_free_bytes (dd_pool_probe d)
     else case monitor of Some free \<Rightarrow> free | None \<Rightarrow> 0)"

text \<open>The tick timer.\<close>

definition on_tick :: "nat \<Rightarrow> nat option \<Rightarrow> DiscoveryDaemon \<Rightarrow> DiscoveryDaemon" where
  "on_tick now monitor d =
    (let d1 = d \<lparr> dd_peer_table := PeerTable_tick now (dd_peer_table d) \<rparr>;
         free_ram = current_free_ram monitor d1
     in d1 \<lparr> dd_free_ram := free_ram, dd_free_vram := 0, dd_announcer := update_metrics free_ram 0 (dd_announcer d1) \<rparr>)"

definition DiscoveryDaemon_on_stop :: "DiscoveryDaemon \<Rightarrow> DiscoveryDaemon" where
  "DiscoveryDaemon_on_stop d =
    (if dd_is_running d
     then d \<lparr> dd_announcer := Announcer_stop (dd_announcer d), dd_listener := Listener_stop (dd_listener d),
            dd_is_running := False \<rparr>
     else d)"

definition join_pool :: "DiscoveryDaemon \<Rightarrow> DiscoveryDaemon" where
  "join_pool d = (if \<not> dd_pool_joined d then update_announcer_state (d \<lparr> dd_pool_joined := True \<rparr>) else d)"

definition leave_pool :: "DiscoveryDaemon \<Rightarrow> DiscoveryDaemon" where
  "leave_pool d = (if dd_pool_joined d then update_announcer_state (d \<lparr> dd_pool_joined := False \<rparr>) else d)"

section \<open>Control socket\<close>

definition peer_info_of :: "nat \<Rightarrow> PeerEntry \<Rightarrow> PeerInfo" where
  "peer_info_of now p = \<lparr> pi_node_id = Some (pe_id p), pi_hostname = Some (pe_hostname p), pi_address = Some (pe_address p),
     pi_free_ram_bytes = pe_free_ram_bytes p, pi_free_vram_bytes = pe_free_vram_bytes p,
     pi_memory_port = pe_memory_port p, pi_gpu_port = pe_gpu_port p,
     pi_state = (if pe_state p = EActive then ACTIVE else STALE), pi_last_seen_ms = now - pe_last_seen p \<rparr>"

text \<open>The response to a request; \<open>d\<close> is the daemon behind the socket, if there is one, and \<open>t\<close>
  the peer table.\<close>

definition control_answer ::
  "nat \<Rightarrow> PeerTable \<Rightarrow> DiscoveryDaemon option \<Rightarrow> ControlRequest \<Rightarrow> ControlResponse \<times> DiscoveryDaemon option" where
  "control_answer now t d req =
    (if cq_command req = ControlCommand_LIST_PEERS then
       ((blank_response (cq_request_id req) True ''OK'') \<lparr> cr_peers := Some (map (peer_info_of now) (get_peers t)) \<rparr>, d)
     else if cq_command req = ControlCommand_JOIN_POOL then
       (case d of
          Some dd \<Rightarrow> (blank_response (cq_request_id req) True ''Joined pool'', Some (join_pool dd))
        | None \<Rightarrow> (blank_response (cq_request_id req) False ''Daemon not available'', d))
     else if cq_command req = ControlCommand_LEAVE_POOL then
       (case d of
          Some dd \<Rightarrow> (blank_response (cq_request_id req) True ''Left pool'', Some (leave_pool dd))
        | None \<Rightarrow> (blank_response (cq_request_id req) False ''Daemon not available'', d))
     else if cq_command req = ControlCommand_GET_LOCAL_STATUS then
       (case d of
          Some dd \<Rightarrow> ((blank_response (cq_request_id req) True ''OK'') \<lparr> cr_local_node_id := Some (dd_local_id dd),
              cr_local_hostname := Some (dd_local_hostname dd), cr_local_free_ram := dd_free_ram dd,
              cr_local_free_vram := dd_free_vram dd, cr_pool_joined := dd_pool_joined dd,
              cr_peer_count := active_count (dd_peer_table dd) mod 2 ^ 32 \<rparr>, d)
        | None \<Rightarrow> (blank_response (cq_request_id req) False ''Daemon not available'', d))
     else (blank_response (cq_request_id req) False ''Unsupported command'', d))"

definition ControlSocket_handle_request ::
  "control_codec \<Rightarrow> nat \<Rightarrow> PeerTable \<Rightarrow> DiscoveryDaemon option \<Rightarrow> bytes \<Rightarrow> bytes \<times> DiscoveryDaemon option" where
  "ControlSocket_handle_request c now t d data =
    (if length data < 4 \<or> \<not> verify_control_request c data then ([], d)
     else case control_answer now t d (get_control_request c data) of
       (resp, d') \<Rightarrow> (finish_control_response c resp, d'))"

section \<open>Ageing\<close>

lemma map_of_put_peer: "map_of (put_peer i e ps) = (map_of ps)(i \<mapsto> e)"
  by (induction ps) auto

lemma put_peer_keys: "fst ` set (put_peer i e ps) = insert i (fst ` set ps)"
  by (induction i e ps rule: put_peer.induct) (simp_all add: insert_commute)

lemma put_peer_distinct: "distinct (map fst ps) \<Longrightarrow> distinct (map fst (put_peer i e ps))"
proof (induction ps)
  case (Cons p ps)
  then show ?case using put_peer_keys [of i e ps] by (cases p) auto
qed simp

lemma tick_peers_keys: "fst ` set (tick_peers now ttl ps) \<subseteq> fst ` set ps"
  by (induction ps) (auto split: option.splits)

lemma tick_peers_distinct: "distinct (map fst ps) \<Longrightarrow> distinct (map fst (tick_peers now ttl ps))"
proof (induction ps)
  case (Cons p ps)
  then show ?case using tick_peers_keys [of now ttl ps] by (auto split: option.splits)
qed simp

lemma map_of_tick_peers:
  assumes "distinct (map fst ps)"
  shows "map_of (tick_peers now ttl ps) i = (case map_of ps i of None \<Rightarrow> None | Some e \<Rightarrow> tick_peer now ttl e)"
  using assms
proof (induction ps)
  case (Cons p ps)
  have "map_of (tick_peers now ttl ps) (fst p) = None" if "tick_peer now ttl (snd p) = None"
    using Cons.prems tick_peers_keys [of now ttl ps] by (auto simp: map_of_eq_None_iff)
  then show ?case using Cons by (cases p) (auto split: option.splits)
qed simp

text \<open>What happens to the table: a peer is heard, or a timer tick, each at its time.\<close>

datatype table_event = Heard nat PeerEntry | Tick nat

primrec table_apply :: "table_event \<Rightarrow> PeerTable \<Rightarrow> PeerTable" where
  "table_apply (Heard now info) t = PeerTable_update now info t"
| "table_apply (Tick now) t = PeerTable_tick now t"

primrec event_time :: "table_event \<Rightarrow> nat" where
  "event_time (Heard now info) = now"
| "event_time (Tick now) = now"

primrec event_about :: "node_id_t \<Rightarrow> table_event \<Rightarrow> bool" where
  "event_about i (Heard now info) \<longleftrightarrow> pe_id info = i"
| "event_about i (Tick now) \<longleftrightarrow> False"

definition table_ok :: "PeerTable \<Rightarrow> bool" where
  "table_ok t \<longleftrightarrow> distinct (map fst (pt_peers t)) \<and> (\<forall>(i, e) \<in> set (pt_peers t). pe_id e = i)"

lemma put_peer_set: "x \<in> set (put_peer i e ps) \<Longrightarrow> x = (i, e) \<or> x \<in> set ps"
  by (induction ps) (auto split: if_splits)

lemma tick_peers_set:
  "(i, e) \<in> set (tick_peers now ttl ps) \<Longrightarrow> \<exists>e'. (i, e') \<in> set ps \<and> pe_id e = pe_id e'"
  by (induction ps) (auto simp: tick_peer_def split: option.splits if_splits)

lemma table_apply_ok: "table_ok t \<Longrightarrow> table_ok (table_apply ev t)"
proof (cases ev)
  case (Heard now info)
  assume "table_ok t"
  then show ?thesis
    using Heard by (auto simp: table_ok_def PeerTable_update_def put_peer_distinct dest!: put_peer_set)
next
  case (Tick now)
  assume "table_ok t"
  then show ?thesis
    using Tick by (auto simp: table_ok_def PeerTable_tick_def tick_peers_distinct dest!: tick_peers_set)
qed

lemma table_apply_ttl: "pt_ttl_seconds (table_apply ev t) = pt_ttl_seconds t"
  by (cases ev) (simp_all add: PeerTable_update_def PeerTable_tick_def)

text \<open>The entry as it is known apart from its state.\<close>

definition aged :: "PeerEntry \<Rightarrow> PeerEntry option \<Rightarrow> nat \<Rightarrow> int \<Rightarrow> bool" where
  "aged e found now ttl \<longleftrightarrow> (case found of
     Some f \<Rightarrow> f \<lparr> pe_state := pe_state e \<rparr> = e
   | None \<Rightarrow> ttl * 3 < elapsed_seconds now e)"

lemma aged_step:
  assumes ok: "table_ok t" and a: "aged e (map_of (pt_peers t) (pe_id e)) now (pt_ttl_seconds t)"
    and ev: "event_time ev \<le> now" "\<not> event_about (pe_id e) ev"
  shows "aged e (map_of (pt_peers (table_apply ev t)) (pe_id e)) now (pt_ttl_seconds t)"
proof (cases ev)
  case (Heard s info)
  then show ?thesis using a ev by (auto simp: PeerTable_update_def map_of_put_peer)
next
  case (Tick s)
  have d: "distinct (map fst (pt_peers t))" using ok by (simp add: table_ok_def)
  show ?thesis
  proof (cases "map_of (pt_peers t) (pe_id e)")
    case None
    then show ?thesis using a Tick by (simp add: PeerTable_tick_def map_of_tick_peers [OF d])
  next
    case (Some f)
    then have f: "f \<lparr> pe_state := pe_state e \<rparr> = e" using a by (simp add: aged_def)
    then have "pe_last_seen f = pe_last_seen e" by (cases f; cases e) simp
    then have "elapsed_seconds s f \<le> elapsed_seconds now e"
      using ev(1) Tick by (simp add: elapsed_seconds_def div_le_mono)
    then show ?thesis
      using f Some Tick by (auto simp: PeerTable_tick_def map_of_tick_peers [OF d] tick_peer_def aged_def)
  qed
qed

lemma aged_fold:
  assumes "table_ok t" "aged e (map_of (pt_peers t) (pe_id e)) now (pt_ttl_seconds t)"
    and "\<forall>ev \<in> set evs. event_time ev \<le> now \<and> \<not> event_about (pe_id e) ev"
  shows "table_ok (fold table_apply evs t) \<and> pt_ttl_seconds (fold table_apply evs t) = pt_ttl_seconds t \<and>
    aged e (map_of (pt_peers (fold table_apply evs t)) (pe_id e)) now (pt_ttl_seconds t)"
  using assms
proof (induction evs arbitrary: t)
  case (Cons ev evs)
  let ?t = "table_apply ev t"
  have "aged e (map_of (pt_peers ?t) (pe_id e)) now (pt_ttl_seconds ?t)"
    using Cons.prems by (simp add: table_apply_ttl aged_step)
  from Cons.IH [OF table_apply_ok [OF Cons.prems(1)] this] Cons.prems(3) show ?case
    by (simp add: table_apply_ttl)
qed simp


definition demo_entry :: "byte \<Rightarrow> PeerEntry" where
  "demo_entry b = \<lparr> pe_id = replicate 16 b, pe_hostname = ''a'', pe_address = ''10.0.0.1'', pe_free_ram_bytes = 5,
     pe_free_vram_bytes = 0, pe_memory_port = 9200, pe_gpu_port = 0, pe_last_seen = 0, pe_state = EActive \<rparr>"


text \<open>The first announcement leaves before the first tick and so carries no capacity, although
  the pool was sampled before.\<close>

lemma run_free_ram:
  assumes "DiscoveryDaemon_run c ipc uv_strerror announce_rc bind_rc join_rc recv_rc d0 = (r, d)"
  shows "ar_free_ram (dd_announcer d) = ar_free_ram (dd_announcer d0)"
proof -
  have "ar_free_ram (set_pool_joined j (Announcer_start announce_rc a)) = ar_free_ram a" for j a
    by (simp add: set_pool_joined_def Announcer_start_def)
  then show ?thesis
    using assms by (auto simp: DiscoveryDaemon_run_def Let_def update_announcer_state_def split: sum.splits if_splits)
qed

lemma first_announcement_empty:
  assumes "DiscoveryDaemon_run c ipc uv_strerror announce_rc bind_rc join_rc recv_rc
      (DiscoveryDaemon_new config as_int as_string random_bytes hostname) = (r, d)"
    and "\<And>a. get_announcement dc (finish_announcement dc a) = a"
  shows "an_free_ram_bytes (get_announcement dc (Announcer_on_timer dc now (dd_announcer d))) = 0"
proof -
  have "ar_free_ram (dd_announcer (DiscoveryDaemon_new config as_int as_string random_bytes hostname)) = 0"
    by (simp add: DiscoveryDaemon_new_def Let_def Announcer_new_def)
  then show ?thesis using run_free_ram [OF assms(1)] assms(2) by (simp add: Announcer_on_timer_def)
qed

end
