(* ===== verification/Gpu.thy ===== *)
theory Gpu
  imports Wire
begin

text \<open>
  The GPU daemon and its client (\<open>gpud/src\<close>): the stub executor that keeps device memory in
  host RAM, the request handler, the session framing, the daemon, and the client's CUDA-like
  calls. The executor is an interface with two implementations; the real one forwards to the
  CUDA runtime. FlatBuffers and libuv are the environment. A copy that reads or writes beyond
  its buffers is \<open>UndefinedBehaviour\<close>.
\<close>

section \<open>Messages\<close>

abbreviation (input) CUDA_MALLOC :: byte where "CUDA_MALLOC \<equiv> 0"
abbreviation (input) CUDA_FREE :: byte where "CUDA_FREE \<equiv> 1"
abbreviation (input) CUDA_MEMCPY :: byte where "CUDA_MEMCPY \<equiv> 2"
abbreviation (input) CUDA_GET_DEVICE_PROPERTIES :: byte where "CUDA_GET_DEVICE_PROPERTIES \<equiv> 4"
abbreviation (input) HOST_TO_DEVICE :: byte where "HOST_TO_DEVICE \<equiv> 0"
abbreviation (input) DEVICE_TO_HOST :: byte where "DEVICE_TO_HOST \<equiv> 1"

record GpuRequest =
  gq_protocol_version :: uint16
  gq_request_id :: uint64
  gq_op :: byte
  gq_device_ptr :: uint64
  gq_size :: uint64
  gq_data :: "bytes option"
  gq_memcpy_kind :: byte
  gq_grid_dim :: "uint32 \<times> uint32 \<times> uint32"
  gq_block_dim :: "uint32 \<times> uint32 \<times> uint32"
  gq_shared_mem :: uint64
  gq_kernel_name :: "string option"
  gq_kernel_args :: "bytes option"
  gq_device_id :: int
  gq_dst_ptr :: uint64
  gq_src_ptr :: uint64

record GpuResponse =
  gr_request_id :: uint64
  gr_error_code :: int
  gr_device_ptr :: uint64
  gr_data :: "bytes option"
  gr_message :: "string option"

record gpu_codec =
  verify_gpu_request :: "bytes \<Rightarrow> bool"
  get_gpu_request :: "bytes \<Rightarrow> GpuRequest"
  finish_gpu_request :: "GpuRequest \<Rightarrow> bytes"
  verify_gpu_response :: "bytes \<Rightarrow> bool"
  get_gpu_response :: "bytes \<Rightarrow> GpuResponse"
  finish_gpu_response :: "GpuResponse \<Rightarrow> bytes"

section \<open>Executors\<close>

text \<open>The methods of \<open>ICudaExecutor\<close> over the executor's state. \<open>memcpyHtoD dst src n\<close> gets the
  whole source buffer, \<open>memcpyDtoH dst src n\<close> the destination buffer it fills.\<close>

record 'x cuda_executor =
  cu_allocate :: "nat \<Rightarrow> 'x \<Rightarrow> (int \<times> uint64) \<times> 'x"
  cu_free :: "uint64 \<Rightarrow> 'x \<Rightarrow> int \<times> 'x"
  cu_memcpyHtoD :: "uint64 \<Rightarrow> bytes \<Rightarrow> nat \<Rightarrow> 'x \<Rightarrow> (cpp_error + int) \<times> 'x"
  cu_memcpyDtoH :: "bytes \<Rightarrow> uint64 \<Rightarrow> nat \<Rightarrow> 'x \<Rightarrow> (cpp_error + int \<times> bytes)"
  cu_getDeviceProperties :: "'x \<Rightarrow> int \<times> string \<times> nat"

text \<open>The stub's state: the blocks it got from \<open>malloc\<close>, with their bytes. \<open>malloc\<close> and the
  initial contents of a block are arguments.\<close>

type_synonym CudaExecutorStub = "uint64 \<rightharpoonup> bytes"

definition stub_allocate ::
  "(CudaExecutorStub \<Rightarrow> nat \<Rightarrow> uint64 option) \<Rightarrow> (nat \<Rightarrow> byte) \<Rightarrow> nat \<Rightarrow> CudaExecutorStub \<Rightarrow> (int \<times> uint64) \<times> CudaExecutorStub" where
  "stub_allocate malloc junk n x =
    (case malloc x n of
       None \<Rightarrow> ((2, 0), x)
     | Some p \<Rightarrow> ((0, p), x(p \<mapsto> map junk [0..<n])))"

definition stub_free :: "uint64 \<Rightarrow> CudaExecutorStub \<Rightarrow> int \<times> CudaExecutorStub" where
  "stub_free p x = (if x p = None then (11, x) else (0, x(p := None)))"

definition stub_memcpyHtoD :: "uint64 \<Rightarrow> bytes \<Rightarrow> nat \<Rightarrow> CudaExecutorStub \<Rightarrow> (cpp_error + int) \<times> CudaExecutorStub" where
  "stub_memcpyHtoD dst src n x =
    (case x dst of
       None \<Rightarrow> (Inr 11, x)
     | Some blk \<Rightarrow>
         if length src < n \<or> length blk < n then (Inl UndefinedBehaviour, x)
         else (Inr 0, x(dst \<mapsto> blit 0 (take n src) blk)))"

definition stub_memcpyDtoH :: "bytes \<Rightarrow> uint64 \<Rightarrow> nat \<Rightarrow> CudaExecutorStub \<Rightarrow> cpp_error + int \<times> bytes" where
  "stub_memcpyDtoH dst src n x =
    (case x src of
       None \<Rightarrow> Inr (11, dst)
     | Some blk \<Rightarrow>
         if length dst < n \<or> length blk < n then Inl UndefinedBehaviour
         else Inr (0, blit 0 (take n blk) dst))"

definition stub_getDeviceProperties :: "CudaExecutorStub \<Rightarrow> int \<times> string \<times> nat" where
  "stub_getDeviceProperties x = (0, ''Stubbed GPU (Host RAM)'', 1024 * 1024 * 1024)"

definition stub_executor ::
  "(CudaExecutorStub \<Rightarrow> nat \<Rightarrow> uint64 option) \<Rightarrow> (nat \<Rightarrow> byte) \<Rightarrow> CudaExecutorStub cuda_executor" where
  "stub_executor malloc junk = \<lparr> cu_allocate = stub_allocate malloc junk, cu_free = stub_free,
     cu_memcpyHtoD = stub_memcpyHtoD, cu_memcpyDtoH = stub_memcpyDtoH,
     cu_getDeviceProperties = stub_getDeviceProperties \<rparr>"

section \<open>Request handler\<close>

definition build_gpu_response :: "uint64 \<Rightarrow> int \<Rightarrow> uint64 \<Rightarrow> bytes \<Rightarrow> string \<Rightarrow> GpuResponse" where
  "build_gpu_response request_id err ptr data msg = \<lparr> gr_request_id = request_id, gr_error_code = err,
     gr_device_ptr = ptr, gr_data = (if data = [] then None else Some data), gr_message = Some msg \<rparr>"

text \<open>The \<open>switch\<close>: error code, pointer, data and message. \<open>resize_ok\<close> says whether the result
  vector can be resized; otherwise an exception leaves the handler.\<close>

definition gpu_dispatch ::
  "'x cuda_executor \<Rightarrow> (nat \<Rightarrow> bool) \<Rightarrow> GpuRequest \<Rightarrow> 'x \<Rightarrow> (cpp_error + int \<times> uint64 \<times> bytes \<times> string) \<times> 'x" where
  "gpu_dispatch X resize_ok req x =
    (if gq_op req = CUDA_MALLOC then
       (case cu_allocate X (unat (gq_size req)) x of ((err, p), x') \<Rightarrow> (Inr (err, p, [], []), x'))
     else if gq_op req = CUDA_FREE then
       (case cu_free X (gq_device_ptr req) x of (err, x') \<Rightarrow> (Inr (err, 0, [], []), x'))
     else if gq_op req = CUDA_MEMCPY then
       (if gq_memcpy_kind req = HOST_TO_DEVICE then
          (case gq_data req of
             None \<Rightarrow> (Inr (11, 0, [], []), x)
           | Some src \<Rightarrow>
               (case cu_memcpyHtoD X (gq_dst_ptr req) src (unat (gq_size req)) x of
                  (Inl e, x') \<Rightarrow> (Inl e, x')
                | (Inr err, x') \<Rightarrow> (Inr (err, 0, [], []), x')))
        else if gq_memcpy_kind req = DEVICE_TO_HOST then
          (if \<not> resize_ok (unat (gq_size req)) then (Inl BadAlloc, x)
           else case cu_memcpyDtoH X (replicate (unat (gq_size req)) 0) (gq_src_ptr req) (unat (gq_size req)) x of
             Inl e \<Rightarrow> (Inl e, x)
           | Inr (err, data) \<Rightarrow> (Inr (err, 0, data, []), x))
        else (Inr (11, 0, [], []), x))
     else if gq_op req = CUDA_GET_DEVICE_PROPERTIES then
       (case cu_getDeviceProperties X x of (err, name, total_mem) \<Rightarrow>
          (Inr (if err = 0 then (err, of_nat total_mem, [], name) else (err, 0, [], [])), x))
     else (Inr (1, 0, [], ''Unsupported operation''), x))"

definition gpu_process_request ::
  "gpu_codec \<Rightarrow> 'x cuda_executor \<Rightarrow> (nat \<Rightarrow> bool) \<Rightarrow> bytes \<Rightarrow> 'x \<Rightarrow> (cpp_error + bytes) \<times> 'x" where
  "gpu_process_request c X resize_ok data x =
    (if \<not> verify_gpu_request c data then (Inr [], x)
     else
       let req = get_gpu_request c data in
       if \<not> check_protocol_version (gq_protocol_version req) then
         (Inr (finish_gpu_response c (build_gpu_response (gq_request_id req) (-1) 0 [] ''Protocol version mismatch'')), x)
       else case gpu_dispatch X resize_ok req x of
         (Inl e, x') \<Rightarrow> (Inl e, x')
       | (Inr (err, p, d, msg), x') \<Rightarrow>
           (Inr (finish_gpu_response c (build_gpu_response (gq_request_id req) err p d msg)), x'))"

section \<open>Session and daemon\<close>

record GpuSession =
  gs_session_id :: nat
  gs_read_buffer :: bytes
  gs_closing :: bool
  gs_outbox :: "bytes list"

definition GpuSession_new :: "nat \<Rightarrow> bool \<Rightarrow> GpuSession" where
  "GpuSession_new sid accept_ok = \<lparr> gs_session_id = sid, gs_read_buffer = [], gs_closing = \<not> accept_ok, gs_outbox = [] \<rparr>"

definition GpuSession_handle_request ::
  "gpu_codec \<Rightarrow> 'x cuda_executor \<Rightarrow> (nat \<Rightarrow> bool) \<Rightarrow> GpuSession \<Rightarrow> bytes \<Rightarrow> 'x \<Rightarrow> (cpp_error + GpuSession) \<times> 'x" where
  "GpuSession_handle_request c X resize_ok s data x =
    (case gpu_process_request c X resize_ok data x of
       (Inl e, x') \<Rightarrow> (Inl e, x')
     | (Inr response, x') \<Rightarrow>
         (Inr (if response = [] then s \<lparr> gs_closing := True \<rparr>
               else if gs_closing s then s else s \<lparr> gs_outbox := gs_outbox s @ [response] \<rparr>), x'))"

function GpuSession_process_buffer ::
  "gpu_codec \<Rightarrow> 'x cuda_executor \<Rightarrow> (nat \<Rightarrow> bool) \<Rightarrow> (bytes \<Rightarrow> uint32) \<Rightarrow> GpuSession \<Rightarrow> 'x \<Rightarrow> (cpp_error + GpuSession) \<times> 'x" where
  "GpuSession_process_buffer c X resize_ok prefixed_size s x =
    (if length (gs_read_buffer s) < 4 then (Inr s, x)
     else
       let sz = unat (prefixed_size (take 4 (gs_read_buffer s))) in
       if MAX_MESSAGE_SIZE < sz then (Inr (s \<lparr> gs_closing := True \<rparr>), x)
       else if sz \<le> length (gs_read_buffer s) - 4 then
         (case GpuSession_handle_request c X resize_ok s (take (sz + 4) (gs_read_buffer s)) x of
            (Inl e, x') \<Rightarrow> (Inl e, x')
          | (Inr s', x') \<Rightarrow> GpuSession_process_buffer c X resize_ok prefixed_size
                (s' \<lparr> gs_read_buffer := drop (sz + 4) (gs_read_buffer s) \<rparr>) x')
       else (Inr s, x))"
  by pat_completeness auto
termination
  by (relation "measure (\<lambda>(c, X, r, p, s, x). length (gs_read_buffer s))") auto

declare GpuSession_process_buffer.simps [simp del]

text \<open>The read callback: \<open>None\<close> is end of file or an error.\<close>

definition GpuSession_on_read ::
  "gpu_codec \<Rightarrow> 'x cuda_executor \<Rightarrow> (nat \<Rightarrow> bool) \<Rightarrow> (bytes \<Rightarrow> uint32) \<Rightarrow> GpuSession \<Rightarrow> bytes option \<Rightarrow> 'x \<Rightarrow> (cpp_error + GpuSession) \<times> 'x" where
  "GpuSession_on_read c X resize_ok prefixed_size s ev x =
    (case ev of
       Some bs \<Rightarrow> GpuSession_process_buffer c X resize_ok prefixed_size (s \<lparr> gs_read_buffer := gs_read_buffer s @ bs \<rparr>) x
     | None \<Rightarrow> (Inr (s \<lparr> gs_closing := True \<rparr>), x))"

record 'x GpuDaemon =
  gd_executor :: 'x
  gd_sessions :: "nat \<rightharpoonup> GpuSession"
  gd_server_open :: bool
  gd_is_running :: bool
  gd_next_session_id :: nat

definition GpuDaemon_on_connection :: "int \<Rightarrow> bool \<Rightarrow> 'x GpuDaemon \<Rightarrow> 'x GpuDaemon" where
  "GpuDaemon_on_connection status accept_ok d =
    (if status < 0 then d
     else d \<lparr> gd_sessions := (gd_sessions d)(gd_next_session_id d \<mapsto> GpuSession_new (gd_next_session_id d) accept_ok),
              gd_next_session_id := u64_add (gd_next_session_id d) 1 \<rparr>)"

text \<open>The session's close callback frees the session and nothing else: device memory the
  client did not free stays allocated.\<close>

definition GpuSession_on_close_handle :: "nat \<Rightarrow> 'x GpuDaemon \<Rightarrow> 'x GpuDaemon" where
  "GpuSession_on_close_handle sid d = d \<lparr> gd_sessions := (gd_sessions d)(sid := None) \<rparr>"

definition GpuDaemon_close_sockets :: "'x GpuDaemon \<Rightarrow> 'x GpuDaemon" where
  "GpuDaemon_close_sockets d = d \<lparr> gd_server_open := False,
     gd_sessions := (\<lambda>sid. map_option (\<lambda>s. s \<lparr> gs_closing := True \<rparr>) (gd_sessions d sid)) \<rparr>"

definition GpuDaemon_on_stop :: "'x GpuDaemon \<Rightarrow> 'x GpuDaemon" where
  "GpuDaemon_on_stop d = (GpuDaemon_close_sockets d) \<lparr> gd_is_running := False \<rparr>"

text \<open>Construction: the real executor if there is one, else the stub; a failure to listen is only logged.\<close>

definition GpuDaemon_new :: "'x option \<Rightarrow> 'x \<Rightarrow> int \<Rightarrow> 'x GpuDaemon" where
  "GpuDaemon_new real stub listen_result =
    \<lparr> gd_executor = (case real of Some x \<Rightarrow> x | None \<Rightarrow> stub), gd_sessions = Map.empty,
      gd_server_open = (listen_result = 0), gd_is_running = True, gd_next_session_id = 1 \<rparr>"

text \<open>\<open>stop\<close> only wakes the loop thread, whose callback is \<open>GpuDaemon_on_stop\<close>; the result says whether it does.\<close>

definition GpuDaemon_stop :: "'x GpuDaemon \<Rightarrow> bool" where
  "GpuDaemon_stop d = gd_is_running d"

section \<open>Client\<close>

record 'w GpuClient =
  gc_connected :: bool
  gc_read_buffer :: bytes
  gc_pending :: "uint64 set"
  gc_resolved :: "uint64 \<rightharpoonup> bytes"
  gc_outbound :: "bytes list"
  gc_next_request_id :: uint64
  gc_world :: 'w

definition GpuClient_new :: "'w \<Rightarrow> 'w GpuClient" where
  "GpuClient_new w =
    \<lparr> gc_connected = False, gc_read_buffer = [], gc_pending = {}, gc_resolved = Map.empty, gc_outbound = [],
      gc_next_request_id = 1, gc_world = w \<rparr>"

text \<open>The callback of the one attempt to connect.\<close>

definition GpuClient_on_connect :: "int \<Rightarrow> 'w GpuClient \<Rightarrow> 'w GpuClient" where
  "GpuClient_on_connect status m = (if status = 0 then m \<lparr> gc_connected := True \<rparr> else m)"

text \<open>The framing loop of \<open>on_peer_read\<close>. The sum \<open>msg_size + 4\<close> of the guard is a 32-bit one;
  the later pointer sums are not. The response is read without being verified.\<close>

function gpu_peer_frames ::
  "gpu_codec \<Rightarrow> (bytes \<Rightarrow> uint32) \<Rightarrow> 'w GpuClient \<Rightarrow> cpp_error + 'w GpuClient" where
  "gpu_peer_frames c prefixed_size m =
    (let b = gc_read_buffer m in
     if length b < 4 then Inr m
     else
       let sz = unat (prefixed_size (take 4 b)) in
       if (sz + 4) mod 2 ^ 32 \<le> length b then
         (if length b < sz + 4 \<or> \<not> verify_gpu_response c (take (sz + 4) b) then Inl UndefinedBehaviour
          else
            let frame = take (sz + 4) b;
                r = gr_request_id (get_gpu_response c frame)
            in gpu_peer_frames c prefixed_size
                (m \<lparr> gc_read_buffer := drop (sz + 4) b, gc_pending := gc_pending m - {r},
                     gc_resolved := (if r \<in> gc_pending m then (gc_resolved m)(r \<mapsto> frame) else gc_resolved m) \<rparr>))
       else Inr m)"
  by pat_completeness auto
termination
  by (relation "measure (\<lambda>(c, p, m). length (gc_read_buffer m))") auto

declare gpu_peer_frames.simps [simp del]

definition GpuClient_on_peer_read ::
  "gpu_codec \<Rightarrow> (bytes \<Rightarrow> uint32) \<Rightarrow> bytes option \<Rightarrow> 'w GpuClient \<Rightarrow> cpp_error + 'w GpuClient" where
  "GpuClient_on_peer_read c prefixed_size ev m =
    (case ev of
       Some bs \<Rightarrow> gpu_peer_frames c prefixed_size (m \<lparr> gc_read_buffer := gc_read_buffer m @ bs \<rparr>)
     | None \<Rightarrow> Inr m)"

text \<open>The wakeup callback: what it writes to the socket.\<close>

definition gpu_flush_outbound :: "'w GpuClient \<Rightarrow> bytes list \<times> 'w GpuClient" where
  "gpu_flush_outbound m = (if gc_connected m then gc_outbound m else [], m \<lparr> gc_outbound := [] \<rparr>)"

text \<open>A call seen from the application: \<open>call\<close> is what the network does with the payload. There
  is no timeout, so without a response the call never returns.\<close>

definition gpu_sync_remote_call ::
  "gpu_codec \<Rightarrow> (bytes \<Rightarrow> 'w \<Rightarrow> bytes option \<times> 'w) \<Rightarrow> GpuRequest \<Rightarrow> 'w GpuClient \<Rightarrow> (cpp_error + GpuResponse) \<times> 'w GpuClient" where
  "gpu_sync_remote_call c call q m =
    (case call (finish_gpu_request c q) (gc_world m) of
       (r, w) \<Rightarrow>
         ((case r of
             None \<Rightarrow> Inl Nontermination
           | Some resp \<Rightarrow> if verify_gpu_response c resp then Inr (get_gpu_response c resp) else Inl UndefinedBehaviour),
          m \<lparr> gc_world := w, gc_next_request_id := gc_next_request_id m + 1 \<rparr>))"

definition blank_gpu_request :: "uint64 \<Rightarrow> byte \<Rightarrow> GpuRequest" where
  "blank_gpu_request r op = \<lparr> gq_protocol_version = MEMINFO_PROTOCOL_VERSION, gq_request_id = r, gq_op = op,
     gq_device_ptr = 0, gq_size = 0, gq_data = None, gq_memcpy_kind = 0, gq_grid_dim = (0, 0, 0), gq_block_dim = (0, 0, 0),
     gq_shared_mem = 0, gq_kernel_name = None, gq_kernel_args = None, gq_device_id = 0, gq_dst_ptr = 0, gq_src_ptr = 0 \<rparr>"

text \<open>The calls: the error code and, on success, what is stored through the pointer arguments.\<close>

definition cudaMalloc ::
  "gpu_codec \<Rightarrow> (bytes \<Rightarrow> 'w \<Rightarrow> bytes option \<times> 'w) \<Rightarrow> nat \<Rightarrow> 'w GpuClient \<Rightarrow> (cpp_error + int \<times> uint64 option) \<times> 'w GpuClient" where
  "cudaMalloc c call n m =
    (case gpu_sync_remote_call c call ((blank_gpu_request (gc_next_request_id m) CUDA_MALLOC) \<lparr> gq_size := of_nat n \<rparr>) m of
       (Inl e, m') \<Rightarrow> (Inl e, m')
     | (Inr resp, m') \<Rightarrow> (Inr (gr_error_code resp, if gr_error_code resp = 0 then Some (gr_device_ptr resp) else None), m'))"

definition cudaFree ::
  "gpu_codec \<Rightarrow> (bytes \<Rightarrow> 'w \<Rightarrow> bytes option \<times> 'w) \<Rightarrow> uint64 \<Rightarrow> 'w GpuClient \<Rightarrow> (cpp_error + int) \<times> 'w GpuClient" where
  "cudaFree c call p m =
    (case gpu_sync_remote_call c call ((blank_gpu_request (gc_next_request_id m) CUDA_FREE) \<lparr> gq_device_ptr := p \<rparr>) m of
       (Inl e, m') \<Rightarrow> (Inl e, m') | (Inr resp, m') \<Rightarrow> (Inr (gr_error_code resp), m'))"

definition cudaMemcpyHtoD ::
  "gpu_codec \<Rightarrow> (bytes \<Rightarrow> 'w \<Rightarrow> bytes option \<times> 'w) \<Rightarrow> uint64 \<Rightarrow> bytes \<Rightarrow> 'w GpuClient \<Rightarrow> (cpp_error + int) \<times> 'w GpuClient" where
  "cudaMemcpyHtoD c call dst src m =
    (case gpu_sync_remote_call c call ((blank_gpu_request (gc_next_request_id m) CUDA_MEMCPY) \<lparr> gq_size := of_nat (length src),
         gq_data := Some src, gq_memcpy_kind := HOST_TO_DEVICE, gq_dst_ptr := dst \<rparr>) m of
       (Inl e, m') \<Rightarrow> (Inl e, m') | (Inr resp, m') \<Rightarrow> (Inr (gr_error_code resp), m'))"

text \<open>\<open>dst\<close> is the caller's buffer of \<open>n\<close> bytes; the result holds its new contents.\<close>

definition cudaMemcpyDtoH ::
  "gpu_codec \<Rightarrow> (bytes \<Rightarrow> 'w \<Rightarrow> bytes option \<times> 'w) \<Rightarrow> bytes \<Rightarrow> uint64 \<Rightarrow> nat \<Rightarrow> 'w GpuClient \<Rightarrow> (cpp_error + int \<times> bytes) \<times> 'w GpuClient" where
  "cudaMemcpyDtoH c call dst src n m =
    (case gpu_sync_remote_call c call ((blank_gpu_request (gc_next_request_id m) CUDA_MEMCPY) \<lparr> gq_size := of_nat n,
         gq_memcpy_kind := DEVICE_TO_HOST, gq_src_ptr := src \<rparr>) m of
       (Inl e, m') \<Rightarrow> (Inl e, m')
     | (Inr resp, m') \<Rightarrow>
         (Inr (gr_error_code resp,
            (case gr_data resp of
               Some data \<Rightarrow> if gr_error_code resp = 0 then blit 0 (take n data) dst else dst
             | None \<Rightarrow> dst)), m'))"

definition cudaGetDeviceProperties ::
  "gpu_codec \<Rightarrow> (bytes \<Rightarrow> 'w \<Rightarrow> bytes option \<times> 'w) \<Rightarrow> string \<Rightarrow> nat \<Rightarrow> 'w GpuClient \<Rightarrow> (cpp_error + int \<times> string \<times> nat) \<times> 'w GpuClient" where
  "cudaGetDeviceProperties c call name total_mem m =
    (case gpu_sync_remote_call c call (blank_gpu_request (gc_next_request_id m) CUDA_GET_DEVICE_PROPERTIES) m of
       (Inl e, m') \<Rightarrow> (Inl e, m')
     | (Inr resp, m') \<Rightarrow>
         (Inr (if gr_error_code resp = 0
               then (0, (case gr_message resp of Some s \<Rightarrow> s | None \<Rightarrow> name), unat (gr_device_ptr resp))
               else (gr_error_code resp, name, total_mem)), m'))"

section \<open>A copy there and back\<close>

text \<open>What the handler and the client rely on of the generated code, for messages with at most
  64 MiB of data: a built message verifies and reads back as it was built.\<close>

definition small_data :: "bytes option \<Rightarrow> bool" where
  "small_data d \<longleftrightarrow> (case d of None \<Rightarrow> True | Some b \<Rightarrow> length b \<le> MAX_MESSAGE_SIZE)"

definition gpu_codec_ok :: "gpu_codec \<Rightarrow> bool" where
  "gpu_codec_ok c \<longleftrightarrow>
    (\<forall>q. small_data (gq_data q) \<longrightarrow>
       verify_gpu_request c (finish_gpu_request c q) \<and> get_gpu_request c (finish_gpu_request c q) = q) \<and>
    (\<forall>r. small_data (gr_data r) \<longrightarrow>
       verify_gpu_response c (finish_gpu_response c r) \<and> get_gpu_response c (finish_gpu_response c r) = r)"

text \<open>The client connected to a daemon with the stub executor.\<close>

definition stub_call ::
  "gpu_codec \<Rightarrow> CudaExecutorStub cuda_executor \<Rightarrow> (nat \<Rightarrow> bool) \<Rightarrow> bytes \<Rightarrow> CudaExecutorStub \<Rightarrow> bytes option \<times> CudaExecutorStub" where
  "stub_call c X resize_ok payload x =
    (case gpu_process_request c X resize_ok payload x of
       (Inl e, x') \<Rightarrow> (None, x') | (Inr resp, x') \<Rightarrow> (Some resp, x'))"

lemma stub_remote_call:
  assumes "gpu_codec_ok c" "small_data (gq_data q)" "gq_protocol_version q = MEMINFO_PROTOCOL_VERSION"
    and "gpu_dispatch X resize_ok q (gc_world m) = (Inr (err, p, d, msg), x')" "length d \<le> MAX_MESSAGE_SIZE"
  shows "gpu_sync_remote_call c (stub_call c X resize_ok) q m =
    (Inr (build_gpu_response (gq_request_id q) err p d msg),
     m \<lparr> gc_world := x', gc_next_request_id := gc_next_request_id m + 1 \<rparr>)"
proof -
  have "small_data (gr_data (build_gpu_response (gq_request_id q) err p d msg))"
    using assms(5) by (simp add: small_data_def build_gpu_response_def)
  then show ?thesis
    using assms by (simp add: gpu_codec_ok_def gpu_sync_remote_call_def stub_call_def gpu_process_request_def
        check_protocol_version_def)
qed

lemma blank_gpu_fields [simp]:
  "gq_protocol_version (blank_gpu_request r op) = MEMINFO_PROTOCOL_VERSION" "gq_op (blank_gpu_request r op) = op"
  "gq_request_id (blank_gpu_request r op) = r" "gq_data (blank_gpu_request r op) = None"
  by (simp_all add: blank_gpu_request_def)

lemma unat_size: "n \<le> MAX_MESSAGE_SIZE \<Longrightarrow> unat (of_nat n :: uint64) = n"
  by (simp add: MAX_MESSAGE_SIZE_def unat_of_nat take_bit_eq_mod)

lemma cudaMalloc_block:
  assumes "gpu_codec_ok c"
    and "cudaMalloc c (stub_call c (stub_executor malloc junk) resize_ok) n m = (Inr (0, Some p), m1)"
    and "n \<le> MAX_MESSAGE_SIZE"
  shows "\<exists>blk. gc_world m1 p = Some blk \<and> length blk = n"
proof -
  let ?X = "stub_executor malloc junk"
  let ?q = "(blank_gpu_request (gc_next_request_id m) CUDA_MALLOC) \<lparr> gq_size := of_nat n \<rparr>"
  obtain err p' x' where d: "gpu_dispatch ?X resize_ok ?q (gc_world m) = (Inr (err, p', [], []), x')"
    and a: "stub_allocate malloc junk n (gc_world m) = ((err, p'), x')"
    by (cases "stub_allocate malloc junk n (gc_world m)")
      (auto simp: gpu_dispatch_def stub_executor_def unat_size [OF assms(3)])
  have q: "small_data (gq_data ?q)" "gq_protocol_version ?q = MEMINFO_PROTOCOL_VERSION"
    by (simp_all add: small_data_def)
  have "err = 0 \<and> p' = p \<and> gc_world m1 = x'"
    using assms(2) stub_remote_call [OF assms(1) q d]
    by (auto simp: cudaMalloc_def build_gpu_response_def split: if_splits)
  then have "gc_world m1 = (gc_world m)(p \<mapsto> map junk [0..<n])"
    using a by (auto simp: stub_allocate_def split: option.splits)
  then show ?thesis by simp
qed


text \<open>A codec for the GPU messages.\<close>

definition gpu_request_tuple where
  "gpu_request_tuple q = (gq_protocol_version q, gq_request_id q, gq_op q, gq_device_ptr q, gq_size q, gq_data q,
     gq_memcpy_kind q, gq_grid_dim q, gq_block_dim q, gq_shared_mem q, gq_kernel_name q, gq_kernel_args q, gq_device_id q,
     gq_dst_ptr q, gq_src_ptr q)"

definition gpu_request_of_tuple where
  "gpu_request_of_tuple t = (case t of (a, b, c, d, e, f, g, h, i, j, k, l, m, n, p) \<Rightarrow>
     \<lparr> gq_protocol_version = a, gq_request_id = b, gq_op = c, gq_device_ptr = d, gq_size = e, gq_data = f, gq_memcpy_kind = g,
       gq_grid_dim = h, gq_block_dim = i, gq_shared_mem = j, gq_kernel_name = k, gq_kernel_args = l, gq_device_id = m,
       gq_dst_ptr = n, gq_src_ptr = p \<rparr>)"

definition gpu_response_tuple where
  "gpu_response_tuple r = (gr_request_id r, gr_error_code r, gr_device_ptr r, gr_data r, gr_message r)"

definition gpu_response_of_tuple where
  "gpu_response_of_tuple t = (case t of (a, b, c, d, e) \<Rightarrow>
     \<lparr> gr_request_id = a, gr_error_code = b, gr_device_ptr = c, gr_data = d, gr_message = e \<rparr>)"

definition enc_gpu_request where
  "enc_gpu_request = enc_pair enc_word (enc_pair enc_word (enc_pair enc_word (enc_pair enc_word (enc_pair enc_word
     (enc_pair (enc_option enc_bytes) (enc_pair enc_word (enc_pair (enc_pair enc_word (enc_pair enc_word enc_word))
     (enc_pair (enc_pair enc_word (enc_pair enc_word enc_word)) (enc_pair enc_word (enc_pair (enc_option enc_string)
     (enc_pair (enc_option enc_bytes) (enc_pair enc_int (enc_pair enc_word enc_word)))))))))))))"

definition dec_gpu_request where
  "dec_gpu_request = dec_pair dec_word (dec_pair dec_word (dec_pair dec_word (dec_pair dec_word (dec_pair dec_word
     (dec_pair (dec_option dec_bytes) (dec_pair dec_word (dec_pair (dec_pair dec_word (dec_pair dec_word dec_word))
     (dec_pair (dec_pair dec_word (dec_pair dec_word dec_word)) (dec_pair dec_word (dec_pair (dec_option dec_string)
     (dec_pair (dec_option dec_bytes) (dec_pair dec_int (dec_pair dec_word dec_word)))))))))))))"

definition enc_gpu_response where
  "enc_gpu_response = enc_pair enc_word (enc_pair enc_int (enc_pair enc_word
     (enc_pair (enc_option enc_bytes) (enc_option enc_string))))"

definition dec_gpu_response where
  "dec_gpu_response = dec_pair dec_word (dec_pair dec_int (dec_pair dec_word
     (dec_pair (dec_option dec_bytes) (dec_option dec_string))))"

interpretation gpu_request_codec: codec enc_gpu_request dec_gpu_request
  unfolding enc_gpu_request_def dec_gpu_request_def by (intro codec_intros)

interpretation gpu_response_codec: codec enc_gpu_response dec_gpu_response
  unfolding enc_gpu_response_def dec_gpu_response_def by (intro codec_intros)

definition wire_gpu_codec :: gpu_codec where
  "wire_gpu_codec = \<lparr> verify_gpu_request = (\<lambda>b. b \<noteq> []),
     get_gpu_request = (\<lambda>b. gpu_request_of_tuple (fst (dec_gpu_request (tl b)))),
     finish_gpu_request = (\<lambda>q. 1 # enc_gpu_request (gpu_request_tuple q)),
     verify_gpu_response = (\<lambda>b. b \<noteq> []),
     get_gpu_response = (\<lambda>b. gpu_response_of_tuple (fst (dec_gpu_response (tl b)))),
     finish_gpu_response = (\<lambda>r. 1 # enc_gpu_response (gpu_response_tuple r)) \<rparr>"

lemma wire_gpu_codec_ok: "gpu_codec_ok wire_gpu_codec"
  by (simp add: gpu_codec_ok_def wire_gpu_codec_def gpu_request_codec.dec_enc_Nil gpu_response_codec.dec_enc_Nil
      gpu_request_of_tuple_def gpu_request_tuple_def gpu_response_of_tuple_def gpu_response_tuple_def)

definition demo_malloc :: "CudaExecutorStub \<Rightarrow> nat \<Rightarrow> uint64 option" where
  "demo_malloc x n = (if x 64 = None then Some 64 else None)"

definition demo_gpu_client :: "CudaExecutorStub GpuClient" where
  "demo_gpu_client = \<lparr> gc_connected = True, gc_read_buffer = [], gc_pending = {}, gc_resolved = Map.empty, gc_outbound = [],
     gc_next_request_id = 1, gc_world = Map.empty \<rparr>"


text \<open>The handler copies as many bytes as the request says, not as many as it carries: a request
  whose size exceeds its data reads beyond the message buffer.\<close>

lemma memcpy_trusts_size:
  assumes "gq_op q = CUDA_MEMCPY" "gq_memcpy_kind q = HOST_TO_DEVICE" "gq_data q = Some src"
    and "x (gq_dst_ptr q) \<noteq> None" "length src < unat (gq_size q)"
  shows "fst (gpu_dispatch (stub_executor malloc junk) resize_ok q x) = Inl UndefinedBehaviour"
  using assms by (auto simp: gpu_dispatch_def stub_executor_def stub_memcpyHtoD_def)

text \<open>A length prefix close to 2^32 makes the guard wrap around: four bytes from the daemon
  suffice to make the client read beyond its buffer.\<close>

lemma client_prefix_overflow:
  assumes "gc_read_buffer m = [0xff, 0xff, 0xff, 0xff]" "unat (prefixed_size [0xff, 0xff, 0xff, 0xff]) = 2 ^ 32 - 1"
  shows "gpu_peer_frames c prefixed_size m = Inl UndefinedBehaviour"
  using assms by (subst gpu_peer_frames.simps) (simp add: Let_def)

section \<open>Requests without a connection\<close>

text \<open>A request that is queued while the client is not connected is dropped when the queue is flushed and stays
  pending; there is one attempt to connect and nothing fails the request, so that its caller waits for ever.\<close>

lemma unconnected_request_lost:
  assumes "\<not> gc_connected m" "r \<in> gc_pending m" "status \<noteq> 0"
  shows "gpu_flush_outbound (GpuClient_on_connect status m) = ([], m \<lparr> gc_outbound := [] \<rparr>)"
    "r \<in> gc_pending (snd (gpu_flush_outbound m))" "gc_resolved (snd (gpu_flush_outbound m)) = gc_resolved m"
  using assms by (simp_all add: gpu_flush_outbound_def GpuClient_on_connect_def)

end
