(* ===== verification/LocalIpc.thy ===== *)
theory LocalIpc
  imports Common
begin

text \<open>
  The local control channel (\<open>platform/src/linux/local_ipc_linux.cpp\<close>; the macOS file has the
  same text): one request and one response per connection over a Unix socket, each with a
  four-byte length prefix. The system calls are the environment: what successive calls of
  \<open>read\<close> and \<open>write\<close> do on a descriptor is a script, a list of events that ends when the
  descriptor fails or is closed.
\<close>

section \<open>Reading and writing\<close>

text \<open>What a call of \<open>read\<close> can find: some bytes (of which it takes as many as it asked for), an
  interruption, or end of file or an error.\<close>

datatype read_event = Chunk bytes | ReadInterrupted | ReadFailed

text \<open>What a call of \<open>write\<close> can do: accept up to some number of bytes, be interrupted, or fail.\<close>

datatype write_event = Accept nat | WriteInterrupted | WriteFailed

text \<open>The bytes of the loop so far are in \<open>acc\<close>; the result is the buffer, if it was filled, and
  what is left of the script.\<close>

function read_exact :: "read_event list \<Rightarrow> nat \<Rightarrow> bytes \<Rightarrow> bytes option \<times> read_event list" where
  "read_exact evs len acc =
    (if len \<le> length acc then (Some acc, evs)
     else case evs of
       [] \<Rightarrow> (None, [])
     | Chunk bs # evs' \<Rightarrow>
         if bs = [] then (None, evs')
         else
           let n = min (length bs) (len - length acc)
           in read_exact (if n < length bs then Chunk (drop n bs) # evs' else evs') len (acc @ take n bs)
     | ReadInterrupted # evs' \<Rightarrow> read_exact evs' len acc
     | ReadFailed # evs' \<Rightarrow> (None, evs'))"
  by pat_completeness auto
termination
  by (relation "measures [\<lambda>(evs, len, acc). len - length acc, \<lambda>(evs, len, acc). length evs]")
    (auto simp: min_def)

declare read_exact.simps [simp del]

text \<open>The bytes that reach the other side, whether all were written, and the rest of the script.\<close>

function write_exact :: "write_event list \<Rightarrow> bytes \<Rightarrow> (bytes \<times> bool) \<times> write_event list" where
  "write_exact evs src =
    (if src = [] then (([], True), evs)
     else case evs of
       [] \<Rightarrow> (([], False), [])
     | Accept k # evs' \<Rightarrow>
         if k = 0 then (([], False), evs')
         else (case write_exact evs' (drop k src) of ((sent, ok), rest) \<Rightarrow> ((take k src @ sent, ok), rest))
     | WriteInterrupted # evs' \<Rightarrow> write_exact evs' src
     | WriteFailed # evs' \<Rightarrow> (([], False), evs'))"
  by pat_completeness auto
termination
  by (relation "measure (\<lambda>(evs, src). length evs)") auto

declare write_exact.simps [simp del]

section \<open>Messages\<close>

definition kMaxIpcMessageBytes :: nat where
  "kMaxIpcMessageBytes = 64 * 1024 * 1024"

text \<open>The length prefix is the memory image of a \<open>uint32_t\<close>, low byte first.\<close>

definition u32_image :: "uint32 \<Rightarrow> bytes" where
  "u32_image w = le_image 4 w"

definition u32_of_image :: "bytes \<Rightarrow> uint32" where
  "u32_of_image bs = le_value bs"

definition set_sun_path :: "string \<Rightarrow> bool" where
  "set_sun_path name \<longleftrightarrow> name \<noteq> [] \<and> length name < 108"

text \<open>The client side on a connected descriptor: what it sends, and the response it returns.\<close>

definition send_message :: "write_event list \<Rightarrow> bytes \<Rightarrow> bytes \<times> bool" where
  "send_message ws msg =
    (case write_exact ws (u32_image (of_nat (length msg))) of ((s1, ok1), ws1) \<Rightarrow>
       if \<not> ok1 then (s1, False)
       else case write_exact ws1 msg of ((s2, ok2), ws2) \<Rightarrow> (s1 @ s2, ok2))"

definition receive_response :: "read_event list \<Rightarrow> bytes" where
  "receive_response rs =
    (case read_exact rs 4 [] of
       (None, rs1) \<Rightarrow> []
     | (Some hdr, rs1) \<Rightarrow>
         let resp_len = unat (u32_of_image hdr) in
         if kMaxIpcMessageBytes < resp_len then []
         else if resp_len = 0 then []
         else (case read_exact rs1 resp_len [] of (None, _) \<Rightarrow> [] | (Some resp, _) \<Rightarrow> resp))"

text \<open>\<open>connect_ok\<close> says whether the socket could be made and connected; \<open>reply\<close> is the script of
  the reads, given what reached the server.\<close>

definition send_request :: "string \<Rightarrow> bool \<Rightarrow> write_event list \<Rightarrow> (bytes \<Rightarrow> read_event list) \<Rightarrow> bytes \<Rightarrow> bytes" where
  "send_request name connect_ok ws reply req =
    (if kMaxIpcMessageBytes < length req then []
     else if \<not> set_sun_path name then []
     else if \<not> connect_ok then []
     else case send_message ws req of (sent, ok) \<Rightarrow> if ok then receive_response (reply sent) else [])"

text \<open>The server side on an accepted descriptor: the bytes it sends. \<open>handler\<close> fills the response
  and may change the server's state.\<close>

definition serve_client ::
  "(bytes \<Rightarrow> 's \<Rightarrow> bytes \<times> 's) option \<Rightarrow> read_event list \<Rightarrow> write_event list \<Rightarrow> 's \<Rightarrow> bytes \<times> 's" where
  "serve_client handler rs ws st =
    (case read_exact rs 4 [] of
       (None, rs1) \<Rightarrow> ([], st)
     | (Some hdr, rs1) \<Rightarrow>
         let len = unat (u32_of_image hdr) in
         if kMaxIpcMessageBytes < len then ([], st)
         else case (if 0 < len then fst (read_exact rs1 len []) else Some []) of
           None \<Rightarrow> ([], st)
         | Some req \<Rightarrow>
             (case (case handler of Some h \<Rightarrow> h req st | None \<Rightarrow> ([], st)) of (resp, st') \<Rightarrow>
                (case write_exact ws (u32_image (of_nat (length resp))) of ((s1, ok), ws1) \<Rightarrow>
                   if \<not> ok then (s1, st')
                   else if unat (of_nat (length resp) :: uint32) = 0 then (s1, st')
                   else (s1 @ fst (fst (write_exact ws1 resp)), st'))))"

section \<open>The listener\<close>

record LocalIpc =
  ipc_server_fd :: bool
  ipc_socket_path :: string
  ipc_running :: bool
  ipc_handler :: bool

definition LocalIpc_stop :: "LocalIpc \<Rightarrow> LocalIpc" where
  "LocalIpc_stop l = l \<lparr> ipc_running := False, ipc_server_fd := False, ipc_socket_path := [], ipc_handler := False \<rparr>"

text \<open>\<open>socket_ok\<close>, \<open>bind_ok\<close> and \<open>listen_ok\<close> are the results of the three calls.\<close>

definition LocalIpc_listen :: "string \<Rightarrow> bool \<Rightarrow> bool \<Rightarrow> bool \<Rightarrow> LocalIpc \<Rightarrow> LocalIpc" where
  "LocalIpc_listen name socket_ok bind_ok listen_ok l0 =
    (let l = LocalIpc_stop l0 in
     if \<not> set_sun_path name then l
     else if \<not> socket_ok then l
     else if \<not> bind_ok then l
     else if \<not> listen_ok then l
     else l \<lparr> ipc_server_fd := True, ipc_socket_path := name, ipc_handler := True, ipc_running := True \<rparr>)"

text \<open>What one turn of the accept loop finds: nothing in time, an interruption, a failed poll, an
  \<open>accept\<close> that fails for now or for good, or a client with its scripts.\<close>

datatype accept_event = PollTimeout | PollInterrupted | PollFailed | AcceptRetry | AcceptFailed
  | Client "read_event list" "write_event list"

primrec accept_loop ::
  "(bytes \<Rightarrow> 's \<Rightarrow> bytes \<times> 's) option \<Rightarrow> accept_event list \<Rightarrow> 's \<Rightarrow> bytes list \<times> 's" where
  "accept_loop handler [] st = ([], st)"
| "accept_loop handler (ev # evs) st =
    (case ev of
       PollTimeout \<Rightarrow> accept_loop handler evs st
     | PollInterrupted \<Rightarrow> accept_loop handler evs st
     | PollFailed \<Rightarrow> ([], st)
     | AcceptRetry \<Rightarrow> accept_loop handler evs st
     | AcceptFailed \<Rightarrow> ([], st)
     | Client rs ws \<Rightarrow>
         (case serve_client handler rs ws st of (sent, st1) \<Rightarrow>
            (case accept_loop handler evs st1 of (sents, st2) \<Rightarrow> (sent # sents, st2))))"

section \<open>Short reads and writes\<close>

text \<open>The bytes a script of reads delivers, if no call fails.\<close>

primrec delivered :: "read_event list \<Rightarrow> bytes" where
  "delivered [] = []"
| "delivered (ev # evs) = (case ev of Chunk bs \<Rightarrow> bs @ delivered evs | _ \<Rightarrow> delivered evs)"

definition clean_reads :: "read_event list \<Rightarrow> bool" where
  "clean_reads evs \<longleftrightarrow> ReadFailed \<notin> set evs \<and> Chunk [] \<notin> set evs"

lemma clean_reads_Cons [simp]:
  "clean_reads (ev # evs) \<longleftrightarrow> ev \<noteq> ReadFailed \<and> ev \<noteq> Chunk [] \<and> clean_reads evs"
  by (auto simp: clean_reads_def)

lemma read_exact_delivers:
  assumes "clean_reads evs" "length acc \<le> len" "len \<le> length acc + length (delivered evs)"
  shows "\<exists>rest. read_exact evs len acc = (Some (acc @ take (len - length acc) (delivered evs)), rest) \<and>
    clean_reads rest \<and> delivered rest = drop (len - length acc) (delivered evs)"
  using assms
proof (induction evs len acc rule: read_exact.induct)
  case (1 evs len acc)
  show ?case
  proof (cases "len \<le> length acc")
    case True
    then show ?thesis using 1 by (subst read_exact.simps) simp
  next
    case False
    then obtain ev evs' where evs: "evs = ev # evs'" using 1(5) by (cases evs) auto
    show ?thesis
    proof (cases ev)
      case (Chunk bs)
      let ?n = "min (length bs) (len - length acc)"
      let ?evs = "if ?n < length bs then Chunk (drop ?n bs) # evs' else evs'"
      have bs: "bs \<noteq> []" using 1(3) evs Chunk by simp
      have del: "delivered ?evs = drop ?n (delivered evs)" "clean_reads ?evs"
        using 1(3) evs Chunk by (auto simp: min_def)
      have step: "read_exact evs len acc = read_exact ?evs len (acc @ take ?n bs)"
        using False evs Chunk bs by (subst read_exact.simps) (simp add: Let_def)
      have len: "length (acc @ take ?n bs) \<le> len" "len \<le> length (acc @ take ?n bs) + length (delivered ?evs)"
        using False 1(5) del(1) evs Chunk by auto
      from 1(1) [OF False evs Chunk bs refl del(2) len] obtain rest where
        ih: "read_exact ?evs len (acc @ take ?n bs) = (Some ((acc @ take ?n bs) @ take (len - length (acc @ take ?n bs)) (delivered ?evs)), rest)"
          "clean_reads rest" "delivered rest = drop (len - length (acc @ take ?n bs)) (delivered ?evs)" by blast
      have n: "len - length (acc @ take ?n bs) = len - length acc - ?n" by simp
      have tk: "take ?n bs @ take (len - length acc - ?n) (drop ?n (delivered evs)) = take (len - length acc) (delivered evs)"
        using evs Chunk by (auto simp: min_def)
      have dr: "drop (len - length acc - ?n) (drop ?n (delivered evs)) = drop (len - length acc) (delivered evs)"
        by (simp only: drop_drop le_add_diff_inverse2 min.cobounded2)
      show ?thesis using step ih n tk dr del(1) by (simp add: append_assoc)
    next
      case ReadInterrupted
      then have "read_exact evs len acc = read_exact evs' len acc"
        using False evs by (subst read_exact.simps) simp
      then show ?thesis using 1(2) [OF False evs ReadInterrupted] 1(3-5) evs ReadInterrupted by simp
    qed (use 1(3) evs in auto)
  qed
qed

lemma read_exact_whole:
  assumes "clean_reads evs" "delivered evs = x @ y"
  shows "\<exists>rest. read_exact evs (length x) [] = (Some x, rest) \<and> clean_reads rest \<and> delivered rest = y"
  using read_exact_delivers [OF assms(1), of "[]" "length x"] assms(2) by simp

lemma write_exact_sends:
  "write_exact evs src = ((sent, ok), rest) \<Longrightarrow> sent = take (length sent) src \<and> (ok \<longleftrightarrow> length sent = length src)"
proof (induction evs src arbitrary: sent ok rest rule: write_exact.induct)
  case (1 evs src)
  show ?case
  proof (cases "src = []")
    case True
    then show ?thesis using 1(3) by (subst (asm) write_exact.simps) simp
  next
    case False
    show ?thesis
    proof (cases evs)
      case Nil
      then show ?thesis using 1(3) False by (subst (asm) write_exact.simps) auto
    next
      case (Cons ev evs')
      show ?thesis
      proof (cases ev)
        case (Accept k)
        show ?thesis
        proof (cases "k = 0")
          case True
          then show ?thesis using 1(3) False Cons Accept by (subst (asm) write_exact.simps) auto
        next
          case k: False
          obtain s2 ok2 r2 where w: "write_exact evs' (drop k src) = ((s2, ok2), r2)" by (metis surj_pair)
          have out: "sent = take k src @ s2" "ok = ok2"
            using 1(3) False Cons Accept k w by (subst (asm) write_exact.simps; auto)+
          from 1(1) [OF False Cons Accept k w] have ih: "s2 = take (length s2) (drop k src)"
            "ok2 \<longleftrightarrow> length s2 = length (drop k src)" by auto
          have len: "length s2 \<le> length src - k" by (subst ih(1)) simp
          show ?thesis
          proof (cases "length src \<le> k")
            case True
            then show ?thesis using out ih len by simp
          next
            case False
            then have "take (k + length s2) src = take k src @ s2" using ih(1) by (simp add: take_add)
            then show ?thesis using out ih(2) len False by auto
          qed
        qed
      next
        case WriteInterrupted
        then have "write_exact evs' src = ((sent, ok), rest)"
          using 1(3) False Cons by (subst (asm) write_exact.simps) simp
        then show ?thesis using 1(2) [OF False Cons WriteInterrupted] by simp
      next
        case WriteFailed
        then show ?thesis using 1(3) False Cons by (subst (asm) write_exact.simps) auto
      qed
    qed
  qed
qed

lemma write_exact_ok: "write_exact evs src = ((sent, True), rest) \<Longrightarrow> sent = src"
  using write_exact_sends by fastforce

lemma u32_image_inverse: "u32_of_image (u32_image w) = w"
  unfolding u32_image_def u32_of_image_def by (rule le_value_image) simp

lemma u32_image_length: "length (u32_image w) = 4"
  by (simp add: u32_image_def)

lemma unat_u32: "n \<le> kMaxIpcMessageBytes \<Longrightarrow> unat (of_nat n :: uint32) = n"
  by (simp add: kMaxIpcMessageBytes_def unat_of_nat take_bit_eq_mod)

definition frame_of :: "bytes \<Rightarrow> bytes" where
  "frame_of msg = u32_image (of_nat (length msg)) @ msg"

lemma send_message_ok: "send_message ws msg = (sent, True) \<Longrightarrow> sent = frame_of msg"
  by (auto simp: send_message_def frame_of_def split: prod.splits if_splits dest!: write_exact_ok)

text \<open>Reading a frame of at most 64 MiB, however it is cut up.\<close>

lemma read_frame:
  assumes "clean_reads rs" "delivered rs = frame_of msg" "length msg \<le> kMaxIpcMessageBytes"
  obtains hdr rs1 rs2 where "read_exact rs 4 [] = (Some hdr, rs1)" "unat (u32_of_image hdr) = length msg"
    "read_exact rs1 (length msg) [] = (Some msg, rs2)"
proof -
  let ?h = "u32_image (of_nat (length msg))"
  from read_exact_whole [OF assms(1) assms(2) [unfolded frame_of_def]] obtain rs1 where
    r1: "read_exact rs 4 [] = (Some ?h, rs1)" "clean_reads rs1" "delivered rs1 = msg @ []"
    by (auto simp: u32_image_length)
  from read_exact_whole [OF r1(2,3)] obtain rs2 where "read_exact rs1 (length msg) [] = (Some msg, rs2)" by blast
  then show thesis using r1(1) unat_u32 [OF assms(3)] by (intro that) (auto simp: u32_image_inverse)
qed



end
