(* ===== verification/LocalIpcWin.thy ===== *)
theory LocalIpcWin
  imports LocalIpc
begin

text \<open>
  The local control channel on Windows (\<open>platform/src/windows/local_ipc_win.cpp\<close>): the length and the data of
  a request are two messages on a named pipe in message mode. A read takes the next message; one
  that is longer than the buffer is reported as a failure. The last section states what both
  implementations of \<open>ILocalIpc\<close> promise, as a locale, and shows it for each.
\<close>

section \<open>Pipes\<close>

text \<open>The messages waiting at one end. A read that finds none fails: the other end is closed. One that finds a
  longer message than it has room for fails and leaves the rest of the message.\<close>

definition ReadFile :: "nat \<Rightarrow> bytes list \<Rightarrow> bytes option \<times> bytes list" where
  "ReadFile n waiting =
    (case waiting of
       [] \<Rightarrow> (None, [])
     | m # ms \<Rightarrow> if n < length m then (None, drop n m # ms) else (Some m, ms))"

section \<open>Both sides\<close>

text \<open>The client: whether the pipe could be opened, whether the two writes succeed, the messages that wait for
  it as an answer to those it sent, and the request. The result is the response.\<close>

definition win_receive_response :: "bytes list \<Rightarrow> bytes" where
  "win_receive_response waiting =
    (case ReadFile 4 waiting of
       (None, _) \<Rightarrow> []
     | (Some hdr, waiting1) \<Rightarrow>
         if length hdr \<noteq> 4 then []
         else
           let resp_len = unat (u32_of_image hdr) in
           if kMaxIpcMessageBytes < resp_len then []
           else if 0 < resp_len then
             (case ReadFile resp_len waiting1 of
                (None, _) \<Rightarrow> []
              | (Some resp, _) \<Rightarrow> if length resp \<noteq> resp_len then [] else resp)
           else [])"

definition win_send_request :: "bool \<Rightarrow> bool \<Rightarrow> bool \<Rightarrow> (bytes list \<Rightarrow> bytes list) \<Rightarrow> bytes \<Rightarrow> bytes" where
  "win_send_request opened write1 write2 answer req =
    (if kMaxIpcMessageBytes < length req then []
     else if \<not> opened then []
     else
       let len = of_nat (length req) :: uint32 in
       if write1 \<and> (len = 0 \<or> write2)
       then win_receive_response (answer (u32_image len # (if len = 0 then [] else [req])))
       else [])"

text \<open>The server: the messages that wait for it, whether its writes succeed, and the messages it sends.\<close>

definition win_serve_client ::
    "(bytes \<Rightarrow> 's \<Rightarrow> bytes \<times> 's) option \<Rightarrow> bytes list \<Rightarrow> bool \<Rightarrow> bool \<Rightarrow> 's \<Rightarrow> bytes list \<times> 's" where
  "win_serve_client handler waiting write1 write2 st =
    (case ReadFile 4 waiting of
       (None, _) \<Rightarrow> ([], st)
     | (Some hdr, waiting1) \<Rightarrow>
         if length hdr \<noteq> 4 then ([], st)
         else
           let len = unat (u32_of_image hdr) in
           if kMaxIpcMessageBytes < len then ([], st)
           else (case (if 0 < len then fst (ReadFile len waiting1) else Some []) of
              None \<Rightarrow> ([], st)
            | Some req \<Rightarrow>
                if length req \<noteq> len then ([], st)
                else (case (case handler of Some h \<Rightarrow> h req st | None \<Rightarrow> ([], st)) of (resp, st') \<Rightarrow>
                  if kMaxIpcMessageBytes < length resp then ([], st')
                  else
                    let resp_len = of_nat (length resp) :: uint32 in
                    if \<not> write1 then ([], st')
                    else (u32_image resp_len # (if resp_len \<noteq> 0 \<and> write2 then [resp] else []), st'))))"

section \<open>The listener\<close>

record LocalIpcWin =
  iw_pipe :: bool
  iw_pipe_name :: string
  iw_running :: bool
  iw_handler :: bool

definition pipe_path :: "string \<Rightarrow> string" where
  "pipe_path name = [CHR 0x5C, CHR 0x5C, CHR ''.'', CHR 0x5C] @ ''pipe'' @ [CHR 0x5C] @ name"

definition LocalIpcWin_listen :: "string \<Rightarrow> bool \<Rightarrow> LocalIpcWin \<Rightarrow> LocalIpcWin" where
  "LocalIpcWin_listen name created l =
    (let l = l\<lparr>iw_pipe_name := pipe_path name, iw_pipe := created\<rparr> in
     if \<not> created then l else l\<lparr>iw_handler := True, iw_running := True\<rparr>)"

text \<open>What a turn of the listening thread finds: \<open>running_\<close> was cleared, a failed connection, or a client with
  the messages it sent and whether the two writes to it succeed.\<close>

datatype pipe_event = Stopped | ConnectFailed | PipeClient "bytes list" bool bool

primrec listen_loop :: "(bytes \<Rightarrow> 's \<Rightarrow> bytes \<times> 's) option \<Rightarrow> pipe_event list \<Rightarrow> 's \<Rightarrow> bytes list list \<times> 's" where
  "listen_loop handler [] st = ([], st)"
| "listen_loop handler (ev # evs) st =
    (case ev of
       Stopped \<Rightarrow> ([], st)
     | ConnectFailed \<Rightarrow> listen_loop handler evs st
     | PipeClient waiting w1 w2 \<Rightarrow>
         (case win_serve_client handler waiting w1 w2 st of (sent, st1) \<Rightarrow>
            (case listen_loop handler evs st1 of (sents, st2) \<Rightarrow> (sent # sents, st2))))"

section \<open>The round trip\<close>

lemma small_length: "length (bs :: bytes) \<le> kMaxIpcMessageBytes \<Longrightarrow> (of_nat (length bs) = (0 :: uint32)) = (bs = [])"
  using unat_u32 [of "length bs"] by (simp only: word_unat_eq_iff unat_0 length_0_conv)

lemma win_serve_request:
  assumes "length req \<le> kMaxIpcMessageBytes" "h req st = (resp, st')" "length resp \<le> kMaxIpcMessageBytes"
  shows "win_serve_client (Some h) (u32_image (of_nat (length req)) # (if req = [] then [] else [req])) True True st =
    (u32_image (of_nat (length resp)) # (if resp = [] then [] else [resp]), st')"
  using assms small_length [OF assms(3)]
  by (auto simp: win_serve_client_def ReadFile_def u32_image_length u32_image_inverse unat_u32 Let_def)

lemma win_receive:
  assumes "length resp \<le> kMaxIpcMessageBytes"
  shows "win_receive_response (u32_image (of_nat (length resp)) # (if resp = [] then [] else [resp])) = resp"
  using assms
  by (auto simp: win_receive_response_def ReadFile_def u32_image_length u32_image_inverse unat_u32 Let_def)

definition win_exchange :: "(bytes \<Rightarrow> 's \<Rightarrow> bytes \<times> 's) \<Rightarrow> bytes \<Rightarrow> 's \<Rightarrow> bytes \<times> 's" where
  "win_exchange h req st =
    (let serve = (\<lambda>sent. win_serve_client (Some h) sent True True st);
         len = of_nat (length req) :: uint32
     in (win_send_request True True True (\<lambda>sent. fst (serve sent)) req,
         snd (serve (u32_image len # (if len = 0 then [] else [req])))))"

lemma win_exchange_answers:
  assumes "length req \<le> kMaxIpcMessageBytes" "length (fst (h req st)) \<le> kMaxIpcMessageBytes"
  shows "win_exchange h req st = h req st"
proof -
  obtain resp st' where h: "h req st = (resp, st')" by (metis surj_pair)
  then have "length resp \<le> kMaxIpcMessageBytes" using assms(2) by simp
  from win_serve_request [of req h, OF assms(1) h this] win_receive [OF this] show ?thesis
    using assms(1) small_length [OF assms(1)] h
    by (simp add: win_exchange_def win_send_request_def Let_def)
qed

text \<open>A message that is longer than its announced length is not delivered.\<close>

lemma long_message_dropped:
  assumes "length msg < length data" "length msg \<noteq> 0" "length msg \<le> kMaxIpcMessageBytes"
  shows "win_serve_client handler (u32_image (of_nat (length msg)) # data # ms) w1 w2 st = ([], st)"
  using assms by (auto simp: win_serve_client_def ReadFile_def u32_image_length u32_image_inverse unat_u32 Let_def)

section \<open>The interface\<close>

text \<open>What \<open>ILocalIpc\<close> promises, when the channel works: a request within the limit returns what the handler
  answers, if that is within the limit. A client's sequence of requests is then a run of the handler.\<close>

primrec ipc_session :: "(bytes \<Rightarrow> 's \<Rightarrow> bytes \<times> 's) \<Rightarrow> bytes list \<Rightarrow> 's \<Rightarrow> bytes list \<times> 's" where
  "ipc_session call [] st = ([], st)"
| "ipc_session call (req # reqs) st =
    (case call req st of (resp, st1) \<Rightarrow> (case ipc_session call reqs st1 of (resps, st2) \<Rightarrow> (resp # resps, st2)))"

locale local_ipc =
  fixes exchange :: "(bytes \<Rightarrow> 's \<Rightarrow> bytes \<times> 's) \<Rightarrow> bytes \<Rightarrow> 's \<Rightarrow> bytes \<times> 's"
  assumes answers: "length req \<le> kMaxIpcMessageBytes \<Longrightarrow> length (fst (h req st)) \<le> kMaxIpcMessageBytes \<Longrightarrow>
    exchange h req st = h req st"
begin

lemma session_runs_handler:
  assumes "\<And>req st. length (fst (h req st)) \<le> kMaxIpcMessageBytes"
    and "list_all (\<lambda>req. length req \<le> kMaxIpcMessageBytes) reqs"
  shows "ipc_session (exchange h) reqs st = ipc_session h reqs st"
  using assms(2) by (induction reqs arbitrary: st) (auto simp: answers assms(1) split: prod.splits)

end

interpretation win_ipc: local_ipc win_exchange
  by unfold_locales (rule win_exchange_answers)

text \<open>The same over a Unix socket that takes what it is given.\<close>

definition ready_writes :: "write_event list" where
  "ready_writes = [Accept 4, Accept kMaxIpcMessageBytes]"

definition posix_exchange :: "(bytes \<Rightarrow> 's \<Rightarrow> bytes \<times> 's) \<Rightarrow> bytes \<Rightarrow> 's \<Rightarrow> bytes \<times> 's" where
  "posix_exchange h req st =
    (let serve = (\<lambda>sent. serve_client (Some h) [Chunk sent] ready_writes st)
     in (send_request ''meminfo'' True ready_writes (\<lambda>sent. [Chunk (fst (serve sent))]) req,
         snd (serve (fst (send_message ready_writes req)))))"

lemma write_exact_Nil: "write_exact evs [] = (([], True), evs)"
  by (simp add: write_exact.simps)

lemma ready_header: "write_exact ready_writes (u32_image w) = ((u32_image w, True), [Accept kMaxIpcMessageBytes])"
proof -
  have "u32_image w \<noteq> []" using u32_image_length [of w] by auto
  then show ?thesis
    by (subst write_exact.simps) (simp add: ready_writes_def write_exact_Nil u32_image_length)
qed

lemma ready_body:
  assumes "length msg \<le> kMaxIpcMessageBytes"
  shows "\<exists>rest. write_exact [Accept kMaxIpcMessageBytes] msg = ((msg, True), rest)"
proof -
  have "kMaxIpcMessageBytes \<noteq> 0" by (simp add: kMaxIpcMessageBytes_def)
  then show ?thesis using assms
    by (cases "msg = []") (simp_all add: write_exact_Nil write_exact.simps [of "[Accept kMaxIpcMessageBytes]"])
qed

lemma length_frame_of: "length (frame_of msg) = 4 + length msg"
  by (simp add: frame_of_def u32_image_length)

lemma ready_send: "length msg \<le> kMaxIpcMessageBytes \<Longrightarrow> send_message ready_writes msg = (frame_of msg, True)"
  using ready_body [of msg] by (auto simp: send_message_def frame_of_def ready_header)

lemma read_one_chunk:
  assumes "length msg \<le> kMaxIpcMessageBytes"
  obtains hdr rs1 rs2 where "read_exact [Chunk (frame_of msg)] 4 [] = (Some hdr, rs1)"
    "unat (u32_of_image hdr) = length msg" "read_exact rs1 (length msg) [] = (Some msg, rs2)"
proof (rule read_frame [of "[Chunk (frame_of msg)]" msg])
  have "frame_of msg \<noteq> []" using length_frame_of [of msg] by auto
  then show "clean_reads [Chunk (frame_of msg)]" by (simp add: clean_reads_def)
qed (use assms in simp_all)

lemma posix_exchange_answers:
  assumes "length req \<le> kMaxIpcMessageBytes" "length (fst (h req st)) \<le> kMaxIpcMessageBytes"
  shows "posix_exchange h req st = h req st"
proof -
  obtain resp st' where h: "h req st = (resp, st')" by (metis surj_pair)
  then have small: "length resp \<le> kMaxIpcMessageBytes" using assms(2) by simp
  obtain hdr rs1 rs2 where r: "read_exact [Chunk (frame_of req)] 4 [] = (Some hdr, rs1)"
    "unat (u32_of_image hdr) = length req" "read_exact rs1 (length req) [] = (Some req, rs2)"
    using read_one_chunk [OF assms(1)] .
  have got: "(if 0 < length req then fst (read_exact rs1 (length req) []) else Some []) = Some req" using r(3) by simp
  have serve: "serve_client (Some h) [Chunk (frame_of req)] ready_writes st = (frame_of resp, st')"
    using ready_body [OF small] assms(1) r(1,2) got h small
    by (auto simp: serve_client_def Let_def frame_of_def unat_u32 ready_header)
  obtain hdr' rs1' rs2' where "read_exact [Chunk (frame_of resp)] 4 [] = (Some hdr', rs1')"
    "unat (u32_of_image hdr') = length resp" "read_exact rs1' (length resp) [] = (Some resp, rs2')"
    using read_one_chunk [OF small] .
  then have "receive_response [Chunk (frame_of resp)] = resp" using small by (simp add: receive_response_def)
  then show ?thesis
    using serve ready_send [OF assms(1)] assms(1) h
    by (simp add: posix_exchange_def send_request_def set_sun_path_def Let_def)
qed

interpretation posix_ipc: local_ipc posix_exchange
  by unfold_locales (rule posix_exchange_answers)

text \<open>Both implementations give a client the same answers.\<close>

lemma ipc_implementations_agree:
  assumes "\<And>req st. length (fst (h req st)) \<le> kMaxIpcMessageBytes"
    and "list_all (\<lambda>req. length req \<le> kMaxIpcMessageBytes) reqs"
  shows "ipc_session (win_exchange h) reqs st = ipc_session (posix_exchange h) reqs st"
  using win_ipc.session_runs_handler [OF assms] posix_ipc.session_runs_handler [OF assms] by simp

end
