(* ===== verification/WinSocket.thy ===== *)
theory WinSocket
  imports Common
begin

text \<open>
  What the programs of \<open>windows-lan-sharing/\<close> share: the transfer loops \<open>send_exact\<close> and
  \<open>recv_exact\<close>, which both wire protocol headers define with the same text. What the calls of
  \<open>send\<close> and \<open>recv\<close> do on a socket is a script, as in the local control channel; \<open>stream\<close> is
  what a script delivers before it ends, and the lemmas show that the way the network cuts a
  stream into pieces makes no difference to the receiver.
\<close>

section \<open>Sockets\<close>

text \<open>What a call of \<open>recv\<close> finds: some bytes, of which it takes as many as it asked for (none
  means that the peer has closed the connection), or an error. A call of \<open>send\<close> takes up to some
  number of bytes, or fails. A script that has ended is a socket that fails.\<close>

datatype recv_event = Arrive bytes | RecvError

type_synonym send_event = "nat option"

text \<open>The length argument of \<open>recv\<close>, \<open>static_cast<int>(remaining)\<close>; a negative one is refused with an
  error and none is answered with 0, so that both end the loop.\<close>

definition int_len :: "nat \<Rightarrow> int" where
  "int_len remaining = sint (of_nat remaining :: 32 word)"

text \<open>The bytes stored so far are in \<open>acc\<close>; the result has all bytes stored, whether the buffer was
  filled, and what is left of the script.\<close>

function recv_exact :: "recv_event list \<Rightarrow> nat \<Rightarrow> bytes \<Rightarrow> (bytes \<times> bool) \<times> recv_event list" where
  "recv_exact evs remaining acc =
    (if remaining = 0 then ((acc, True), evs)
     else case evs of
       [] \<Rightarrow> ((acc, False), [])
     | RecvError # evs' \<Rightarrow> ((acc, False), evs')
     | Arrive bs # evs' \<Rightarrow>
         if int_len remaining \<le> 0 \<or> bs = [] then ((acc, False), evs')
         else
           let recvd = min (length bs) (nat (int_len remaining))
           in recv_exact (if recvd < length bs then Arrive (drop recvd bs) # evs' else evs')
                (remaining - recvd) (acc @ take recvd bs))"
  by pat_completeness auto
termination
  by (relation "measure (\<lambda>(evs, remaining, acc). remaining)") auto

declare recv_exact.simps [simp del]

text \<open>The bytes that were sent, whether all were, and the rest of the script. All callers send less
  than \<open>2 ^ 31\<close> bytes, for which the conversion of the length to \<open>int\<close> is the identity.\<close>

fun send_exact :: "send_event list \<Rightarrow> bytes \<Rightarrow> (bytes \<times> bool) \<times> send_event list" where
  "send_exact evs [] = (([], True), evs)"
| "send_exact [] (b # src) = (([], False), [])"
| "send_exact (None # evs) (b # src) = (([], False), evs)"
| "send_exact (Some k # evs) (b # src) =
    (case send_exact evs (drop k (b # src)) of
       ((sent, ok), evs') \<Rightarrow> ((take k (b # src) @ sent, ok), evs'))"

text \<open>A connected socket: what \<open>recv\<close> and \<open>send\<close> will do, and all bytes sent so far.\<close>

record conn =
  incoming :: "recv_event list"
  accepting :: "send_event list"
  outgoing :: bytes

definition conn_send :: "conn \<Rightarrow> bytes \<Rightarrow> bool \<times> conn" where
  "conn_send c src =
    (case send_exact (accepting c) src of
       ((sent, ok), evs) \<Rightarrow> (ok, c\<lparr>accepting := evs, outgoing := outgoing c @ sent\<rparr>))"

definition conn_recv :: "conn \<Rightarrow> nat \<Rightarrow> (bytes \<times> bool) \<times> conn" where
  "conn_recv c len =
    (case recv_exact (incoming c) len [] of (r, evs) \<Rightarrow> (r, c\<lparr>incoming := evs\<rparr>))"

text \<open>The context both servers keep for a client.\<close>

record client_context =
  cc_sock :: "conn option"
  cc_active :: bool

text \<open>Connecting: whether a socket could be made, whether the address could be read, and the
  connected socket, if the peer answered. The log has the resources that were acquired and released.\<close>

datatype win_effect = Startup | Cleanup | PoolAlloc | PoolFree | OpenSocket | CloseSocket

record connect_env =
  ce_socket :: bool
  ce_address :: bool
  ce_connect :: "conn option"

definition connect_socket :: "connect_env \<Rightarrow> conn option \<times> win_effect list" where
  "connect_socket env =
    (if \<not> ce_socket env then (None, [])
     else if \<not> ce_address env then (None, [OpenSocket, CloseSocket])
     else case ce_connect env of
       None \<Rightarrow> (None, [OpenSocket, CloseSocket])
     | Some c \<Rightarrow> (Some c, [OpenSocket]))"

text \<open>How many sockets a log leaves open.\<close>

definition open_sockets :: "win_effect list \<Rightarrow> int" where
  "open_sockets log = int (count_list log OpenSocket) - int (count_list log CloseSocket)"

lemma connect_socket_balanced:
  "connect_socket env = (r, log) \<Longrightarrow> open_sockets log = (if r = None then 0 else 1)"
  by (auto simp: connect_socket_def open_sockets_def split: if_splits option.splits)

section \<open>What arrives\<close>

text \<open>The bytes a script delivers before it fails or the peer closes.\<close>

fun stream :: "recv_event list \<Rightarrow> bytes" where
  "stream [] = []"
| "stream (RecvError # evs) = []"
| "stream (Arrive bs # evs) = (if bs = [] then [] else bs @ stream evs)"

text \<open>A socket that takes at least one byte in each of the next \<open>n\<close> calls.\<close>

definition sends_at_least :: "nat \<Rightarrow> send_event list \<Rightarrow> bool" where
  "sends_at_least n evs \<longleftrightarrow> n \<le> length evs \<and> list_all (\<lambda>e. case e of None \<Rightarrow> False | Some k \<Rightarrow> 0 < k) evs"

lemma int_len_exact: "n < 2 ^ 31 \<Longrightarrow> int_len n = int n"
  by (simp add: int_len_def signed_of_nat signed_take_bit_int_eq_self)

lemma recv_exact_end:
  "n \<noteq> 0 \<Longrightarrow> stream evs = [] \<Longrightarrow> \<exists>rest. recv_exact evs n acc = ((acc, False), rest)"
  by (subst recv_exact.simps) (auto split: list.split recv_event.split if_splits)

lemma stream_ArriveE:
  assumes "stream evs \<noteq> []"
  obtains bs evs' where "evs = Arrive bs # evs'" "bs \<noteq> []" "stream evs = bs @ stream evs'"
  using assms by (cases evs rule: stream.cases) (auto split: if_splits)

lemma chunk_simps:
  "take (min (length bs) n) bs @ take (n - min (length bs) n) (drop (min (length bs) n) bs @ s) = take n (bs @ s)"
  "drop (n - min (length bs) n) (drop (min (length bs) n) bs @ s) = drop n (bs @ s)"
  by (cases "n \<le> length bs"; simp add: min_def)+

lemma recv_exact_stream:
  "n < 2 ^ 31 \<Longrightarrow>
   \<exists>rest. recv_exact evs n acc = ((acc @ take n (stream evs), n \<le> length (stream evs)), rest) \<and>
     (n \<le> length (stream evs) \<longrightarrow> stream rest = drop n (stream evs))"
proof (induction evs n acc rule: recv_exact.induct)
  case (1 evs n acc)
  consider "n = 0" | "n \<noteq> 0" "stream evs = []" | "n \<noteq> 0" "stream evs \<noteq> []" by blast
  then show ?case
  proof cases
    case 1
    then show ?thesis by (simp add: recv_exact.simps)
  next
    case 2
    then show ?thesis using recv_exact_end [OF 2] by auto
  next
    case 3
    obtain bs evs' where evs: "evs = Arrive bs # evs'" and bs: "bs \<noteq> []" and all: "stream evs = bs @ stream evs'"
      using stream_ArriveE [OF 3(2)] .
    have len: "0 < int_len n" "nat (int_len n) = n" using 1(2) 3(1) by (simp_all add: int_len_exact)
    let ?k = "min (length bs) n"
    let ?evs = "if ?k < length bs then Arrive (drop ?k bs) # evs' else evs'"
    have str: "stream ?evs = drop ?k bs @ stream evs'" by auto
    have red: "recv_exact evs n acc = recv_exact ?evs (n - ?k) (acc @ take ?k bs)"
      using 3(1) len bs by (subst recv_exact.simps) (simp add: evs Let_def)
    have small: "n - ?k < 2 ^ 31" using 1(2) by linarith
    have nb: "\<not> (int_len n \<le> 0 \<or> bs = [])" using len bs by simp
    have e: "n - ?k \<le> length (drop ?k bs @ stream evs') \<longleftrightarrow> n \<le> length (bs @ stream evs')"
      by (auto simp: min_def)
    from 1(1) [OF 3(1) evs refl nb refl, unfolded len(2), OF small] show ?thesis
      unfolding red str all append_assoc chunk_simps e .
  qed
qed

text \<open>A receive succeeds exactly when enough bytes are still to come, and then takes the next ones.\<close>

lemma conn_recv_ok:
  assumes "stream (incoming c) = bs @ rest" "length bs < 2 ^ 31"
  obtains evs where "conn_recv c (length bs) = ((bs, True), c\<lparr>incoming := evs\<rparr>)" "stream evs = rest"
  using recv_exact_stream [OF assms(2), of "incoming c" "[]"] assms(1)
  unfolding conn_recv_def by auto

lemma conn_recv_short:
  assumes "length (stream (incoming c)) < n" "n < 2 ^ 31"
  obtains evs where "conn_recv c n = ((stream (incoming c), False), c\<lparr>incoming := evs\<rparr>)"
  using recv_exact_stream [OF assms(2), of "incoming c" "[]"] assms(1)
  unfolding conn_recv_def by auto

lemma send_exact_all:
  "sends_at_least (length src) evs \<Longrightarrow>
   \<exists>rest. send_exact evs src = ((src, True), rest) \<and>
     (\<forall>n. sends_at_least (length src + n) evs \<longrightarrow> sends_at_least n rest)"
proof (induction evs src rule: send_exact.induct)
  case (4 k evs b src)
  then have k: "0 < k" and "length src \<le> length evs"
    and all: "list_all (\<lambda>e. case e of None \<Rightarrow> False | Some k \<Rightarrow> 0 < k) evs"
    by (auto simp: sends_at_least_def)
  then have "sends_at_least (length (drop k (b # src))) evs" by (auto simp: sends_at_least_def)
  from 4(1) [OF this] obtain rest where
    r: "send_exact evs (drop k (b # src)) = ((drop k (b # src), True), rest)"
    and more: "\<And>n. sends_at_least (length (drop k (b # src)) + n) evs \<Longrightarrow> sends_at_least n rest" by blast
  have "sends_at_least n rest" if "sends_at_least (length (b # src) + n) (Some k # evs)" for n
    using that all k by (intro more) (auto simp: sends_at_least_def)
  then show ?case using r append_take_drop_id [of k "b # src"] by simp
qed (auto simp: sends_at_least_def)

lemma conn_send_ok:
  assumes "sends_at_least (length src + n) (accepting c)"
  obtains evs where "conn_send c src = (True, c\<lparr>accepting := evs, outgoing := outgoing c @ src\<rparr>)"
    "sends_at_least n evs"
proof -
  have "sends_at_least (length src) (accepting c)" using assms by (simp add: sends_at_least_def)
  from send_exact_all [OF this] assms obtain rest where
    "send_exact (accepting c) src = ((src, True), rest)" "sends_at_least n rest" by blast
  then show thesis by (intro that [of rest]) (simp_all add: conn_send_def)
qed

text \<open>The empty transfer does nothing, so that guarding against it makes no difference.\<close>

lemma conn_send_Nil [simp]: "conn_send c [] = (True, c)"
  by (simp add: conn_send_def)

lemma conn_recv_0 [simp]: "conn_recv c 0 = (([], True), c)"
  by (simp add: conn_recv_def recv_exact.simps)

lemma conn_send_guarded: "(if src = [] then (True, c) else conn_send c src) = conn_send c src"
  by simp

lemma conn_recv_guarded: "(if 0 < n then conn_recv c n else (([], True), c)) = conn_recv c n"
  by simp

lemma sends_at_least_mono: "sends_at_least n evs \<Longrightarrow> m \<le> n \<Longrightarrow> sends_at_least m evs"
  by (simp add: sends_at_least_def)

end
