(* ===== verification/LanPaging.thy ===== *)
theory LanPaging
  imports WinSocket HeapArena
begin

text \<open>
  Paging over a network on Windows (\<open>windows-lan-sharing/\<close>): the paging protocol
  (\<open>common/PagingWireProtocol.hpp\<close>), the client's \<open>TcpPageFaultBackend\<close>, the \<open>RemoteHeap\<close> whose
  exception handler fetches a cluster when it is touched, and the server with its pool
  (\<open>server/paging_server.cpp\<close>). The pool is a function from offsets to bytes; pointers into a heap
  are naturals below \<open>W64\<close>, addresses on the wire 64-bit words. The main theorem composes both ends:
  however the network cuts the two streams, a run of fetches and commits behaves as a memory of
  clusters.
\<close>

section \<open>Protocol\<close>

definition PAGING_MAGIC :: uint32 where
  "PAGING_MAGIC = 0x52414D31"

definition PAGING_OP_READ_CLUSTER :: byte where
  "PAGING_OP_READ_CLUSTER = 1"

definition PAGING_OP_WRITE_DIFF :: byte where
  "PAGING_OP_WRITE_DIFF = 2"

definition CLUSTER_SIZE :: nat where
  "CLUSTER_SIZE = 64 * 1024"

definition LAN_PAGE_SIZE :: nat where
  "LAN_PAGE_SIZE = 4096"

definition PAGES_PER_CLUSTER :: nat where
  "PAGES_PER_CLUSTER = CLUSTER_SIZE div LAN_PAGE_SIZE"

record paging_header =
  ph_magic :: uint32
  ph_opcode :: byte
  ph_reserved :: bytes
  ph_address :: uint64
  ph_page_count :: uint32
  ph_payload_len :: uint32

text \<open>The packed structure in memory, 24 bytes, and what a receiver reads from it.\<close>

definition paging_header_image :: "paging_header \<Rightarrow> bytes" where
  "paging_header_image h =
    le_image 4 (ph_magic h) @ [ph_opcode h] @ ph_reserved h @ le_image 8 (ph_address h) @
    le_image 4 (ph_page_count h) @ le_image 4 (ph_payload_len h)"

definition paging_header_of :: "bytes \<Rightarrow> paging_header" where
  "paging_header_of bs =
    \<lparr>ph_magic = le_value (peek 0 4 bs), ph_opcode = bs ! 4, ph_reserved = peek 5 3 bs,
     ph_address = le_value (peek 8 8 bs), ph_page_count = le_value (peek 16 4 bs),
     ph_payload_len = le_value (peek 20 4 bs)\<rparr>"

definition send_paging_header :: "conn \<Rightarrow> byte \<Rightarrow> uint64 \<Rightarrow> uint32 \<Rightarrow> uint32 \<Rightarrow> bool \<times> conn" where
  "send_paging_header c opcode address page_count payload_len =
    conn_send c (paging_header_image
      \<lparr>ph_magic = PAGING_MAGIC, ph_opcode = opcode, ph_reserved = [0, 0, 0], ph_address = address,
       ph_page_count = page_count, ph_payload_len = payload_len\<rparr>)"

definition recv_paging_header :: "conn \<Rightarrow> paging_header option \<times> conn" where
  "recv_paging_header c =
    (case conn_recv c 24 of ((bs, ok), c1) \<Rightarrow>
       if \<not> ok then (None, c1)
       else if ph_magic (paging_header_of bs) \<noteq> PAGING_MAGIC then (None, c1)
       else (Some (paging_header_of bs), c1))"

definition align_down_cluster :: "uint64 \<Rightarrow> uint64" where
  "align_down_cluster addr = addr AND NOT (of_nat CLUSTER_SIZE - 1)"

definition align_up_cluster :: "uint64 \<Rightarrow> uint64" where
  "align_up_cluster addr = (addr + of_nat CLUSTER_SIZE - 1) AND NOT (of_nat CLUSTER_SIZE - 1)"

section \<open>Server\<close>

definition LAN_POOL_SIZE :: nat where
  "LAN_POOL_SIZE = 8 * 1024 * 1024 * 1024"

type_synonym pool = "nat \<Rightarrow> byte"

definition pool_read :: "pool \<Rightarrow> nat \<Rightarrow> nat \<Rightarrow> bytes" where
  "pool_read pool off n = map pool [off..<off + n]"

definition pool_write :: "pool \<Rightarrow> nat \<Rightarrow> bytes \<Rightarrow> pool" where
  "pool_write pool off bs = (\<lambda>i. if off \<le> i \<and> i < off + length bs then bs ! (i - off) else pool i)"

text \<open>One round of the loop of \<open>handle_client\<close>: whether it goes on, the pool, and the connection.
  An access past the end of the pool has no defined behaviour.\<close>

definition paging_request :: "pool \<Rightarrow> conn \<Rightarrow> cpp_error + (bool \<times> pool \<times> conn)" where
  "paging_request pool c =
    (case recv_paging_header c of
       (None, c1) \<Rightarrow> Inr (False, pool, c1)
     | (Some hdr, c1) \<Rightarrow>
         let page_count = unat (ph_page_count hdr);
             payload_len = unat (ph_payload_len hdr);
             off = unat (ph_address hdr) mod LAN_POOL_SIZE
         in if page_count = 0 \<or> PAGES_PER_CLUSTER < page_count then Inr (False, pool, c1)
            else if payload_len \<noteq> page_count * LAN_PAGE_SIZE then Inr (False, pool, c1)
            else if ph_opcode hdr = PAGING_OP_READ_CLUSTER then
              if LAN_POOL_SIZE < off + payload_len then Inl UndefinedBehaviour
              else case conn_send c1 (pool_read pool off payload_len) of (ok, c2) \<Rightarrow> Inr (ok, pool, c2)
            else if ph_opcode hdr = PAGING_OP_WRITE_DIFF then
              case conn_recv c1 payload_len of ((buffer, ok), c2) \<Rightarrow>
                if \<not> ok then Inr (False, pool, c2)
                else if LAN_POOL_SIZE < off + payload_len then Inl UndefinedBehaviour
                else Inr (True, pool_write pool off buffer, c2)
            else Inr (False, pool, c1))"

text \<open>The loop, with the values its condition \<open>g_running.load() && ctx.active\<close> takes in turn.\<close>

fun handle_loop :: "bool list \<Rightarrow> pool \<Rightarrow> conn \<Rightarrow> cpp_error + (pool \<times> conn)" where
  "handle_loop (True # alive) pool c =
    (case paging_request pool c of
       Inl e \<Rightarrow> Inl e
     | Inr (go_on, pool', c') \<Rightarrow> if go_on then handle_loop alive pool' c' else Inr (pool', c'))"
| "handle_loop _ pool c = Inr (pool, c)"

definition handle_client :: "bool list \<Rightarrow> pool \<Rightarrow> conn \<Rightarrow> cpp_error + (pool \<times> conn \<times> client_context)" where
  "handle_client alive pool c =
    (case handle_loop alive pool c of
       Inl e \<Rightarrow> Inl e
     | Inr (pool', c') \<Rightarrow> Inr (pool', c', \<lparr>cc_sock = None, cc_active = False\<rparr>))"

text \<open>The start of \<open>main\<close>: which calls succeed, and either an exit code or a listening server, with the
  resources acquired and released.\<close>

record listen_env =
  en_startup :: bool
  en_pool :: bool
  en_socket :: bool
  en_bind :: bool
  en_listen :: bool

definition paging_main :: "listen_env \<Rightarrow> int option \<times> win_effect list" where
  "paging_main env =
    (if \<not> en_startup env then (Some 1, [])
     else if \<not> en_pool env then (Some 1, [Startup, Cleanup])
     else if \<not> en_socket env then (Some 1, [Startup, PoolAlloc, PoolFree, Cleanup])
     else if \<not> en_bind env \<or> \<not> en_listen env then
       (Some 1, [Startup, PoolAlloc, OpenSocket, CloseSocket, PoolFree, Cleanup])
     else (None, [Startup, PoolAlloc, OpenSocket]))"

text \<open>The accept loop; \<open>g_running\<close> is never cleared, so that it does not end. \<open>g_clients\<close> is a vector, and
  each handler thread keeps a reference to its element: the generation is the number of times
  the elements have been moved, and each thread has the generation its reference belongs to.\<close>

record accept_state =
  as_refs :: "nat list"
  as_capacity :: nat
  as_generation :: nat

definition accept_client :: "(nat \<Rightarrow> nat) \<Rightarrow> bool \<Rightarrow> accept_state \<Rightarrow> accept_state" where
  "accept_client grow accepted st =
    (if \<not> accepted then st
     else
       let full = (length (as_refs st) = as_capacity st);
           gen = (if full then Suc (as_generation st) else as_generation st)
       in \<lparr>as_refs = as_refs st @ [gen],
           as_capacity = (if full then grow (as_capacity st) else as_capacity st),
           as_generation = gen\<rparr>)"

definition dangling :: "accept_state \<Rightarrow> nat \<Rightarrow> bool" where
  "dangling st i \<longleftrightarrow> as_refs st ! i \<noteq> as_generation st"

section \<open>Client\<close>

record tcp_backend =
  tb_socket :: "conn option"
  tb_initialized :: bool
  tb_port :: uint16
  tb_ip :: string

definition tcp_backend_new :: tcp_backend where
  "tcp_backend_new = \<lparr>tb_socket = None, tb_initialized = False, tb_port = 0, tb_ip = []\<rparr>"

definition tcp_initialize :: "connect_env \<Rightarrow> string \<Rightarrow> uint16 \<Rightarrow> tcp_backend \<Rightarrow> (bool \<times> tcp_backend) \<times> win_effect list" where
  "tcp_initialize env ip port b =
    (if tb_initialized b then ((True, b), [])
     else case connect_socket env of
       (None, log) \<Rightarrow> ((False, b), log)
     | (Some c, log) \<Rightarrow>
         ((True, b\<lparr>tb_socket := Some c, tb_port := port, tb_ip := take 63 ip, tb_initialized := True\<rparr>), log))"

text \<open>The number of pages both transfers ask for.\<close>

definition cluster_pages :: "nat \<Rightarrow> uint32" where
  "cluster_pages sz =
    (let page_count = of_nat (u64_add sz (LAN_PAGE_SIZE - 1) div LAN_PAGE_SIZE);
         page_count = (if page_count = 0 then 1 else page_count)
     in if of_nat PAGES_PER_CLUSTER < page_count then of_nat PAGES_PER_CLUSTER else page_count)"

definition payload_bytes :: "nat \<Rightarrow> uint32" where
  "payload_bytes sz = cluster_pages sz * of_nat LAN_PAGE_SIZE"

text \<open>A failed transfer calls \<open>close_socket\<close>, which locks \<open>socket_mutex_\<close> again in the thread that
  holds it: the behaviour of a \<open>std::mutex\<close> is then undefined. The result has the bytes stored at
  the destination and the value returned.\<close>

definition fetch_page_cluster :: "tcp_backend \<Rightarrow> uint64 \<Rightarrow> nat \<Rightarrow> cpp_error + ((bytes \<times> bool) \<times> tcp_backend)" where
  "fetch_page_cluster b addr sz =
    (if \<not> tb_initialized b then Inr (([], False), b)
     else case tb_socket b of
       None \<Rightarrow> Inr (([], False), b)
     | Some c \<Rightarrow>
         (case send_paging_header c PAGING_OP_READ_CLUSTER (align_down_cluster addr)
                 (cluster_pages sz) (payload_bytes sz) of (sent, c1) \<Rightarrow>
            if \<not> sent then Inl UndefinedBehaviour
            else case conn_recv c1 (unat (payload_bytes sz)) of ((data, received), c2) \<Rightarrow>
              if \<not> received then Inl UndefinedBehaviour
              else Inr ((data, True), b\<lparr>tb_socket := Some c2\<rparr>)))"

text \<open>\<open>src\<close> is the memory at the source pointer; reading past it has no defined behaviour.\<close>

definition commit_page_diff :: "tcp_backend \<Rightarrow> uint64 \<Rightarrow> nat \<Rightarrow> bytes \<Rightarrow> cpp_error + (bool \<times> tcp_backend)" where
  "commit_page_diff b addr sz src =
    (if \<not> tb_initialized b then Inr (False, b)
     else case tb_socket b of
       None \<Rightarrow> Inr (False, b)
     | Some c \<Rightarrow>
         (case send_paging_header c PAGING_OP_WRITE_DIFF (align_down_cluster addr)
                 (cluster_pages sz) (payload_bytes sz) of (sent, c1) \<Rightarrow>
            if \<not> sent then Inl UndefinedBehaviour
            else if length src < unat (payload_bytes sz) then Inl UndefinedBehaviour
            else case conn_send c1 (take (unat (payload_bytes sz)) src) of (sent, c2) \<Rightarrow>
              if \<not> sent then Inl UndefinedBehaviour
              else Inr (True, b\<lparr>tb_socket := Some c2\<rparr>)))"

definition close_socket :: "tcp_backend \<Rightarrow> tcp_backend \<times> win_effect list" where
  "close_socket b =
    (case tb_socket b of
       None \<Rightarrow> (b, [])
     | Some c \<Rightarrow> (b\<lparr>tb_socket := None\<rparr>, [CloseSocket]))"

definition tcp_shutdown :: "tcp_backend \<Rightarrow> tcp_backend \<times> win_effect list" where
  "tcp_shutdown b = (case close_socket b of (b1, log) \<Rightarrow> (b1\<lparr>tb_initialized := False\<rparr>, log))"

section \<open>Heap\<close>

text \<open>A reserved range; \<open>lh_pages\<close> has the contents of the clusters that are committed, by their
  base address.\<close>

record lan_heap =
  lh_base :: nat
  lh_size :: nat
  lh_backend :: "tcp_backend option"
  lh_pages :: "uint64 \<rightharpoonup> bytes"

text \<open>The constructor: the address \<open>VirtualAlloc\<close> returned, and whether the heap became the current
  one of the thread, with the handler installed.\<close>

definition lan_heap_new :: "nat \<Rightarrow> nat \<Rightarrow> lan_heap \<times> bool" where
  "lan_heap_new reserved reserve_size =
    (\<lparr>lh_base = reserved, lh_size = reserve_size, lh_backend = None, lh_pages = Map.empty\<rparr>, reserved \<noteq> 0)"

text \<open>The destructor releases the range. The handler is not removed, for it is passed where its
  registration is expected.\<close>

definition lan_heap_destroy :: "lan_heap \<Rightarrow> lan_heap" where
  "lan_heap_destroy h =
    (if lh_base h = 0 then h else h\<lparr>lh_base := 0, lh_pages := Map.empty\<rparr>)"

definition lan_heap_initialize :: "lan_heap \<Rightarrow> tcp_backend \<Rightarrow> bool \<times> lan_heap" where
  "lan_heap_initialize h backend =
    (if lh_base h = 0 then (False, h) else (True, h\<lparr>lh_backend := Some backend\<rparr>))"

definition lan_contains :: "lan_heap \<Rightarrow> nat \<Rightarrow> bool" where
  "lan_contains h addr \<longleftrightarrow> lh_base h \<le> addr \<and> addr < u64_add (lh_base h) (lh_size h)"

record exception_record =
  er_code :: uint32
  er_parameters :: nat
  er_address :: nat

definition EXCEPTION_ACCESS_VIOLATION :: uint32 where
  "EXCEPTION_ACCESS_VIOLATION = 0xC0000005"

datatype handler_result = ContinueSearch | ContinueExecution

text \<open>The handler, given the current heap of the faulting thread and whether the pages could be
  committed. Committing gives a cluster zeros unless it was committed before.\<close>

definition LanVectoredHandler ::
    "exception_record \<Rightarrow> bool \<Rightarrow> lan_heap option \<Rightarrow> cpp_error + (handler_result \<times> lan_heap option)" where
  "LanVectoredHandler record committed current =
    (if er_code record \<noteq> EXCEPTION_ACCESS_VIOLATION then Inr (ContinueSearch, current)
     else if er_parameters record < 2 then Inr (ContinueSearch, current)
     else case current of
       None \<Rightarrow> Inr (ContinueSearch, current)
     | Some heap \<Rightarrow>
         if \<not> lan_contains heap (er_address record) then Inr (ContinueSearch, current)
         else case lh_backend heap of
           None \<Rightarrow> Inr (ContinueSearch, current)
         | Some backend \<Rightarrow>
             let cluster_base = align_down_cluster (of_nat (er_address record)) in
             if \<not> committed then Inr (ContinueSearch, current)
             else
               let before = (case lh_pages heap cluster_base of
                               Some bs \<Rightarrow> bs | None \<Rightarrow> replicate CLUSTER_SIZE 0)
               in case fetch_page_cluster backend cluster_base CLUSTER_SIZE of
                    Inl e \<Rightarrow> Inl e
                  | Inr ((data, ok), backend') \<Rightarrow>
                      if \<not> ok then
                        Inr (ContinueSearch, Some (heap\<lparr>lh_backend := Some backend',
                               lh_pages := (lh_pages heap)(cluster_base := None)\<rparr>))
                      else
                        Inr (ContinueExecution, Some (heap\<lparr>lh_backend := Some backend',
                               lh_pages := (lh_pages heap)(cluster_base \<mapsto> blit 0 data before)\<rparr>)))"

section \<open>Headers, alignment and sizes\<close>

lemma paging_header_image_inverse:
  assumes "length (ph_reserved h) = 3"
  shows "paging_header_of (paging_header_image h) = h"
proof -
  obtain r1 r2 r3 where "ph_reserved h = [r1, r2, r3]"
    using assms by (auto simp: numeral_3_eq_3 length_Suc_conv)
  then show ?thesis
    by (simp add: paging_header_of_def paging_header_image_def peek_def nth_append le_value_image)
qed

lemma length_paging_header_image: "length (ph_reserved h) = 3 \<Longrightarrow> length (paging_header_image h) = 24"
  by (simp add: paging_header_image_def)

lemma recv_paging_header_ok:
  assumes "stream (incoming c) = paging_header_image h @ rest"
    and "length (ph_reserved h) = 3" "ph_magic h = PAGING_MAGIC"
  obtains evs where "recv_paging_header c = (Some h, c\<lparr>incoming := evs\<rparr>)" "stream evs = rest"
proof -
  have "length (paging_header_image h) < 2 ^ 31" using assms(2) by (simp add: length_paging_header_image)
  from conn_recv_ok [OF assms(1) this] obtain evs where
    "conn_recv c 24 = ((paging_header_image h, True), c\<lparr>incoming := evs\<rparr>)" "stream evs = rest"
    unfolding length_paging_header_image [OF assms(2)] .
  then show thesis using assms by (intro that) (simp_all add: recv_paging_header_def paging_header_image_inverse)
qed

lemma cluster_mask: "of_nat CLUSTER_SIZE - 1 = (mask 16 :: uint64)"
  by (simp add: CLUSTER_SIZE_def mask_eq_exp_minus_1)

lemma unat_align_down: "unat (align_down_cluster a) = CLUSTER_SIZE * (unat a div CLUSTER_SIZE)"
  unfolding align_down_cluster_def cluster_mask unat_and_not_mask
  by (simp add: CLUSTER_SIZE_def minus_mod_eq_mult_div)

text \<open>Rounding up wraps to 0 in the last cluster of the address space.\<close>

lemma unat_align_up:
  "unat (align_up_cluster a) =
     (if unat a + CLUSTER_SIZE \<le> W64 then CLUSTER_SIZE * ((unat a + CLUSTER_SIZE - 1) div CLUSTER_SIZE) else 0)"
proof -
  let ?x = "unat a + (CLUSTER_SIZE - 1)"
  have "a + of_nat CLUSTER_SIZE - 1 = of_nat ?x" by (simp add: CLUSTER_SIZE_def)
  then have u: "unat (a + of_nat CLUSTER_SIZE - 1) = ?x mod W64" by (simp only: unat_of_nat W64_def) simp
  have "unat (align_up_cluster a) = CLUSTER_SIZE * (?x mod W64 div CLUSTER_SIZE)"
    unfolding align_up_cluster_def cluster_mask unat_and_not_mask
    unfolding cluster_mask [symmetric] add_diff_eq u by (simp add: CLUSTER_SIZE_def minus_mod_eq_mult_div)
  moreover have "?x mod W64 div CLUSTER_SIZE = 0" if "\<not> unat a + CLUSTER_SIZE \<le> W64"
  proof -
    have "0 < CLUSTER_SIZE" "CLUSTER_SIZE < W64" by (simp_all add: CLUSTER_SIZE_def W64_def)
    then have "W64 \<le> ?x" "?x - W64 < CLUSTER_SIZE" "?x - W64 < W64"
      using that uint64_bound [of a] by linarith+
    then show ?thesis by (simp add: le_mod_geq)
  qed
  moreover have "?x mod W64 = unat a + CLUSTER_SIZE - 1" if "unat a + CLUSTER_SIZE \<le> W64"
    using that by (simp add: CLUSTER_SIZE_def)
  ultimately show ?thesis by simp
qed

text \<open>The offset of a cluster in the pool: the pool has 131072 clusters, taken in turn by the
  clusters of the address space.\<close>

definition cluster_index :: "uint64 \<Rightarrow> nat" where
  "cluster_index a = unat a div CLUSTER_SIZE mod (LAN_POOL_SIZE div CLUSTER_SIZE)"

lemma cluster_offset: "unat (align_down_cluster a) mod LAN_POOL_SIZE = CLUSTER_SIZE * cluster_index a"
proof -
  have "LAN_POOL_SIZE = CLUSTER_SIZE * (LAN_POOL_SIZE div CLUSTER_SIZE)"
    by (simp add: LAN_POOL_SIZE_def CLUSTER_SIZE_def)
  then show ?thesis unfolding unat_align_down cluster_index_def mult_mod_right by simp
qed

lemma cluster_in_pool: "CLUSTER_SIZE * cluster_index a + CLUSTER_SIZE \<le> LAN_POOL_SIZE"
proof -
  have "cluster_index a < LAN_POOL_SIZE div CLUSTER_SIZE"
    unfolding cluster_index_def by (rule mod_less_divisor) (simp add: LAN_POOL_SIZE_def CLUSTER_SIZE_def)
  then show ?thesis by (simp add: LAN_POOL_SIZE_def CLUSTER_SIZE_def)
qed

lemma cluster_pages_bounds: "1 \<le> unat (cluster_pages sz)" "unat (cluster_pages sz) \<le> 16"
proof -
  have p: "of_nat PAGES_PER_CLUSTER = (16 :: uint32)"
    by (simp add: PAGES_PER_CLUSTER_def CLUSTER_SIZE_def LAN_PAGE_SIZE_def)
  show "1 \<le> unat (cluster_pages sz)" "unat (cluster_pages sz) \<le> 16"
    unfolding cluster_pages_def Let_def p
    by (auto simp: Suc_le_eq unat_gt_0 word_less_nat_alt not_less)
qed

lemma unat_payload_bytes: "unat (payload_bytes sz) = unat (cluster_pages sz) * LAN_PAGE_SIZE"
  using cluster_pages_bounds(2) [of sz] unfolding payload_bytes_def LAN_PAGE_SIZE_def by (simp add: unat_word_ariths)

lemma payload_le_cluster: "unat (payload_bytes sz) \<le> CLUSTER_SIZE"
  using cluster_pages_bounds(2) [of sz] unfolding unat_payload_bytes LAN_PAGE_SIZE_def CLUSTER_SIZE_def by simp

section \<open>A memory of clusters\<close>

text \<open>What the service promises: a memory of clusters, by their index.\<close>

datatype paging_op = Fetch uint64 nat | Commit uint64 nat bytes

fun cluster_step :: "(nat \<Rightarrow> bytes) \<Rightarrow> paging_op \<Rightarrow> (bytes \<times> bool) \<times> (nat \<Rightarrow> bytes)" where
  "cluster_step mem (Fetch a sz) = ((take (unat (payload_bytes sz)) (mem (cluster_index a)), True), mem)"
| "cluster_step mem (Commit a sz src) =
    (([], True), mem(cluster_index a := blit 0 (take (unat (payload_bytes sz)) src) (mem (cluster_index a))))"

fun cluster_run :: "(nat \<Rightarrow> bytes) \<Rightarrow> paging_op list \<Rightarrow> (bytes \<times> bool) list \<times> (nat \<Rightarrow> bytes)" where
  "cluster_run mem [] = ([], mem)"
| "cluster_run mem (op # ops) =
    (case cluster_step mem op of (r, mem1) \<Rightarrow>
       (case cluster_run mem1 ops of (rs, mem2) \<Rightarrow> (r # rs, mem2)))"

definition clusters :: "pool \<Rightarrow> nat \<Rightarrow> bytes" where
  "clusters pool k = pool_read pool (CLUSTER_SIZE * k) CLUSTER_SIZE"

text \<open>The client's operations, in turn.\<close>

fun backend_apply :: "tcp_backend \<Rightarrow> paging_op \<Rightarrow> cpp_error + ((bytes \<times> bool) \<times> tcp_backend)" where
  "backend_apply b (Fetch a sz) = fetch_page_cluster b a sz"
| "backend_apply b (Commit a sz src) =
    (case commit_page_diff b a sz src of Inl e \<Rightarrow> Inl e | Inr (ok, b') \<Rightarrow> Inr (([], ok), b'))"

fun backend_run :: "tcp_backend \<Rightarrow> paging_op list \<Rightarrow> cpp_error + ((bytes \<times> bool) list \<times> tcp_backend)" where
  "backend_run b [] = Inr ([], b)"
| "backend_run b (op # ops) =
    (case backend_apply b op of
       Inl e \<Rightarrow> Inl e
     | Inr (r, b1) \<Rightarrow> (case backend_run b1 ops of Inl e \<Rightarrow> Inl e | Inr (rs, b2) \<Rightarrow> Inr (r # rs, b2)))"

text \<open>A commit needs a source that has all the bytes it sends.\<close>

fun op_valid :: "paging_op \<Rightarrow> bool" where
  "op_valid (Fetch a sz) = True"
| "op_valid (Commit a sz src) \<longleftrightarrow> unat (payload_bytes sz) \<le> length src"

text \<open>The bytes an operation puts on the wire, and those it waits for.\<close>

definition request_header :: "byte \<Rightarrow> uint64 \<Rightarrow> nat \<Rightarrow> paging_header" where
  "request_header opcode a sz =
    \<lparr>ph_magic = PAGING_MAGIC, ph_opcode = opcode, ph_reserved = [0, 0, 0],
     ph_address = align_down_cluster a, ph_page_count = cluster_pages sz, ph_payload_len = payload_bytes sz\<rparr>"

fun request_bytes :: "paging_op \<Rightarrow> bytes" where
  "request_bytes (Fetch a sz) = paging_header_image (request_header PAGING_OP_READ_CLUSTER a sz)"
| "request_bytes (Commit a sz src) =
    paging_header_image (request_header PAGING_OP_WRITE_DIFF a sz) @ take (unat (payload_bytes sz)) src"

definition reply_bytes :: "(nat \<Rightarrow> bytes) \<Rightarrow> paging_op \<Rightarrow> bytes" where
  "reply_bytes mem op = fst (fst (cluster_step mem op))"

fun all_replies :: "(nat \<Rightarrow> bytes) \<Rightarrow> paging_op list \<Rightarrow> bytes" where
  "all_replies mem [] = []"
| "all_replies mem (op # ops) = reply_bytes mem op @ all_replies (snd (cluster_step mem op)) ops"

lemma send_paging_header_request:
  "send_paging_header c opcode (align_down_cluster a) (cluster_pages sz) (payload_bytes sz) =
     conn_send c (paging_header_image (request_header opcode a sz))"
  by (simp add: send_paging_header_def request_header_def)

subsection \<open>The pool\<close>

lemma length_clusters [simp]: "length (clusters pool k) = CLUSTER_SIZE"
  by (simp add: clusters_def pool_read_def)

lemma take_clusters: "n \<le> CLUSTER_SIZE \<Longrightarrow> take n (clusters pool k) = pool_read pool (CLUSTER_SIZE * k) n"
  by (simp add: clusters_def pool_read_def take_map)

lemma nth_clusters: "i < CLUSTER_SIZE \<Longrightarrow> clusters pool k ! i = pool (CLUSTER_SIZE * k + i)"
  by (simp add: clusters_def pool_read_def)

lemma clusters_pool_write:
  assumes "length bs \<le> CLUSTER_SIZE"
  shows "clusters (pool_write pool (CLUSTER_SIZE * k) bs) = (clusters pool)(k := blit 0 bs (clusters pool k))"
proof (intro ext nth_equalityI)
  fix j
  show "length (clusters (pool_write pool (CLUSTER_SIZE * k) bs) j) =
      length (((clusters pool)(k := blit 0 bs (clusters pool k))) j)" using assms by simp
next
  fix j i assume "i < length (clusters (pool_write pool (CLUSTER_SIZE * k) bs) j)"
  then have i: "i < CLUSTER_SIZE" by simp
  have "(CLUSTER_SIZE * k \<le> CLUSTER_SIZE * j + i \<and> CLUSTER_SIZE * j + i < CLUSTER_SIZE * k + length bs) \<longleftrightarrow>
      j = k \<and> i < length bs"
  proof (cases j k rule: linorder_cases)
    case less
    then have "CLUSTER_SIZE * j + CLUSTER_SIZE \<le> CLUSTER_SIZE * k" using mult_le_mono2 [of "Suc j" k CLUSTER_SIZE] by simp
    then show ?thesis using i less by auto
  next
    case greater
    then have "CLUSTER_SIZE * k + CLUSTER_SIZE \<le> CLUSTER_SIZE * j" using mult_le_mono2 [of "Suc k" j CLUSTER_SIZE] by simp
    then show ?thesis using assms greater by auto
  qed auto
  then show "clusters (pool_write pool (CLUSTER_SIZE * k) bs) j ! i =
      ((clusters pool)(k := blit 0 bs (clusters pool k))) j ! i"
    using i assms by (auto simp: nth_clusters pool_write_def nth_blit)
qed

subsection \<open>The server's side\<close>

lemma request_header_sel [simp]:
  "ph_magic (request_header opcode a sz) = PAGING_MAGIC" "ph_opcode (request_header opcode a sz) = opcode"
  "length (ph_reserved (request_header opcode a sz)) = 3"
  "ph_address (request_header opcode a sz) = align_down_cluster a"
  "ph_page_count (request_header opcode a sz) = cluster_pages sz"
  "ph_payload_len (request_header opcode a sz) = payload_bytes sz"
  by (simp_all add: request_header_def)

text \<open>A header the client makes passes all checks of the server, and its cluster is in the pool.\<close>

lemma request_header_accepted:
  "unat (cluster_pages sz) \<noteq> 0" "\<not> PAGES_PER_CLUSTER < unat (cluster_pages sz)"
  "unat (payload_bytes sz) = unat (cluster_pages sz) * LAN_PAGE_SIZE"
  "\<not> LAN_POOL_SIZE < CLUSTER_SIZE * cluster_index a + unat (payload_bytes sz)"
proof -
  show "unat (cluster_pages sz) \<noteq> 0" using cluster_pages_bounds(1) [of sz] by linarith
  have "PAGES_PER_CLUSTER = 16" by (simp add: PAGES_PER_CLUSTER_def CLUSTER_SIZE_def LAN_PAGE_SIZE_def)
  then show "\<not> PAGES_PER_CLUSTER < unat (cluster_pages sz)" using cluster_pages_bounds(2) [of sz] by linarith
  show "unat (payload_bytes sz) = unat (cluster_pages sz) * LAN_PAGE_SIZE" by (rule unat_payload_bytes)
  show "\<not> LAN_POOL_SIZE < CLUSTER_SIZE * cluster_index a + unat (payload_bytes sz)"
    using cluster_in_pool [of a] payload_le_cluster [of sz] by linarith
qed

lemma payload_small: "unat (payload_bytes sz) < 2 ^ 31"
  using payload_le_cluster [of sz] by (simp add: CLUSTER_SIZE_def)

lemma serve_fetch:
  assumes "stream (incoming s) = request_bytes (Fetch a sz) @ rest"
    and "sends_at_least (unat (payload_bytes sz) + n) (accepting s)"
  obtains s' where
    "paging_request pool s = Inr (True, pool, s')" "stream (incoming s') = rest"
    "outgoing s' = outgoing s @ reply_bytes (clusters pool) (Fetch a sz)" "sends_at_least n (accepting s')"
proof -
  obtain evs where h: "recv_paging_header s = (Some (request_header PAGING_OP_READ_CLUSTER a sz), s\<lparr>incoming := evs\<rparr>)"
    and rest: "stream evs = rest"
    using recv_paging_header_ok [of s "request_header PAGING_OP_READ_CLUSTER a sz" rest] assms(1) by auto
  let ?data = "pool_read pool (CLUSTER_SIZE * cluster_index a) (unat (payload_bytes sz))"
  have "length ?data = unat (payload_bytes sz)" by (simp add: pool_read_def)
  then obtain acc where
    "conn_send (s\<lparr>incoming := evs\<rparr>) ?data = (True, s\<lparr>incoming := evs, accepting := acc, outgoing := outgoing s @ ?data\<rparr>)"
    and acc: "sends_at_least n acc"
    using conn_send_ok [of ?data n "s\<lparr>incoming := evs\<rparr>"] assms(2) by auto
  then have "paging_request pool s = Inr (True, pool, s\<lparr>incoming := evs, accepting := acc, outgoing := outgoing s @ ?data\<rparr>)"
    using request_header_accepted(1-3) [of sz] request_header_accepted(4) [of a sz]
    by (simp add: paging_request_def h Let_def cluster_offset)
  moreover have "reply_bytes (clusters pool) (Fetch a sz) = ?data"
    using payload_le_cluster [of sz] by (simp add: reply_bytes_def take_clusters)
  ultimately show thesis using rest acc by (intro that) auto
qed

lemma serve_commit:
  assumes "stream (incoming s) = request_bytes (Commit a sz src) @ rest"
    and "unat (payload_bytes sz) \<le> length src" "sends_at_least n (accepting s)"
  obtains pool' s' where
    "paging_request pool s = Inr (True, pool', s')" "stream (incoming s') = rest"
    "clusters pool' = snd (cluster_step (clusters pool) (Commit a sz src))"
    "outgoing s' = outgoing s" "sends_at_least n (accepting s')"
proof -
  let ?data = "take (unat (payload_bytes sz)) src"
  obtain evs where h: "recv_paging_header s = (Some (request_header PAGING_OP_WRITE_DIFF a sz), s\<lparr>incoming := evs\<rparr>)"
    and evs: "stream evs = ?data @ rest"
    using recv_paging_header_ok [of s "request_header PAGING_OP_WRITE_DIFF a sz" "?data @ rest"] assms(1) by auto
  have len: "length ?data = unat (payload_bytes sz)" using assms(2) by simp
  obtain evs' where
    "conn_recv (s\<lparr>incoming := evs\<rparr>) (unat (payload_bytes sz)) = ((?data, True), s\<lparr>incoming := evs'\<rparr>)"
    and rest: "stream evs' = rest"
    using conn_recv_ok [of "s\<lparr>incoming := evs\<rparr>" ?data rest] evs len payload_small [of sz] by auto
  then have "paging_request pool s =
      Inr (True, pool_write pool (CLUSTER_SIZE * cluster_index a) ?data, s\<lparr>incoming := evs'\<rparr>)"
    using request_header_accepted(1-3) [of sz] request_header_accepted(4) [of a sz]
    by (simp add: paging_request_def h Let_def cluster_offset PAGING_OP_READ_CLUSTER_def PAGING_OP_WRITE_DIFF_def)
  moreover have "clusters (pool_write pool (CLUSTER_SIZE * cluster_index a) ?data) =
      snd (cluster_step (clusters pool) (Commit a sz src))"
    using payload_le_cluster [of sz] len by (simp add: clusters_pool_write)
  ultimately show thesis
    using rest assms(3) by (intro that [of _ "s\<lparr>incoming := evs'\<rparr>"]) simp_all
qed

lemma serve_op:
  assumes "stream (incoming s) = request_bytes op @ rest" "op_valid op"
    and "sends_at_least (length (reply_bytes (clusters pool) op) + n) (accepting s)"
  obtains pool' s' where
    "paging_request pool s = Inr (True, pool', s')" "stream (incoming s') = rest"
    "clusters pool' = snd (cluster_step (clusters pool) op)"
    "outgoing s' = outgoing s @ reply_bytes (clusters pool) op" "sends_at_least n (accepting s')"
proof (cases op)
  case (Fetch a sz)
  have "length (reply_bytes (clusters pool) op) = unat (payload_bytes sz)"
    using payload_le_cluster [of sz] Fetch by (simp add: reply_bytes_def)
  then obtain s' where "paging_request pool s = Inr (True, pool, s')" "stream (incoming s') = rest"
    "outgoing s' = outgoing s @ reply_bytes (clusters pool) op" "sends_at_least n (accepting s')"
    using serve_fetch [of s a sz rest n pool] assms Fetch by metis
  then show thesis using Fetch by (intro that [of pool s']) simp_all
next
  case (Commit a sz src)
  have "sends_at_least n (accepting s)" using assms(3) by (rule sends_at_least_mono) simp
  moreover have "unat (payload_bytes sz) \<le> length src" using assms(2) Commit by simp
  ultimately obtain pool' s' where "paging_request pool s = Inr (True, pool', s')" "stream (incoming s') = rest"
    "clusters pool' = snd (cluster_step (clusters pool) op)" "outgoing s' = outgoing s" "sends_at_least n (accepting s')"
    using serve_commit [of s a sz src rest n pool] assms(1) Commit by metis
  then show thesis using Commit by (intro that [of pool' s']) (simp_all add: reply_bytes_def)
qed

text \<open>When the requests end, the next header cannot be read and the handler leaves its loop.\<close>

lemma serve_end: "stream (incoming s) = [] \<Longrightarrow> \<exists>evs. handle_loop (replicate n True) pool s = Inr (pool, s\<lparr>incoming := evs\<rparr>)"
proof (cases n)
  case 0
  then show ?thesis by (intro exI [of _ "incoming s"]) simp
next
  case (Suc m)
  assume "stream (incoming s) = []"
  then obtain evs where "conn_recv s 24 = (([], False), s\<lparr>incoming := evs\<rparr>)"
    using conn_recv_short [of s 24] by auto
  then show ?thesis using Suc by (auto simp: paging_request_def recv_paging_header_def)
qed

lemma serve_run:
  assumes "stream (incoming s) = concat (map request_bytes ops)" "list_all op_valid ops"
    and "sends_at_least (length (all_replies (clusters pool) ops)) (accepting s)" "length ops \<le> n"
  shows "\<exists>pool' s'. handle_loop (replicate n True) pool s = Inr (pool', s') \<and>
    clusters pool' = snd (cluster_run (clusters pool) ops) \<and>
    outgoing s' = outgoing s @ all_replies (clusters pool) ops"
  using assms
proof (induction ops arbitrary: pool s n)
  case Nil
  then show ?case using serve_end [of s n pool] by auto
next
  case (Cons op ops)
  obtain m where n: "n = Suc m" using Cons.prems(4) by (cases n) auto
  obtain pool1 s1 where
    1: "paging_request pool s = Inr (True, pool1, s1)" "stream (incoming s1) = concat (map request_bytes ops)"
       "clusters pool1 = snd (cluster_step (clusters pool) op)"
       "outgoing s1 = outgoing s @ reply_bytes (clusters pool) op"
       "sends_at_least (length (all_replies (clusters pool1) ops)) (accepting s1)"
    using serve_op [of s op "concat (map request_bytes ops)" pool
        "length (all_replies (snd (cluster_step (clusters pool) op)) ops)"] Cons.prems by auto
  have "length ops \<le> m" "list_all op_valid ops" using Cons.prems(2,4) n by auto
  from Cons.IH [OF 1(2) this(2) 1(5) this(1)] show ?case
    using 1 n by (auto split: prod.splits)
qed

subsection \<open>The client's side\<close>

definition connected :: "tcp_backend \<Rightarrow> conn \<Rightarrow> bool" where
  "connected b c \<longleftrightarrow> tb_initialized b \<and> tb_socket b = Some c"

lemma connected_update: "connected b c \<Longrightarrow> connected (b\<lparr>tb_socket := Some c'\<rparr>) c'"
  by (simp add: connected_def)

lemma client_fetch:
  assumes "connected b c" "length data = unat (payload_bytes sz)" "stream (incoming c) = data @ rest"
    and "sends_at_least (length (request_bytes (Fetch a sz)) + n) (accepting c)"
  obtains b' c' where
    "fetch_page_cluster b a sz = Inr ((data, True), b')" "connected b' c'" "stream (incoming c') = rest"
    "outgoing c' = outgoing c @ request_bytes (Fetch a sz)" "sends_at_least n (accepting c')"
proof -
  let ?h = "paging_header_image (request_header PAGING_OP_READ_CLUSTER a sz)"
  obtain acc where 1: "conn_send c ?h = (True, c\<lparr>accepting := acc, outgoing := outgoing c @ ?h\<rparr>)"
    and acc: "sends_at_least n acc"
    using conn_send_ok [of ?h n c] assms(4) by auto
  let ?c1 = "c\<lparr>accepting := acc, outgoing := outgoing c @ ?h\<rparr>"
  obtain evs where 2: "conn_recv ?c1 (unat (payload_bytes sz)) = ((data, True), ?c1\<lparr>incoming := evs\<rparr>)"
    and evs: "stream evs = rest"
    using conn_recv_ok [of ?c1 data rest] assms(2,3) payload_small [of sz] by auto
  have "fetch_page_cluster b a sz = Inr ((data, True), b\<lparr>tb_socket := Some (?c1\<lparr>incoming := evs\<rparr>)\<rparr>)"
    using assms(1) 1 2 by (simp add: fetch_page_cluster_def connected_def send_paging_header_request)
  from this connected_update [OF assms(1)] show thesis by (rule that) (simp_all add: acc evs)
qed

lemma client_commit:
  assumes "connected b c" "unat (payload_bytes sz) \<le> length src"
    and "sends_at_least (length (request_bytes (Commit a sz src)) + n) (accepting c)"
  obtains b' c' where
    "commit_page_diff b a sz src = Inr (True, b')" "connected b' c'" "incoming c' = incoming c"
    "outgoing c' = outgoing c @ request_bytes (Commit a sz src)" "sends_at_least n (accepting c')"
proof -
  let ?h = "paging_header_image (request_header PAGING_OP_WRITE_DIFF a sz)"
  let ?data = "take (unat (payload_bytes sz)) src"
  obtain acc where 1: "conn_send c ?h = (True, c\<lparr>accepting := acc, outgoing := outgoing c @ ?h\<rparr>)"
    and acc: "sends_at_least (length ?data + n) acc"
    using conn_send_ok [of ?h "length ?data + n" c] assms(3) by (auto simp: add.assoc)
  let ?c1 = "c\<lparr>accepting := acc, outgoing := outgoing c @ ?h\<rparr>"
  let ?c2 = "\<lambda>acc'. ?c1\<lparr>accepting := acc', outgoing := outgoing ?c1 @ ?data\<rparr>"
  have "sends_at_least (length ?data + n) (accepting ?c1)" using acc by simp
  then obtain acc' where 2: "conn_send ?c1 ?data = (True, ?c2 acc')" and acc': "sends_at_least n acc'"
    by (rule conn_send_ok)
  have "commit_page_diff b a sz src = Inr (True, b\<lparr>tb_socket := Some (?c2 acc')\<rparr>)"
    using assms(1,2) 1 2 by (simp add: commit_page_diff_def connected_def send_paging_header_request)
  from this connected_update [OF assms(1)] show thesis by (rule that) (simp_all add: acc')
qed

lemma client_op:
  assumes "connected b c" "op_valid op" "stream (incoming c) = reply_bytes (clusters pool) op @ rest"
    and "sends_at_least (length (request_bytes op) + n) (accepting c)"
  obtains b' c' where
    "backend_apply b op = Inr (fst (cluster_step (clusters pool) op), b')" "connected b' c'"
    "stream (incoming c') = rest" "outgoing c' = outgoing c @ request_bytes op" "sends_at_least n (accepting c')"
proof (cases op)
  case (Fetch a sz)
  let ?data = "reply_bytes (clusters pool) op"
  have "length ?data = unat (payload_bytes sz)" "fst (cluster_step (clusters pool) op) = (?data, True)"
    using payload_le_cluster [of sz] Fetch by (simp_all add: reply_bytes_def)
  then obtain b' c' where "fetch_page_cluster b a sz = Inr ((?data, True), b')" "connected b' c'"
    "stream (incoming c') = rest" "outgoing c' = outgoing c @ request_bytes op" "sends_at_least n (accepting c')"
    using client_fetch [OF assms(1), of ?data sz rest a n] assms(3,4) Fetch by metis
  then show thesis using Fetch by (intro that [of b' c']) (simp_all add: reply_bytes_def)
next
  case (Commit a sz src)
  then have "unat (payload_bytes sz) \<le> length src" "stream (incoming c) = rest"
    "fst (cluster_step (clusters pool) op) = ([], True)"
    using assms(2,3) by (simp_all add: reply_bytes_def)
  then obtain b' c' where "commit_page_diff b a sz src = Inr (True, b')" "connected b' c'"
    "incoming c' = incoming c" "outgoing c' = outgoing c @ request_bytes op" "sends_at_least n (accepting c')"
    using client_commit [OF assms(1), of sz src a n] assms(4) Commit by metis
  then show thesis using Commit \<open>stream (incoming c) = rest\<close> by (intro that [of b' c']) simp_all
qed

text \<open>The replies depend on the memory as a function only, so that the run of the client follows the
  pool as its clusters change.\<close>

lemma clusters_after_step:
  assumes "op_valid op" obtains pool' where "clusters pool' = snd (cluster_step (clusters pool) op)"
proof (cases op)
  case (Fetch a sz)
  then show thesis by (intro that [of pool]) simp
next
  case (Commit a sz src)
  then show thesis using payload_le_cluster [of sz]
    by (intro that [of "pool_write pool (CLUSTER_SIZE * cluster_index a) (take (unat (payload_bytes sz)) src)"])
      (simp add: clusters_pool_write)
qed

lemma client_run:
  assumes "connected b c" "list_all op_valid ops" "stream (incoming c) = all_replies (clusters pool) ops"
    and "sends_at_least (length (concat (map request_bytes ops))) (accepting c)"
  shows "\<exists>b' c'. backend_run b ops = Inr (fst (cluster_run (clusters pool) ops), b') \<and> connected b' c' \<and>
    outgoing c' = outgoing c @ concat (map request_bytes ops)"
  using assms
proof (induction ops arbitrary: pool b c)
  case Nil
  then show ?case by auto
next
  case (Cons op ops)
  obtain b1 c1 where
    1: "backend_apply b op = Inr (fst (cluster_step (clusters pool) op), b1)" "connected b1 c1"
       "stream (incoming c1) = all_replies (snd (cluster_step (clusters pool) op)) ops"
       "outgoing c1 = outgoing c @ request_bytes op"
       "sends_at_least (length (concat (map request_bytes ops))) (accepting c1)"
    using client_op [of b c op pool "all_replies (snd (cluster_step (clusters pool) op)) ops" "length (concat (map request_bytes ops))"] Cons.prems by auto
  obtain pool1 where pool1: "clusters pool1 = snd (cluster_step (clusters pool) op)"
    using clusters_after_step Cons.prems(2) by auto
  have "list_all op_valid ops" using Cons.prems(2) by simp
  from Cons.IH [OF 1(2) this 1(3) [folded pool1] 1(5)] show ?case
    using 1 pool1 by (auto split: prod.splits)
qed

subsection \<open>Both sides together\<close>

text \<open>Property C10. The client and the server are a memory of clusters. For every sequence of fetches and commits there are a
  stream of requests and a stream of replies with which the two programs agree: a connected client whose
  socket delivers the replies, in pieces of any size, completes every operation with the results of the
  memory and sends exactly the requests; and the server whose socket delivers the requests, in pieces of
  any size, answers with exactly the replies, ends without touching memory outside the pool, and leaves
  a pool with the contents of the memory.\<close>

theorem paging_service_is_memory:
  assumes "list_all op_valid ops"
  shows "\<exists>requests replies.
    (\<forall>b c. connected b c \<and> stream (incoming c) = replies \<and> sends_at_least (length requests) (accepting c) \<longrightarrow>
       (\<exists>b' c'. backend_run b ops = Inr (fst (cluster_run (clusters pool) ops), b') \<and> connected b' c' \<and>
          outgoing c' = outgoing c @ requests)) \<and>
    (\<forall>s n. stream (incoming s) = requests \<and> sends_at_least (length replies) (accepting s) \<and> length ops \<le> n \<longrightarrow>
       (\<exists>pool' s' ctx. handle_client (replicate n True) pool s = Inr (pool', s', ctx) \<and>
          clusters pool' = snd (cluster_run (clusters pool) ops) \<and> outgoing s' = outgoing s @ replies))"
proof (rule exI [of _ "concat (map request_bytes ops)"], rule exI [of _ "all_replies (clusters pool) ops"],
    intro conjI allI impI)
  fix b c
  assume "connected b c \<and> stream (incoming c) = all_replies (clusters pool) ops \<and>
    sends_at_least (length (concat (map request_bytes ops))) (accepting c)"
  then show "\<exists>b' c'. backend_run b ops = Inr (fst (cluster_run (clusters pool) ops), b') \<and> connected b' c' \<and>
      outgoing c' = outgoing c @ concat (map request_bytes ops)"
    using client_run assms by blast
next
  fix s :: conn and n
  assume "stream (incoming s) = concat (map request_bytes ops) \<and>
    sends_at_least (length (all_replies (clusters pool) ops)) (accepting s) \<and> length ops \<le> n"
  then obtain pool' s' where "handle_loop (replicate n True) pool s = Inr (pool', s')"
    "clusters pool' = snd (cluster_run (clusters pool) ops)" "outgoing s' = outgoing s @ all_replies (clusters pool) ops"
    using serve_run assms by blast
  then show "\<exists>pool' s' ctx. handle_client (replicate n True) pool s = Inr (pool', s', ctx) \<and>
      clusters pool' = snd (cluster_run (clusters pool) ops) \<and> outgoing s' = outgoing s @ all_replies (clusters pool) ops"
    by (simp add: handle_client_def)
qed

theorem paging_service_is_memory_witness:
  "\<exists>requests replies.
    (\<forall>b c. connected b c \<and> stream (incoming c) = replies \<and> sends_at_least (length requests) (accepting c) \<longrightarrow>
       (\<exists>b' c'. backend_run b [Commit 0x10000 4096 (replicate 4096 7), Fetch 0x10008 4096] =
            Inr ([([], True), (replicate 4096 7, True)], b') \<and> connected b' c' \<and> outgoing c' = outgoing c @ requests)) \<and>
    (\<forall>s n. stream (incoming s) = requests \<and> sends_at_least (length replies) (accepting s) \<and> 2 \<le> n \<longrightarrow>
       (\<exists>pool' s' ctx. handle_client (replicate n True) (\<lambda>_. 0) s = Inr (pool', s', ctx) \<and> outgoing s' = outgoing s @ replies))"
proof -
  define d where "d = replicate 4096 (7 :: byte)"
  then have d: "length d = 4096" by simp
  let ?ops = "[Commit 0x10000 4096 d, Fetch 0x10008 4096]"
  have len: "unat (payload_bytes 4096) = 4096"
    by (simp add: payload_bytes_def cluster_pages_def u64_add_def W64_def LAN_PAGE_SIZE_def
        PAGES_PER_CLUSTER_def CLUSTER_SIZE_def)
  have idx: "cluster_index 0x10000 = 1" "cluster_index 0x10008 = 1"
    by (simp_all add: cluster_index_def CLUSTER_SIZE_def LAN_POOL_SIZE_def)
  have res: "fst (cluster_run (clusters (\<lambda>_. 0)) ?ops) = [([], True), (d, True)]"
    by (simp add: len idx blit_def d)
  have two: "length ?ops = 2" by simp
  have "list_all op_valid ?ops" by (simp add: len d)
  from paging_service_is_memory [OF this, where pool = "\<lambda>_. 0", unfolded res two] show ?thesis
    unfolding d_def [symmetric] by (elim exE conjE, intro exI conjI) (assumption, blast)
qed

section \<open>Faults\<close>

lemma payload_whole_cluster: "unat (payload_bytes CLUSTER_SIZE) = CLUSTER_SIZE"
  by (simp add: payload_bytes_def cluster_pages_def u64_add_def W64_def LAN_PAGE_SIZE_def
      PAGES_PER_CLUSTER_def CLUSTER_SIZE_def)

lemma cluster_index_align: "cluster_index (align_down_cluster a) = cluster_index a"
  unfolding cluster_index_def unat_align_down by (simp add: CLUSTER_SIZE_def)

text \<open>In a heap of whole clusters the handler commits no page outside of the heap.\<close>

lemma fault_cluster_in_heap:
  assumes "lan_contains h addr" "CLUSTER_SIZE dvd lh_base h" "CLUSTER_SIZE dvd lh_size h"
    and "lh_base h + lh_size h < W64"
  shows "lh_base h \<le> unat (align_down_cluster (of_nat addr))"
    and "unat (align_down_cluster (of_nat addr)) + CLUSTER_SIZE \<le> lh_base h + lh_size h"
proof -
  obtain i j where ij: "lh_base h = CLUSTER_SIZE * i" "lh_size h = CLUSTER_SIZE * j"
    using assms(2,3) by (auto simp: dvd_def)
  have c: "0 < CLUSTER_SIZE" by (simp add: CLUSTER_SIZE_def)
  have addr: "CLUSTER_SIZE * i \<le> addr" "addr < CLUSTER_SIZE * (i + j)"
    using assms(1,4) by (simp_all add: lan_contains_def u64_add_exact ij distrib_left)
  have "addr < W64" using addr(2) assms(4) by (simp add: ij distrib_left)
  then have "unat (of_nat addr :: uint64) = addr" by (simp add: unat_of_nat W64_def)
  moreover have "i \<le> addr div CLUSTER_SIZE" "addr div CLUSTER_SIZE < i + j"
    using addr c by (simp_all add: less_eq_div_iff_mult_less_eq div_less_iff_less_mult mult.commute)
  ultimately show "lh_base h \<le> unat (align_down_cluster (of_nat addr))"
    and "unat (align_down_cluster (of_nat addr)) + CLUSTER_SIZE \<le> lh_base h + lh_size h"
    using mult_le_mono2 [of "Suc (addr div CLUSTER_SIZE)" "i + j" CLUSTER_SIZE]
    by (simp_all add: unat_align_down ij distrib_left)
qed

text \<open>A fault is answered with the cluster the server has, whatever the heap had there before: the
  handler does not ask whether the cluster is already committed, so that a second fault of the same
  cluster, raised before the first was answered, drops what was stored in between.\<close>

lemma fault_fetches_cluster:
  assumes "er_code r = EXCEPTION_ACCESS_VIOLATION" "2 \<le> er_parameters r"
    and "lan_contains heap (er_address r)" "lh_backend heap = Some b" "connected b c"
    and "case lh_pages heap (align_down_cluster (of_nat (er_address r))) of Some bs \<Rightarrow> length bs = CLUSTER_SIZE | None \<Rightarrow> True"
    and "stream (incoming c) = clusters pool (cluster_index (of_nat (er_address r))) @ rest"
    and "sends_at_least (24 + n) (accepting c)"
  obtains heap' b' c' where
    "LanVectoredHandler r True (Some heap) = Inr (ContinueExecution, Some heap')"
    "lh_pages heap' = (lh_pages heap)(align_down_cluster (of_nat (er_address r)) \<mapsto>
       clusters pool (cluster_index (of_nat (er_address r))))"
    "lh_backend heap' = Some b'" "connected b' c'" "stream (incoming c') = rest"
proof -
  let ?base = "align_down_cluster (of_nat (er_address r))"
  let ?data = "clusters pool (cluster_index (of_nat (er_address r)))"
  have "length (request_bytes (Fetch ?base CLUSTER_SIZE)) = 24" by (simp add: length_paging_header_image)
  then have "sends_at_least (length (request_bytes (Fetch ?base CLUSTER_SIZE)) + n) (accepting c)"
    using assms(8) by simp
  moreover have "length ?data = unat (payload_bytes CLUSTER_SIZE)" by (simp add: payload_whole_cluster)
  ultimately obtain b' c' where
    f: "fetch_page_cluster b ?base CLUSTER_SIZE = Inr ((?data, True), b')" "connected b' c'" "stream (incoming c') = rest"
    using client_fetch [OF assms(5) _ assms(7)] by blast
  let ?before = "case lh_pages heap ?base of Some bs \<Rightarrow> bs | None \<Rightarrow> replicate CLUSTER_SIZE 0"
  have "length ?before = CLUSTER_SIZE" using assms(6) by (simp split: option.splits)
  then have "blit 0 ?data ?before = ?data" by (simp add: blit_def)
  then have "LanVectoredHandler r True (Some heap) = Inr (ContinueExecution,
      Some (heap\<lparr>lh_backend := Some b', lh_pages := (lh_pages heap)(?base \<mapsto> ?data)\<rparr>))"
    using assms(1-4) f(1) by (simp add: LanVectoredHandler_def Let_def)
  then show thesis using f(2,3) by (intro that) auto
qed

text \<open>A handler that cannot fetch never reports the fault as handled.\<close>

lemma fault_without_backend:
  assumes "LanVectoredHandler r committed (Some heap) = Inr (ContinueExecution, current')"
  shows "\<exists>b. lh_backend heap = Some b \<and> tb_initialized b \<and> tb_socket b \<noteq> None \<and>
    lan_contains heap (er_address r) \<and> committed"
  using assms by (auto simp: LanVectoredHandler_def fetch_page_cluster_def Let_def
      split: if_splits option.splits sum.splits prod.splits)

section \<open>Errors\<close>

text \<open>A transfer that fails locks the mutex twice.\<close>

lemma fetch_failure_relocks:
  assumes "connected b c" "sends_at_least 24 (accepting c)"
    and "length (stream (incoming c)) < unat (payload_bytes sz)"
  shows "fetch_page_cluster b a sz = Inl UndefinedBehaviour"
proof -
  let ?h = "paging_header_image (request_header PAGING_OP_READ_CLUSTER a sz)"
  have "length ?h = 24" by (simp add: length_paging_header_image)
  then obtain acc where 1: "conn_send c ?h = (True, c\<lparr>accepting := acc, outgoing := outgoing c @ ?h\<rparr>)"
    using conn_send_ok [of ?h 0 c] assms(2) by auto
  obtain evs where "conn_recv (c\<lparr>accepting := acc, outgoing := outgoing c @ ?h\<rparr>) (unat (payload_bytes sz)) =
      ((stream (incoming c), False), c\<lparr>accepting := acc, outgoing := outgoing c @ ?h, incoming := evs\<rparr>)"
    using conn_recv_short [of "c\<lparr>accepting := acc, outgoing := outgoing c @ ?h\<rparr>" "unat (payload_bytes sz)"]
      assms(3) payload_small [of sz] by auto
  then show ?thesis using assms(1) 1 by (simp add: fetch_page_cluster_def connected_def send_paging_header_request)
qed

text \<open>A fetch stores whole pages, also when the caller asked for fewer bytes.\<close>

lemma fetch_stores_whole_pages:
  assumes "fetch_page_cluster b a sz = Inr ((data, True), b')"
  shows "length data = unat (cluster_pages sz) * LAN_PAGE_SIZE"
proof -
  have len: "length bs = unat (payload_bytes sz)"
    if "conn_recv c (unat (payload_bytes sz)) = ((bs, True), c')" for c c' bs
    using recv_exact_stream [OF payload_small [of sz], of "incoming c" "[]"] that
    by (auto simp: conn_recv_def split: prod.splits)
  from assms show ?thesis unfolding unat_payload_bytes [symmetric]
    by (auto simp: fetch_page_cluster_def split: if_splits option.splits prod.splits dest: len)
qed

text \<open>The server reads past its pool when a header names an unaligned address near its end.\<close>

lemma server_overruns_pool:
  assumes "stream (incoming s) = paging_header_image
    \<lparr>ph_magic = PAGING_MAGIC, ph_opcode = PAGING_OP_READ_CLUSTER, ph_reserved = [0, 0, 0],
     ph_address = of_nat (LAN_POOL_SIZE - LAN_PAGE_SIZE), ph_page_count = 2, ph_payload_len = 8192\<rparr> @ rest"
  shows "paging_request pool s = Inl UndefinedBehaviour"
proof -
  obtain evs where "recv_paging_header s = (Some
    \<lparr>ph_magic = PAGING_MAGIC, ph_opcode = PAGING_OP_READ_CLUSTER, ph_reserved = [0, 0, 0],
     ph_address = of_nat (LAN_POOL_SIZE - LAN_PAGE_SIZE), ph_page_count = 2, ph_payload_len = 8192\<rparr>, s\<lparr>incoming := evs\<rparr>)"
    using recv_paging_header_ok [OF assms] by auto
  then show ?thesis
    by (simp add: paging_request_def Let_def PAGES_PER_CLUSTER_def LAN_PAGE_SIZE_def CLUSTER_SIZE_def LAN_POOL_SIZE_def)
qed

text \<open>A failed start releases all it has acquired.\<close>

lemma paging_main_balanced:
  assumes "paging_main env = (Some code, log)"
  shows "code = 1" "count_list log Startup = count_list log Cleanup"
    "count_list log PoolAlloc = count_list log PoolFree" "open_sockets log = 0"
  using assms by (auto simp: paging_main_def open_sockets_def split: if_splits)

text \<open>Accepting a client when the vector is full leaves the threads of all earlier clients with a
  reference to storage that was released.\<close>

definition refs_known :: "accept_state \<Rightarrow> bool" where
  "refs_known st \<longleftrightarrow> list_all (\<lambda>g. g \<le> as_generation st) (as_refs st) \<and> length (as_refs st) \<le> as_capacity st"

lemma accept_keeps_refs_known:
  "refs_known st \<Longrightarrow> (\<And>n. n < grow n) \<Longrightarrow> refs_known (accept_client grow accepted st)"
  by (auto simp: refs_known_def accept_client_def Let_def list_all_iff le_Suc_eq Suc_le_eq)

lemma accept_full_dangles:
  assumes "refs_known st" "length (as_refs st) = as_capacity st" "i < length (as_refs st)"
  shows "dangling (accept_client grow True st) i"
proof -
  have "as_refs st ! i \<le> as_generation st" using assms(1,3) by (auto simp: refs_known_def list_all_iff)
  then show ?thesis using assms(2,3) by (simp add: dangling_def accept_client_def Let_def nth_append)
qed

end
