(* ===== verification/LanGpu.thy ===== *)
theory LanGpu
  imports WinSocket HeapArena
begin

text \<open>
  Remote CUDA calls on Windows (\<open>windows-lan-sharing/\<close>): the wire structures
  (\<open>common/GpuWireProtocol.hpp\<close>), the table of synthetic device pointers
  (\<open>client/DevicePointerTracker.hpp\<close>), the library that stands in for the CUDA runtime
  (\<open>client/cuda_proxy.cpp\<close>) and the server (\<open>server/gpu_server.cu\<close>). The CUDA runtime of the server is
  a record of functions on a device state of any type. The main theorem shows that allocation, release
  and synchronisation through the proxy are the calls of the server's runtime, with the pointers
  translated; the copies do not work, which the last section shows.
\<close>

section \<open>Protocol\<close>

definition GPU_MAGIC :: uint32 where
  "GPU_MAGIC = 0x47505531"

definition GPU_CMD_MALLOC :: byte where "GPU_CMD_MALLOC = 1"
definition GPU_CMD_MEMCPY_H2D :: byte where "GPU_CMD_MEMCPY_H2D = 2"
definition GPU_CMD_MEMCPY_D2H :: byte where "GPU_CMD_MEMCPY_D2H = 3"
definition GPU_CMD_SYNCHRONIZE :: byte where "GPU_CMD_SYNCHRONIZE = 4"
definition GPU_CMD_FREE :: byte where "GPU_CMD_FREE = 5"
definition GPU_RESP_SUCCESS :: byte where "GPU_RESP_SUCCESS = 0x80"
definition GPU_RESP_ERROR :: byte where "GPU_RESP_ERROR = 0x81"
definition GPU_RESP_MALLOC_RESULT :: byte where "GPU_RESP_MALLOC_RESULT = 0x82"
definition GPU_RESP_MEMCPY_D2H :: byte where "GPU_RESP_MEMCPY_D2H = 0x83"

definition GPU_FLAG_NONE :: byte where "GPU_FLAG_NONE = 0"
definition GPU_FLAG_ASYNC :: byte where "GPU_FLAG_ASYNC = 1"

lemmas gpu_codes = GPU_CMD_MALLOC_def GPU_CMD_MEMCPY_H2D_def GPU_CMD_MEMCPY_D2H_def
  GPU_CMD_SYNCHRONIZE_def GPU_CMD_FREE_def GPU_RESP_SUCCESS_def GPU_RESP_ERROR_def
  GPU_RESP_MALLOC_RESULT_def GPU_RESP_MEMCPY_D2H_def

record gpu_header =
  gh_magic :: uint32
  gh_opcode :: byte
  gh_flags :: byte
  gh_reserved :: uint16
  gh_sequence_id :: uint32
  gh_payload_len :: uint32

text \<open>The packed structure, 16 bytes.\<close>

definition gpu_header_image :: "gpu_header \<Rightarrow> bytes" where
  "gpu_header_image h =
    le_image 4 (gh_magic h) @ [gh_opcode h, gh_flags h] @ le_image 2 (gh_reserved h) @
    le_image 4 (gh_sequence_id h) @ le_image 4 (gh_payload_len h)"

definition gpu_header_of :: "bytes \<Rightarrow> gpu_header" where
  "gpu_header_of bs =
    \<lparr>gh_magic = le_value (peek 0 4 bs), gh_opcode = bs ! 4, gh_flags = bs ! 5,
     gh_reserved = le_value (peek 6 2 bs), gh_sequence_id = le_value (peek 8 4 bs),
     gh_payload_len = le_value (peek 12 4 bs)\<rparr>"

definition send_gpu_header :: "conn \<Rightarrow> byte \<Rightarrow> byte \<Rightarrow> uint32 \<Rightarrow> uint32 \<Rightarrow> bool \<times> conn" where
  "send_gpu_header c opcode flags sequence_id payload_len =
    conn_send c (gpu_header_image
      \<lparr>gh_magic = GPU_MAGIC, gh_opcode = opcode, gh_flags = flags, gh_reserved = 0,
       gh_sequence_id = sequence_id, gh_payload_len = payload_len\<rparr>)"

definition recv_gpu_header :: "conn \<Rightarrow> gpu_header option \<times> conn" where
  "recv_gpu_header c =
    (case conn_recv c 16 of ((bs, ok), c1) \<Rightarrow>
       if \<not> ok then (None, c1)
       else if gh_magic (gpu_header_of bs) \<noteq> GPU_MAGIC then (None, c1)
       else (Some (gpu_header_of bs), c1))"

text \<open>The payloads: a request to allocate (size, alignment, reserved), its answer (pointer, error code,
  reserved), a request to copy, to synchronise and to free.\<close>

definition malloc_req :: "uint64 \<Rightarrow> uint32 \<Rightarrow> bytes" where
  "malloc_req sz alignment = le_image 8 sz @ le_image 4 alignment @ le_image 4 (0 :: uint32)"

definition malloc_resp :: "uint64 \<Rightarrow> uint32 \<Rightarrow> bytes" where
  "malloc_resp device_ptr error_code = le_image 8 device_ptr @ le_image 4 error_code @ le_image 4 (0 :: uint32)"

definition memcpy_req :: "uint64 \<Rightarrow> uint64 \<Rightarrow> uint64 \<Rightarrow> uint32 \<Rightarrow> bytes" where
  "memcpy_req dst_ptr src_ptr sz kind =
    le_image 8 dst_ptr @ le_image 8 src_ptr @ le_image 8 sz @ le_image 4 kind @ le_image 4 (0 :: uint32)"

definition sync_req :: "uint64 \<Rightarrow> bytes" where
  "sync_req strm = le_image 8 strm"

definition free_req :: "uint64 \<Rightarrow> bytes" where
  "free_req device_ptr = le_image 8 device_ptr"

section \<open>Device pointers\<close>

record pointer_tracker =
  pt_map :: "uint64 \<rightharpoonup> uint64 \<times> nat"
  pt_next :: uint64

definition tracker_new :: pointer_tracker where
  "tracker_new = \<lparr>pt_map = Map.empty, pt_next = 0x10000000000\<rparr>"

definition tracker_allocate :: "pointer_tracker \<Rightarrow> uint64 \<Rightarrow> nat \<Rightarrow> uint64 \<times> pointer_tracker" where
  "tracker_allocate t remote_ptr sz =
    (let synthetic = pt_next t;
         synthetic = (synthetic + 4095) AND NOT 4095
     in (synthetic, t\<lparr>pt_next := pt_next t + 4096, pt_map := (pt_map t)(synthetic \<mapsto> (remote_ptr, sz))\<rparr>))"

definition tracker_free :: "pointer_tracker \<Rightarrow> uint64 \<Rightarrow> bool \<times> pointer_tracker" where
  "tracker_free t synthetic =
    (if pt_map t synthetic = None then (False, t)
     else (True, t\<lparr>pt_map := (pt_map t)(synthetic := None)\<rparr>))"

definition get_remote :: "pointer_tracker \<Rightarrow> uint64 \<Rightarrow> (uint64 \<times> nat) option" where
  "get_remote t synthetic = pt_map t synthetic"

section \<open>Server\<close>

text \<open>The CUDA runtime: error code, 0 for success, and result of each call. A copy gets its kind,
  1 from host to device and 2 from device to host.\<close>

record 'd cuda_api =
  cu_malloc :: "'d \<Rightarrow> uint64 \<Rightarrow> (int \<times> uint64) \<times> 'd"
  cu_memcpy :: "'d \<Rightarrow> uint64 \<Rightarrow> uint64 \<Rightarrow> uint64 \<Rightarrow> nat \<Rightarrow> int \<times> 'd"
  cu_synchronize :: "'d \<Rightarrow> int \<times> 'd"
  cu_free :: "'d \<Rightarrow> uint64 \<Rightarrow> int \<times> 'd"

text \<open>The opcode and the payload of the response. A request that is too short leaves the opcode of the
  response uninitialised; \<open>stale\<close> is the value it happens to have.\<close>

definition status_code :: "int \<Rightarrow> byte \<Rightarrow> byte" where
  "status_code error_code success = (if error_code = 0 then success else GPU_RESP_ERROR)"

definition proxy_dispatch :: "'d cuda_api \<Rightarrow> byte \<Rightarrow> 'd \<Rightarrow> byte \<Rightarrow> bytes \<Rightarrow> (byte \<times> bytes) \<times> 'd" where
  "proxy_dispatch cuda stale d opcode buffer =
    (if opcode = GPU_CMD_MALLOC then
       if length buffer < 16 then ((stale, []), d)
       else (case cu_malloc cuda d (le_value (peek 0 8 buffer)) of ((err, dev_ptr), d') \<Rightarrow>
         if err = 0 then ((GPU_RESP_MALLOC_RESULT, malloc_resp dev_ptr 0), d')
         else ((GPU_RESP_ERROR, []), d'))
     else if opcode = GPU_CMD_MEMCPY_H2D then
       if length buffer < 32 then ((stale, []), d)
       else (case cu_memcpy cuda d (le_value (peek 0 8 buffer)) (le_value (peek 8 8 buffer))
                    (le_value (peek 16 8 buffer)) 1 of (err, d') \<Rightarrow>
         ((status_code err GPU_RESP_SUCCESS, []), d'))
     else if opcode = GPU_CMD_MEMCPY_D2H then
       if length buffer < 32 then ((stale, []), d)
       else (case cu_memcpy cuda d (le_value (peek 0 8 buffer)) (le_value (peek 8 8 buffer))
                    (le_value (peek 16 8 buffer)) 2 of (err, d') \<Rightarrow>
         ((status_code err GPU_RESP_MEMCPY_D2H, []), d'))
     else if opcode = GPU_CMD_SYNCHRONIZE then
       (case cu_synchronize cuda d of (err, d') \<Rightarrow> ((status_code err GPU_RESP_SUCCESS, []), d'))
     else if opcode = GPU_CMD_FREE then
       if length buffer < 8 then ((stale, []), d)
       else (case cu_free cuda d (le_value (peek 0 8 buffer)) of (err, d') \<Rightarrow>
         ((status_code err GPU_RESP_SUCCESS, []), d'))
     else ((GPU_RESP_ERROR, []), d))"

text \<open>One round of the loop: whether it goes on, the device, and the connection.\<close>

definition gpu_server_request :: "'d cuda_api \<Rightarrow> byte \<Rightarrow> 'd \<Rightarrow> conn \<Rightarrow> bool \<times> 'd \<times> conn" where
  "gpu_server_request cuda stale d c =
    (case recv_gpu_header c of
       (None, c1) \<Rightarrow> (False, d, c1)
     | (Some hdr, c1) \<Rightarrow>
         let payload_len = unat (gh_payload_len hdr) in
         if 8192 < payload_len then (False, d, c1)
         else (case (if 0 < payload_len then conn_recv c1 payload_len else (([], True), c1)) of
           ((buffer, ok), c2) \<Rightarrow>
             if \<not> ok then (False, d, c2)
             else (case proxy_dispatch cuda stale d (gh_opcode hdr) buffer of ((opcode, resp), d') \<Rightarrow>
               (case conn_send c2 (gpu_header_image
                  \<lparr>gh_magic = GPU_MAGIC, gh_opcode = opcode, gh_flags = 0, gh_reserved = 0,
                   gh_sequence_id = gh_sequence_id hdr, gh_payload_len = of_nat (length resp)\<rparr>) of (ok, c3) \<Rightarrow>
                  if \<not> ok then (False, d', c3)
                  else if resp = [] then (True, d', c3)
                  else (case conn_send c3 resp of (ok, c4) \<Rightarrow> (ok, d', c4))))))"

fun gpu_server_loop :: "'d cuda_api \<Rightarrow> byte \<Rightarrow> bool list \<Rightarrow> 'd \<Rightarrow> conn \<Rightarrow> 'd \<times> conn" where
  "gpu_server_loop cuda stale (True # alive) d c =
    (case gpu_server_request cuda stale d c of (go_on, d', c') \<Rightarrow>
       if go_on then gpu_server_loop cuda stale alive d' c' else (d', c'))"
| "gpu_server_loop cuda stale _ d c = (d, c)"

definition gpu_handle_client ::
    "'d cuda_api \<Rightarrow> byte \<Rightarrow> bool list \<Rightarrow> 'd \<Rightarrow> conn \<Rightarrow> 'd \<times> conn \<times> client_context" where
  "gpu_handle_client cuda stale alive d c =
    (case gpu_server_loop cuda stale alive d c of
       (d', c') \<Rightarrow> (d', c', \<lparr>cc_sock = None, cc_active = False\<rparr>))"

text \<open>The start of \<open>main\<close>; the accept loop has the text of the one of the paging server.\<close>

record gpu_listen_env =
  ge_startup :: bool
  ge_devices :: nat
  ge_socket :: bool
  ge_bind :: bool
  ge_listen :: bool

definition gpu_main :: "gpu_listen_env \<Rightarrow> int option \<times> win_effect list" where
  "gpu_main env =
    (if \<not> ge_startup env then (Some 1, [])
     else if ge_devices env = 0 then (Some 1, [Startup, Cleanup])
     else if \<not> ge_socket env then (Some 1, [Startup, Cleanup])
     else if \<not> ge_bind env \<or> \<not> ge_listen env then (Some 1, [Startup, OpenSocket, CloseSocket, Cleanup])
     else (None, [Startup, OpenSocket]))"

section \<open>Proxy\<close>

record gpu_proxy =
  gp_socket :: "conn option"
  gp_sequence_id :: uint32
  gp_initialized :: bool
  gp_server_ip :: string
  gp_tracker :: pointer_tracker

definition gpu_proxy_new :: gpu_proxy where
  "gpu_proxy_new = \<lparr>gp_socket = None, gp_sequence_id = 1, gp_initialized = False,
     gp_server_ip = ''127.0.0.1'', gp_tracker = tracker_new\<rparr>"

text \<open>A command and its response: the bytes stored in the response buffer, and success.\<close>

definition send_gpu_cmd :: "gpu_proxy \<Rightarrow> byte \<Rightarrow> byte \<Rightarrow> bytes \<Rightarrow> nat \<Rightarrow> (bytes \<times> bool) \<times> gpu_proxy" where
  "send_gpu_cmd g opcode flags payload resp_len =
    (case gp_socket g of
       None \<Rightarrow> (([], False), g)
     | Some c \<Rightarrow>
         let g = g\<lparr>gp_sequence_id := gp_sequence_id g + 1\<rparr> in
         (case send_gpu_header c opcode flags (gp_sequence_id g - 1) (of_nat (length payload)) of (ok, c1) \<Rightarrow>
            if \<not> ok then (([], False), g\<lparr>gp_socket := Some c1\<rparr>)
            else (case (if payload = [] then (True, c1) else conn_send c1 payload) of (ok, c2) \<Rightarrow>
              if \<not> ok then (([], False), g\<lparr>gp_socket := Some c2\<rparr>)
              else (case recv_gpu_header c2 of
                (None, c3) \<Rightarrow> (([], False), g\<lparr>gp_socket := Some c3\<rparr>)
              | (Some hdr, c3) \<Rightarrow>
                  let len = unat (gh_payload_len hdr) in
                  if gh_opcode hdr = GPU_RESP_ERROR then (([], False), g\<lparr>gp_socket := Some c3\<rparr>)
                  else if resp_len < len then (([], False), g\<lparr>gp_socket := Some c3\<rparr>)
                  else if len = 0 then (([], True), g\<lparr>gp_socket := Some c3\<rparr>)
                  else (case conn_recv c3 len of (r, c4) \<Rightarrow> (r, g\<lparr>gp_socket := Some c4\<rparr>))))))"

text \<open>The environment of the initialisation: whether Winsock starts, the variable \<open>REMOTE_GPU_IP\<close>, and
  the connection attempt, whose code is that of the paging client.\<close>

record proxy_env =
  pe_startup :: bool
  pe_remote_ip :: "string option"
  pe_connect :: connect_env

definition InitializeProxy :: "proxy_env \<Rightarrow> gpu_proxy \<Rightarrow> bool \<times> gpu_proxy" where
  "InitializeProxy env g =
    (if gp_initialized g then (True, g)
     else
       let g = g\<lparr>gp_initialized := True\<rparr> in
       if \<not> pe_startup env then (False, g)
       else
         let g = (case pe_remote_ip env of None \<Rightarrow> g | Some ip \<Rightarrow> g\<lparr>gp_server_ip := take 63 ip\<rparr>);
             sock = fst (connect_socket (pe_connect env))
         in (sock \<noteq> None, g\<lparr>gp_socket := sock\<rparr>))"

definition ShutdownProxy :: "gpu_proxy \<Rightarrow> gpu_proxy \<times> win_effect list" where
  "ShutdownProxy g =
    (if \<not> gp_initialized g then (g, [])
     else (g\<lparr>gp_initialized := False, gp_socket := None\<rparr>,
           (if gp_socket g = None then [] else [CloseSocket]) @ [Cleanup]))"

definition proxy_ready :: "proxy_env \<Rightarrow> gpu_proxy \<Rightarrow> bool \<times> gpu_proxy" where
  "proxy_ready env g = (if gp_initialized g then (True, g) else InitializeProxy env g)"

text \<open>\<open>resp\<close> is uninitialised memory of 16 bytes, of which the response overwrites the start. The result
  has the error code returned and the pointer stored, if any.\<close>

definition proxy_cudaMalloc ::
    "proxy_env \<Rightarrow> bytes \<Rightarrow> gpu_proxy \<Rightarrow> nat \<Rightarrow> (uint32 \<times> uint64 option) \<times> gpu_proxy" where
  "proxy_cudaMalloc env resp g sz =
    (case proxy_ready env g of (ready, g) \<Rightarrow>
       if \<not> ready then ((1, None), g)
       else (case send_gpu_cmd g GPU_CMD_MALLOC GPU_FLAG_NONE (malloc_req (of_nat sz) 256) 16 of ((data, ok), g) \<Rightarrow>
         if \<not> ok then ((1, None), g)
         else
           let resp = blit 0 data resp; error_code = le_value (peek 8 4 resp) in
           if error_code \<noteq> 0 then ((error_code, None), g)
           else (case tracker_allocate (gp_tracker g) (le_value (peek 0 8 resp)) sz of (ptr, t) \<Rightarrow>
             ((0, Some ptr), g\<lparr>gp_tracker := t\<rparr>))))"

definition proxy_cudaFree :: "gpu_proxy \<Rightarrow> uint64 \<Rightarrow> uint32 \<times> gpu_proxy" where
  "proxy_cudaFree g dev_ptr =
    (if \<not> gp_initialized g then (1, g)
     else case get_remote (gp_tracker g) dev_ptr of
       None \<Rightarrow> (1, g)
     | Some (remote_ptr, _) \<Rightarrow>
         (case send_gpu_cmd g GPU_CMD_FREE GPU_FLAG_NONE (free_req remote_ptr) 16 of ((_, ok), g) \<Rightarrow>
            if \<not> ok then (1, g)
            else (0, g\<lparr>gp_tracker := snd (tracker_free (gp_tracker g) dev_ptr)\<rparr>)))"

text \<open>A copy: the error code and the bytes stored at \<open>dst\<close>. Host pointers are numbers.\<close>

definition proxy_cudaMemcpy ::
    "proxy_env \<Rightarrow> gpu_proxy \<Rightarrow> uint64 \<Rightarrow> uint64 \<Rightarrow> nat \<Rightarrow> int \<Rightarrow> (uint32 \<times> bytes) \<times> gpu_proxy" where
  "proxy_cudaMemcpy env g dst src count kind =
    (case proxy_ready env g of (ready, g) \<Rightarrow>
       if \<not> ready then ((1, []), g)
       else if kind = 1 then
         (case get_remote (gp_tracker g) dst of
            None \<Rightarrow> ((1, []), g)
          | Some (remote_dst, _) \<Rightarrow>
              (case send_gpu_cmd g GPU_CMD_MEMCPY_H2D GPU_FLAG_ASYNC
                      (memcpy_req remote_dst src (of_nat count) 0) 16 of ((_, ok), g) \<Rightarrow>
                 if \<not> ok then ((1, []), g) else ((0, []), g)))
       else if kind = 2 then
         (case get_remote (gp_tracker g) src of
            None \<Rightarrow> ((1, []), g)
          | Some (remote_src, _) \<Rightarrow>
              (case send_gpu_cmd g GPU_CMD_MEMCPY_D2H GPU_FLAG_NONE
                      (memcpy_req remote_src dst (of_nat count) 1) 16 of ((_, ok), g) \<Rightarrow>
                 if \<not> ok then ((1, []), g)
                 else (case gp_socket g of
                    None \<Rightarrow> ((1, []), g)
                  | Some c \<Rightarrow>
                      (case conn_recv c count of ((data, ok), c') \<Rightarrow>
                         ((if ok then 0 else 1, data), g\<lparr>gp_socket := Some c'\<rparr>)))))
       else ((1, []), g))"

definition proxy_cudaDeviceSynchronize :: "gpu_proxy \<Rightarrow> uint32 \<times> gpu_proxy" where
  "proxy_cudaDeviceSynchronize g =
    (if \<not> gp_initialized g then (1, g)
     else (case send_gpu_cmd g GPU_CMD_SYNCHRONIZE GPU_FLAG_NONE (sync_req 0) 16 of ((_, ok), g) \<Rightarrow>
       (if ok then 0 else 1, g)))"

text \<open>The library is detached from the process.\<close>

definition proxy_DllMain :: "bool \<Rightarrow> gpu_proxy \<Rightarrow> gpu_proxy \<times> win_effect list" where
  "proxy_DllMain detach g = (if detach then ShutdownProxy g else (g, []))"

section \<open>One command\<close>

lemma gpu_header_image_inverse: "gpu_header_of (gpu_header_image h) = h"
  by (simp add: gpu_header_of_def gpu_header_image_def peek_def nth_append le_value_image)

lemma length_gpu_header_image [simp]: "length (gpu_header_image h) = 16"
  by (simp add: gpu_header_image_def)

lemma recv_gpu_header_ok:
  assumes "stream (incoming c) = gpu_header_image h @ rest" "gh_magic h = GPU_MAGIC"
  obtains evs where "recv_gpu_header c = (Some h, c\<lparr>incoming := evs\<rparr>)" "stream evs = rest"
proof -
  from conn_recv_ok [OF assms(1)] obtain evs where
    "conn_recv c 16 = ((gpu_header_image h, True), c\<lparr>incoming := evs\<rparr>)" "stream evs = rest" by auto
  then show thesis using assms by (intro that) (simp_all add: recv_gpu_header_def gpu_header_image_inverse)
qed

definition command_header :: "byte \<Rightarrow> byte \<Rightarrow> uint32 \<Rightarrow> bytes \<Rightarrow> gpu_header" where
  "command_header opcode flags seq payload =
    \<lparr>gh_magic = GPU_MAGIC, gh_opcode = opcode, gh_flags = flags, gh_reserved = 0,
     gh_sequence_id = seq, gh_payload_len = of_nat (length payload)\<rparr>"

definition command_bytes :: "byte \<Rightarrow> byte \<Rightarrow> uint32 \<Rightarrow> bytes \<Rightarrow> bytes" where
  "command_bytes opcode flags seq payload = gpu_header_image (command_header opcode flags seq payload) @ payload"

lemma command_header_sel [simp]:
  "gh_magic (command_header opcode flags seq payload) = GPU_MAGIC"
  "gh_opcode (command_header opcode flags seq payload) = opcode"
  "gh_sequence_id (command_header opcode flags seq payload) = seq"
  "gh_payload_len (command_header opcode flags seq payload) = of_nat (length payload)"
  by (simp_all add: command_header_def)

lemma header_literal:
  "\<lparr>gh_magic = GPU_MAGIC, gh_opcode = opcode, gh_flags = flags, gh_reserved = 0,
    gh_sequence_id = seq, gh_payload_len = of_nat (length payload)\<rparr> = command_header opcode flags seq payload"
  by (simp add: command_header_def)

lemma send_guarded:
  "(if resp = [] then (True, d, c) else case conn_send c resp of (ok, c') \<Rightarrow> (ok, d, c')) =
   (case conn_send c resp of (ok, c') \<Rightarrow> (ok, d, c'))"
  by simp

lemma unat_short_length: "length (bs :: bytes) \<le> 8192 \<Longrightarrow> unat (of_nat (length bs) :: uint32) = length bs"
  by (simp add: unat_of_nat)

text \<open>The server's answers are short.\<close>

lemma proxy_dispatch_short: "proxy_dispatch cuda stale d opcode buffer = ((rop, resp), d') \<Longrightarrow> length resp \<le> 16"
  by (auto simp: proxy_dispatch_def malloc_resp_def split: if_splits prod.splits)

lemma proxy_dispatch_error:
  "proxy_dispatch cuda stale d opcode buffer = ((rop, resp), d') \<Longrightarrow> rop = GPU_RESP_ERROR \<Longrightarrow> resp = []"
  by (auto simp: proxy_dispatch_def gpu_codes split: if_splits prod.splits)

lemma server_answers:
  assumes "stream (incoming s) = command_bytes opcode flags seq payload @ rest" "length payload \<le> 8192"
    and "proxy_dispatch cuda stale d opcode payload = ((rop, resp), d')"
    and "sends_at_least (length (command_bytes rop 0 seq resp) + n) (accepting s)"
  obtains s' where
    "gpu_server_request cuda stale d s = (True, d', s')" "stream (incoming s') = rest"
    "outgoing s' = outgoing s @ command_bytes rop 0 seq resp" "sends_at_least n (accepting s')"
proof -
  let ?h = "command_header opcode flags seq payload" and ?r = "gpu_header_image (command_header rop 0 seq resp)"
  obtain evs where 1: "recv_gpu_header s = (Some ?h, s\<lparr>incoming := evs\<rparr>)" and evs: "stream evs = payload @ rest"
    using recv_gpu_header_ok [of s ?h "payload @ rest"] assms(1) by (auto simp: command_bytes_def)
  obtain evs' where 2: "conn_recv (s\<lparr>incoming := evs\<rparr>) (length payload) = ((payload, True), s\<lparr>incoming := evs'\<rparr>)"
    and rest: "stream evs' = rest"
    using conn_recv_ok [of "s\<lparr>incoming := evs\<rparr>" payload rest] evs assms(2) by auto
  obtain acc where 3: "conn_send (s\<lparr>incoming := evs'\<rparr>) ?r =
      (True, s\<lparr>incoming := evs', accepting := acc, outgoing := outgoing s @ ?r\<rparr>)"
    and acc: "sends_at_least (length resp + n) acc"
    using conn_send_ok [of ?r "length resp + n" "s\<lparr>incoming := evs'\<rparr>"] assms(4)
    by (auto simp: command_bytes_def add.assoc)
  let ?s3 = "s\<lparr>incoming := evs', accepting := acc, outgoing := outgoing s @ ?r\<rparr>"
  obtain acc' where 4: "conn_send ?s3 resp =
      (True, s\<lparr>incoming := evs', accepting := acc', outgoing := outgoing s @ ?r @ resp\<rparr>)"
    and acc': "sends_at_least n acc'"
    using conn_send_ok [of resp n ?s3] acc by auto
  have "gpu_server_request cuda stale d s =
      (True, d', s\<lparr>incoming := evs', accepting := acc', outgoing := outgoing s @ ?r @ resp\<rparr>)"
    using assms(2) unat_short_length [OF assms(2)]
    unfolding gpu_server_request_def header_literal Let_def conn_recv_guarded send_guarded
    by (simp add: 1 2 3 4 assms(3) not_less)
  then show thesis using rest acc' by (rule_tac that) (auto simp: command_bytes_def)
qed

definition gpu_connected :: "gpu_proxy \<Rightarrow> conn \<Rightarrow> bool" where
  "gpu_connected g c \<longleftrightarrow> gp_initialized g \<and> gp_socket g = Some c"

lemma proxy_commands:
  assumes "gpu_connected g c" "stream (incoming c) = command_bytes rop rflags rseq resp @ rest"
    and "length resp \<le> resp_len" "resp_len \<le> 8192" "rop = GPU_RESP_ERROR \<Longrightarrow> resp = []" "seq = gp_sequence_id g"
    and "sends_at_least (length (command_bytes opcode flags seq payload) + n) (accepting c)"
  obtains c' where
    "send_gpu_cmd g opcode flags payload resp_len =
      ((resp, rop \<noteq> GPU_RESP_ERROR), g\<lparr>gp_sequence_id := seq + 1, gp_socket := Some c'\<rparr>)"
    "stream (incoming c') = rest" "outgoing c' = outgoing c @ command_bytes opcode flags seq payload"
    "sends_at_least n (accepting c')"
proof -
  let ?h = "gpu_header_image (command_header opcode flags seq payload)"
  obtain acc where 1: "conn_send c ?h = (True, c\<lparr>accepting := acc, outgoing := outgoing c @ ?h\<rparr>)"
    and acc: "sends_at_least (length payload + n) acc"
    using conn_send_ok [of ?h "length payload + n" c] assms(7) by (auto simp: command_bytes_def add.assoc)
  let ?c1 = "c\<lparr>accepting := acc, outgoing := outgoing c @ ?h\<rparr>"
  obtain acc' where 2: "conn_send ?c1 payload =
      (True, c\<lparr>accepting := acc', outgoing := outgoing c @ ?h @ payload\<rparr>)" and acc': "sends_at_least n acc'"
    using conn_send_ok [of payload n ?c1] acc by auto
  let ?c2 = "c\<lparr>accepting := acc', outgoing := outgoing c @ ?h @ payload\<rparr>"
  obtain evs where 3: "recv_gpu_header ?c2 = (Some (command_header rop rflags rseq resp), ?c2\<lparr>incoming := evs\<rparr>)"
    and evs: "stream evs = resp @ rest"
    using recv_gpu_header_ok [of ?c2 "command_header rop rflags rseq resp" "resp @ rest"] assms(2)
    by (auto simp: command_bytes_def)
  have len: "unat (of_nat (length resp) :: uint32) = length resp" using assms(3,4) by (simp add: unat_short_length)
  obtain evs' where 4: "conn_recv (?c2\<lparr>incoming := evs\<rparr>) (length resp) = ((resp, True), ?c2\<lparr>incoming := evs'\<rparr>)"
    and rest: "stream evs' = rest"
    using conn_recv_ok [of "?c2\<lparr>incoming := evs\<rparr>" resp rest] evs assms(3,4) by auto
  have "send_gpu_cmd g opcode flags payload resp_len =
      ((resp, rop \<noteq> GPU_RESP_ERROR), g\<lparr>gp_sequence_id := seq + 1, gp_socket := Some (?c2\<lparr>incoming := evs'\<rparr>)\<rparr>)"
    using assms(1,3,5) len 4 unfolding send_gpu_cmd_def send_gpu_header_def header_literal
    by (cases "resp = []")
      (auto simp: gpu_connected_def Let_def assms(6) [symmetric] 1 2 3 conn_send_guarded not_less)
  then show thesis using rest acc' by (rule_tac that) (auto simp: command_bytes_def)
qed

section \<open>Calls of the server's runtime\<close>

text \<open>What the proxy promises: the call is made on the server's device, with the device pointers that
  stand behind the synthetic ones. A copy to the device takes the address of the source, which is an
  address of the client, as one of the server.\<close>

datatype gpu_op = GMalloc nat | GFree uint64 | GCopyIn uint64 uint64 nat | GSync

definition code_of :: "int \<Rightarrow> uint32" where
  "code_of err = (if err = 0 then 0 else 1)"

fun direct_step ::
    "'d cuda_api \<Rightarrow> pointer_tracker \<times> 'd \<Rightarrow> gpu_op \<Rightarrow> (uint32 \<times> uint64 option) \<times> pointer_tracker \<times> 'd" where
  "direct_step cuda (t, d) (GMalloc sz) =
    (case cu_malloc cuda d (of_nat sz) of ((err, p), d') \<Rightarrow>
       if err = 0 then (case tracker_allocate t p sz of (q, t') \<Rightarrow> ((0, Some q), t', d'))
       else ((1, None), t, d'))"
| "direct_step cuda (t, d) (GFree p) =
    (case get_remote t p of
       None \<Rightarrow> ((1, None), t, d)
     | Some (r, _) \<Rightarrow> (case cu_free cuda d r of (err, d') \<Rightarrow>
         ((code_of err, None), if err = 0 then snd (tracker_free t p) else t, d')))"
| "direct_step cuda (t, d) (GCopyIn dst src n) =
    (case get_remote t dst of
       None \<Rightarrow> ((1, None), t, d)
     | Some (r, _) \<Rightarrow> (case cu_memcpy cuda d r src (of_nat n) 1 of (err, d') \<Rightarrow> ((code_of err, None), t, d')))"
| "direct_step cuda (t, d) GSync =
    (case cu_synchronize cuda d of (err, d') \<Rightarrow> ((code_of err, None), t, d'))"

fun direct_run ::
    "'d cuda_api \<Rightarrow> pointer_tracker \<times> 'd \<Rightarrow> gpu_op list \<Rightarrow> (uint32 \<times> uint64 option) list \<times> pointer_tracker \<times> 'd" where
  "direct_run cuda st [] = ([], st)"
| "direct_run cuda st (op # ops) =
    (case direct_step cuda st op of (r, st1) \<Rightarrow> (case direct_run cuda st1 ops of (rs, st2) \<Rightarrow> (r # rs, st2)))"

fun proxy_apply :: "proxy_env \<Rightarrow> bytes \<Rightarrow> gpu_proxy \<Rightarrow> gpu_op \<Rightarrow> (uint32 \<times> uint64 option) \<times> gpu_proxy" where
  "proxy_apply env junk g (GMalloc sz) = proxy_cudaMalloc env junk g sz"
| "proxy_apply env junk g (GFree p) = (case proxy_cudaFree g p of (code, g') \<Rightarrow> ((code, None), g'))"
| "proxy_apply env junk g (GCopyIn dst src n) =
    (case proxy_cudaMemcpy env g dst src n 1 of ((code, _), g') \<Rightarrow> ((code, None), g'))"
| "proxy_apply env junk g GSync = (case proxy_cudaDeviceSynchronize g of (code, g') \<Rightarrow> ((code, None), g'))"

fun proxy_run :: "proxy_env \<Rightarrow> bytes \<Rightarrow> gpu_proxy \<Rightarrow> gpu_op list \<Rightarrow> (uint32 \<times> uint64 option) list \<times> gpu_proxy" where
  "proxy_run env junk g [] = ([], g)"
| "proxy_run env junk g (op # ops) =
    (case proxy_apply env junk g op of (r, g1) \<Rightarrow> (case proxy_run env junk g1 ops of (rs, g2) \<Rightarrow> (r # rs, g2)))"

text \<open>The command an operation sends, if it sends one.\<close>

fun gpu_command :: "pointer_tracker \<Rightarrow> gpu_op \<Rightarrow> (byte \<times> byte \<times> bytes) option" where
  "gpu_command t (GMalloc sz) = Some (GPU_CMD_MALLOC, GPU_FLAG_NONE, malloc_req (of_nat sz) 256)"
| "gpu_command t (GFree p) =
    map_option (\<lambda>(r, _). (GPU_CMD_FREE, GPU_FLAG_NONE, free_req r)) (get_remote t p)"
| "gpu_command t (GCopyIn dst src n) =
    map_option (\<lambda>(r, _). (GPU_CMD_MEMCPY_H2D, GPU_FLAG_ASYNC, memcpy_req r src (of_nat n) 0)) (get_remote t dst)"
| "gpu_command t GSync = Some (GPU_CMD_SYNCHRONIZE, GPU_FLAG_NONE, sync_req 0)"

lemma payload_values:
  "le_value (peek 0 8 (malloc_req sz al)) = sz"
  "le_value (peek 0 8 (malloc_resp p e)) = p" "le_value (peek 8 4 (malloc_resp p e)) = e"
  "le_value (peek 0 8 (memcpy_req dst src sz k)) = dst" "le_value (peek 8 8 (memcpy_req dst src sz k)) = src"
  "le_value (peek 16 8 (memcpy_req dst src sz k)) = sz" "le_value (peek 0 8 (free_req p)) = p"
  by (simp_all add: malloc_req_def malloc_resp_def memcpy_req_def free_req_def peek_def le_value_image)

lemma payload_lengths [simp]:
  "length (malloc_req sz al) = 16" "length (malloc_resp p e) = 16" "length (memcpy_req dst src sz k) = 32"
  "length (free_req p) = 8" "length (sync_req x) = 8"
  by (simp_all add: malloc_req_def malloc_resp_def memcpy_req_def free_req_def sync_req_def)

lemma gpu_command_short: "gpu_command t op = Some (opcode, flags, payload) \<Longrightarrow> length payload \<le> 8192"
  by (cases op) auto

lemma server_makes_call:
  assumes "gpu_command t op = Some (opcode, flags, payload)"
    and "proxy_dispatch cuda stale d opcode payload = ((rop, resp), d')"
  shows "snd (snd (direct_step cuda (t, d) op)) = d'"
  using assms by (cases op)
    (auto simp: proxy_dispatch_def gpu_codes payload_values split: if_splits prod.splits option.splits)

lemma proxy_uses_answer:
  assumes "gpu_command (gp_tracker g) op = Some (opcode, flags, payload)" "gp_initialized g" "length junk = 16"
    and "proxy_dispatch cuda stale d opcode payload = ((rop, resp), d')"
    and "send_gpu_cmd g opcode flags payload 16 = ((resp, rop \<noteq> GPU_RESP_ERROR), g1)" "gp_tracker g1 = gp_tracker g"
  shows "proxy_apply env junk g op =
    (fst (direct_step cuda (gp_tracker g, d) op), g1\<lparr>gp_tracker := fst (snd (direct_step cuda (gp_tracker g, d) op))\<rparr>)"
proof -
  have whole: "blit 0 (malloc_resp p e) junk = malloc_resp p e" for p e using assms(3) by (simp add: blit_def)
  have keep: "g1\<lparr>gp_tracker := gp_tracker g\<rparr> = g1" unfolding assms(6) [symmetric] by simp
  show ?thesis using assms keep
    by (cases op)
      (auto simp: proxy_dispatch_def gpu_codes payload_values whole status_code_def code_of_def proxy_ready_def
        proxy_cudaMalloc_def proxy_cudaFree_def proxy_cudaMemcpy_def proxy_cudaDeviceSynchronize_def
        split: if_splits prod.splits option.splits)
qed

text \<open>An operation without a command leaves all as it is.\<close>

lemma no_command:
  assumes "gpu_command (gp_tracker g) op = None" "gp_initialized g"
  shows "proxy_apply env junk g op = (fst (direct_step cuda (gp_tracker g, d) op), g)"
    and "snd (direct_step cuda (gp_tracker g, d) op) = (gp_tracker g, d)"
  using assms by (cases op; auto simp: proxy_cudaFree_def proxy_cudaMemcpy_def proxy_ready_def)+

text \<open>The bytes in both directions of a sequence of operations.\<close>

fun conversation ::
    "'d cuda_api \<Rightarrow> byte \<Rightarrow> uint32 \<Rightarrow> pointer_tracker \<times> 'd \<Rightarrow> gpu_op list \<Rightarrow> bytes \<times> bytes" where
  "conversation cuda stale seq st [] = ([], [])"
| "conversation cuda stale seq st (op # ops) =
    (case gpu_command (fst st) op of
       None \<Rightarrow> conversation cuda stale seq (snd (direct_step cuda st op)) ops
     | Some (opcode, flags, payload) \<Rightarrow>
         (case proxy_dispatch cuda stale (snd st) opcode payload of ((rop, resp), d') \<Rightarrow>
            (case conversation cuda stale (seq + 1) (snd (direct_step cuda st op)) ops of (qs, rs) \<Rightarrow>
               (command_bytes opcode flags seq payload @ qs, command_bytes rop 0 seq resp @ rs))))"

lemma server_end: "stream (incoming s) = [] \<Longrightarrow> \<exists>s'. gpu_server_loop cuda stale (replicate n True) d s = (d, s') \<and> outgoing s' = outgoing s"
proof (cases n)
  case (Suc m)
  assume "stream (incoming s) = []"
  then obtain evs where "conn_recv s 16 = (([], False), s\<lparr>incoming := evs\<rparr>)"
    using conn_recv_short [of s 16] by auto
  then show ?thesis using Suc by (auto simp: gpu_server_request_def recv_gpu_header_def)
qed simp

lemma server_run:
  assumes "conversation cuda stale seq (t, d) ops = (qs, rs)" "stream (incoming s) = qs"
    and "sends_at_least (length rs) (accepting s)" "length ops \<le> n"
  shows "\<exists>s'. gpu_server_loop cuda stale (replicate n True) d s = (snd (snd (direct_run cuda (t, d) ops)), s') \<and>
    outgoing s' = outgoing s @ rs"
  using assms
proof (induction ops arbitrary: seq t d qs rs s n)
  case Nil
  then show ?case using server_end [of s cuda stale n d] by auto
next
  case (Cons op ops)
  obtain r t1 d1 where st: "direct_step cuda (t, d) op = (r, t1, d1)" by (metis surj_pair)
  show ?case
  proof (cases "gpu_command t op")
    case None
    then have "d1 = d" using no_command(2) [of "gpu_proxy_new\<lparr>gp_initialized := True, gp_tracker := t\<rparr>" op cuda d] st by simp
    then show ?thesis using Cons.IH [of seq t1 d1 qs rs s n] Cons.prems None st by (auto split: prod.splits)
  next
    case (Some cmd)
    obtain opcode flags payload where cmd: "cmd = (opcode, flags, payload)" by (metis surj_pair)
    obtain rop resp d' where disp: "proxy_dispatch cuda stale d opcode payload = ((rop, resp), d')" by (metis surj_pair)
    obtain qs' rs' where conv: "conversation cuda stale (seq + 1) (t1, d1) ops = (qs', rs')" by (metis surj_pair)
    have io: "qs = command_bytes opcode flags seq payload @ qs'" "rs = command_bytes rop 0 seq resp @ rs'"
      using Cons.prems(1) Some cmd disp conv st by auto
    have d': "d' = d1" using server_makes_call [OF Some [unfolded cmd] disp] st by simp
    obtain m where n: "n = Suc m" "length ops \<le> m" using Cons.prems(4) by (cases n) auto
    have "sends_at_least (length (command_bytes rop 0 seq resp) + length rs') (accepting s)"
      using Cons.prems(3) io(2) by simp
    then obtain s1 where s1: "gpu_server_request cuda stale d s = (True, d', s1)" "stream (incoming s1) = qs'"
      "outgoing s1 = outgoing s @ command_bytes rop 0 seq resp" "sends_at_least (length rs') (accepting s1)"
      using server_answers [OF Cons.prems(2) [unfolded io(1)] gpu_command_short [OF Some [unfolded cmd]] disp] by blast
    from Cons.IH [OF conv s1(2,4) n(2)] show ?thesis
      using s1(1,3) st io(2) n(1) d' by (auto split: prod.splits)
  qed
qed

lemma proxy_run_ok:
  assumes "conversation cuda stale (gp_sequence_id g) (gp_tracker g, d) ops = (qs, rs)" "length junk = 16"
    and "gpu_connected g c" "stream (incoming c) = rs" "sends_at_least (length qs) (accepting c)"
  shows "\<exists>g' c'. proxy_run env junk g ops = (fst (direct_run cuda (gp_tracker g, d) ops), g') \<and>
    gp_tracker g' = fst (snd (direct_run cuda (gp_tracker g, d) ops)) \<and> gpu_connected g' c' \<and> outgoing c' = outgoing c @ qs"
  using assms
proof (induction ops arbitrary: g d qs rs c)
  case Nil
  then show ?case by auto
next
  case (Cons op ops)
  obtain r t1 d1 where st: "direct_step cuda (gp_tracker g, d) op = (r, t1, d1)" by (metis surj_pair)
  have init: "gp_initialized g" using Cons.prems(3) by (simp add: gpu_connected_def)
  show ?case
  proof (cases "gpu_command (gp_tracker g) op")
    case None
    then have "proxy_apply env junk g op = (r, g)" "(t1, d1) = (gp_tracker g, d)"
      using no_command(1) [OF None init, of env junk cuda d] no_command(2) [OF None init, of cuda d] st by auto
    then show ?thesis using Cons.IH [of g d qs rs c] Cons.prems None st by (auto split: prod.splits)
  next
    case (Some cmd)
    obtain opcode flags payload where cmd: "cmd = (opcode, flags, payload)" by (metis surj_pair)
    obtain rop resp d' where disp: "proxy_dispatch cuda stale d opcode payload = ((rop, resp), d')" by (metis surj_pair)
    obtain qs' rs' where conv: "conversation cuda stale (gp_sequence_id g + 1) (t1, d1) ops = (qs', rs')" by (metis surj_pair)
    have io: "qs = command_bytes opcode flags (gp_sequence_id g) payload @ qs'"
      "rs = command_bytes rop 0 (gp_sequence_id g) resp @ rs'"
      using Cons.prems(1) Some cmd disp conv st by auto
    have "sends_at_least (length (command_bytes opcode flags (gp_sequence_id g) payload) + length qs') (accepting c)"
      using Cons.prems(5) io(1) by simp
    then obtain c1 where c1: "send_gpu_cmd g opcode flags payload 16 = ((resp, rop \<noteq> GPU_RESP_ERROR),
        g\<lparr>gp_sequence_id := gp_sequence_id g + 1, gp_socket := Some c1\<rparr>)" "stream (incoming c1) = rs'"
      "outgoing c1 = outgoing c @ command_bytes opcode flags (gp_sequence_id g) payload"
      "sends_at_least (length qs') (accepting c1)"
      using proxy_commands [OF Cons.prems(3) Cons.prems(4) [unfolded io(2)] proxy_dispatch_short [OF disp] _
          proxy_dispatch_error [OF disp] refl] by force
    let ?g1 = "g\<lparr>gp_sequence_id := gp_sequence_id g + 1, gp_socket := Some c1, gp_tracker := t1\<rparr>"
    have ap: "proxy_apply env junk g op = (r, ?g1)"
      using proxy_uses_answer [OF Some [unfolded cmd] init Cons.prems(2) disp c1(1)] st by simp
    have "gpu_connected ?g1 c1" using init by (simp add: gpu_connected_def)
    from Cons.IH [of ?g1 d1 qs' rs' c1, OF _ Cons.prems(2) this c1(2,4)] conv show ?thesis
      using ap st io(1) c1(3) by (auto split: prod.splits)
  qed
qed


text \<open>A device that counts its allocations and hands out multiples of 256.\<close>

definition demo_cuda :: "uint64 cuda_api" where
  "demo_cuda = \<lparr>cu_malloc = (\<lambda>d sz. ((0, 256 * d), d + 1)), cu_memcpy = (\<lambda>d dst src sz k. (0, d)),
     cu_synchronize = (\<lambda>d. (0, d)), cu_free = (\<lambda>d p. (if p < 256 * d then 0 else 1, d))\<rparr>"

definition demo_proxy_env :: proxy_env where
  "demo_proxy_env = \<lparr>pe_startup = True, pe_remote_ip = None,
     pe_connect = \<lparr>ce_socket = True, ce_address = True, ce_connect = None\<rparr>\<rparr>"


section \<open>Synthetic pointers\<close>

definition pointers_inv :: "pointer_tracker \<Rightarrow> bool" where
  "pointers_inv t \<longleftrightarrow> 4096 dvd unat (pt_next t) \<and>
    (\<forall>p \<in> dom (pt_map t). 4096 dvd unat p \<and> unat p < unat (pt_next t))"

lemma tracker_new_inv: "pointers_inv tracker_new"
  by (simp add: pointers_inv_def tracker_new_def)

lemma synthetic_aligned:
  assumes "4096 dvd unat (w :: uint64)" "unat w + 4096 < W64"
  shows "(w + 4095) AND NOT 4095 = w"
proof -
  have m: "(4095 :: uint64) = mask 12" by (simp add: mask_eq_exp_minus_1)
  have "unat (w + 4095) = unat w + 4095" using assms(2) by (simp add: unat_word_ariths W64_def)
  moreover have "(unat w + 4095) mod 4096 = 4095" using assms(1) by (auto simp: dvd_def)
  ultimately have "unat ((w + 4095) AND NOT (mask 12)) = unat w" unfolding unat_and_not_mask by simp
  then show ?thesis by (simp only: m word_unat_eq_iff)
qed

lemma tracker_allocate_fresh:
  assumes "pointers_inv t" "unat (pt_next t) + 4096 < W64" "tracker_allocate t r sz = (p, t')"
  shows "p = pt_next t" "pt_map t p = None" "pointers_inv t'" "get_remote t' p = Some (r, sz)"
    "q \<noteq> p \<Longrightarrow> get_remote t' q = get_remote t q"
proof -
  show p: "p = pt_next t"
    using assms synthetic_aligned [of "pt_next t"] by (auto simp: tracker_allocate_def pointers_inv_def Let_def)
  show "pt_map t p = None" using assms(1) p by (auto simp: pointers_inv_def)
  have t': "t' = t\<lparr>pt_next := pt_next t + 4096, pt_map := (pt_map t)(p \<mapsto> (r, sz))\<rparr>"
    using assms(3) p by (auto simp: tracker_allocate_def Let_def)
  then show "get_remote t' p = Some (r, sz)" "q \<noteq> p \<Longrightarrow> get_remote t' q = get_remote t q"
    by (simp_all add: get_remote_def)
  have "unat (pt_next t + 4096) = unat (pt_next t) + 4096"
    using assms(2) by (simp add: unat_word_ariths W64_def)
  then show "pointers_inv t'" using assms(1) p unfolding t' pointers_inv_def by (auto intro: trans_less_add1)
qed

lemma tracker_free_inv: "pointers_inv t \<Longrightarrow> pointers_inv (snd (tracker_free t p))"
  by (auto simp: tracker_free_def pointers_inv_def)

section \<open>What does not work\<close>

text \<open>A copy from the device asks the server to copy to the device pointer, from the address of the
  client's buffer, and then waits for bytes that the server does not send: it fails whenever the
  connection brings nothing but the server's answer.\<close>

lemma copy_out_swapped:
  "proxy_dispatch cuda stale d GPU_CMD_MEMCPY_D2H (memcpy_req remote_src dst sz 1) =
    (case cu_memcpy cuda d remote_src dst sz 2 of (err, d') \<Rightarrow> ((status_code err GPU_RESP_MEMCPY_D2H, []), d'))"
  by (simp add: proxy_dispatch_def gpu_codes payload_values)

lemma copy_out_fails:
  assumes "gpu_connected g c" "get_remote (gp_tracker g) src = Some (remote_src, n)" "0 < count" "count < 2 ^ 31"
    and "proxy_dispatch cuda stale d GPU_CMD_MEMCPY_D2H (memcpy_req remote_src dst (of_nat count) 1) = ((rop, resp), d')"
    and "stream (incoming c) = command_bytes rop 0 (gp_sequence_id g) resp"
    and "sends_at_least 48 (accepting c)"
  shows "fst (proxy_cudaMemcpy env g dst src count 2) = (1, [])"
proof -
  let ?payload = "memcpy_req remote_src dst (of_nat count) 1"
  have "length (command_bytes GPU_CMD_MEMCPY_D2H GPU_FLAG_NONE (gp_sequence_id g) ?payload) = 48"
    by (simp add: command_bytes_def)
  then obtain c' where c': "send_gpu_cmd g GPU_CMD_MEMCPY_D2H GPU_FLAG_NONE ?payload 16 =
      ((resp, rop \<noteq> GPU_RESP_ERROR), g\<lparr>gp_sequence_id := gp_sequence_id g + 1, gp_socket := Some c'\<rparr>)"
    "stream (incoming c') = []"
    using proxy_commands [OF assms(1), of rop 0 "gp_sequence_id g" resp "[]" 16, OF _ proxy_dispatch_short [OF assms(5)] _
        proxy_dispatch_error [OF assms(5)] refl, of GPU_CMD_MEMCPY_D2H GPU_FLAG_NONE ?payload 0] assms(6,7) by auto
  obtain evs where "conn_recv c' count = (([], False), c'\<lparr>incoming := evs\<rparr>)"
    using conn_recv_short [of c' count] c'(2) assms(3,4) by auto
  then show ?thesis using assms(1,2) c'(1)
    by (simp add: proxy_cudaMemcpy_def proxy_ready_def gpu_connected_def)
qed

text \<open>After a failed attempt to connect the proxy takes itself as initialised and does not try again.\<close>

lemma failed_initialisation_sticks:
  assumes "InitializeProxy env g = (False, g')"
  shows "InitializeProxy env' g' = (True, g')" "gp_socket g = None \<Longrightarrow> fst (send_gpu_cmd g' opcode flags payload n) = ([], False)"
  using assms by (auto simp: InitializeProxy_def Let_def send_gpu_cmd_def split: if_splits option.splits)

text \<open>A request that is too short is answered with whatever the opcode happens to be.\<close>

lemma short_request_answer:
  "length buffer < 8 \<Longrightarrow> proxy_dispatch cuda stale d GPU_CMD_FREE buffer = ((stale, []), d)"
  by (simp add: proxy_dispatch_def gpu_codes)

lemma gpu_main_balanced:
  assumes "gpu_main env = (Some code, log)"
  shows "code = 1" "count_list log Startup = count_list log Cleanup" "open_sockets log = 0"
  using assms by (auto simp: gpu_main_def open_sockets_def split: if_splits)

end
