(* ===== verification/DecimalText.thy ===== *)
theory DecimalText
  imports Common
begin

text \<open>
  Numbers as text: what \<open>std::to_string\<close> prints for an unsigned number (\<open>show_nat\<close>) and what \<open>std::stoull\<close> and the
  extraction operator of a stream read, with their behaviour on leading blanks, signs, trailing
  characters and overflow. Printing and reading are inverse.
\<close>

definition digit_value :: "char \<Rightarrow> nat option" where
  "digit_value c = map_of (zip ''0123456789'' [0..<10]) c"

definition is_digit :: "char \<Rightarrow> bool" where
  "is_digit c \<longleftrightarrow> digit_value c \<noteq> None"

definition dec_value :: "string \<Rightarrow> nat" where
  "dec_value s = foldl (\<lambda>v c. 10 * v + the (digit_value c)) 0 s"

definition is_space :: "char \<Rightarrow> bool" where
  "is_space c \<longleftrightarrow> c \<in> set [CHR '' '', CHR 0x09, CHR 0x0A, CHR 0x0B, CHR 0x0C, CHR 0x0D]"

text \<open>\<open>std::stoull\<close> in base ten: blanks and a sign are skipped, a minus negates modulo \<open>2 ^ 64\<close>, what follows
  the digits is ignored.\<close>

definition stoull :: "string \<Rightarrow> cpp_error + nat" where
  "stoull s =
    (let s1 = dropWhile is_space s;
         neg = (s1 \<noteq> [] \<and> hd s1 = CHR ''-'');
         s2 = (if s1 \<noteq> [] \<and> (hd s1 = CHR ''-'' \<or> hd s1 = CHR ''+'') then tl s1 else s1);
         digits = takeWhile is_digit s2
     in if digits = [] then Inl (InvalidArgument ''stoull'')
        else if W64 \<le> dec_value digits then Inl (OutOfRange ''stoull'')
        else Inr (if neg then (W64 - dec_value digits) mod W64 else dec_value digits))"

lemma ten_cases: "n < 10 \<Longrightarrow> n \<in> {0, 1, 2, 3, 4, 5, 6, 7, 8, 9 :: nat}"
  by auto

lemma digit_value_digit: "n < 10 \<Longrightarrow> digit_value (hex_digit n) = Some n"
  using ten_cases [of n] by (auto simp: digit_value_def hex_digit_def upt_rec)

lemma is_digit_digit: "n < 10 \<Longrightarrow> is_digit (hex_digit n)"
  by (simp add: is_digit_def digit_value_digit)

lemma show_nat_digits: "list_all is_digit (show_nat n)"
proof (induction n rule: show_nat.induct)
  case (1 n)
  then show ?case
    by (subst show_nat.simps) (auto simp: is_digit_digit)
qed

lemma show_nat_nonempty [simp]: "show_nat n \<noteq> []"
  by (subst show_nat.simps) simp

lemma dec_value_snoc: "dec_value (s @ [c]) = 10 * dec_value s + the (digit_value c)"
  by (simp add: dec_value_def)

lemma dec_value_string: "dec_value (show_nat n) = n"
proof (induction n rule: show_nat.induct)
  case (1 n)
  show ?case
  proof (cases "n < 10")
    case True
    then show ?thesis by (subst show_nat.simps) (simp add: dec_value_def digit_value_digit)
  next
    case False
    then show ?thesis using 1 by (subst show_nat.simps) (simp add: dec_value_snoc digit_value_digit)
  qed
qed

lemma digit_not_special: "is_digit c \<Longrightarrow> \<not> is_space c \<and> c \<noteq> CHR ''-'' \<and> c \<noteq> CHR ''+''"
  by (auto simp: is_digit_def digit_value_def is_space_def upt_rec split: if_splits)

lemma takeWhile_digits:
  "list_all is_digit ds \<Longrightarrow> (rest = [] \<or> \<not> is_digit (hd rest)) \<Longrightarrow> takeWhile is_digit (ds @ rest) = ds"
  by (induction ds) (auto, cases rest, auto)

text \<open>Reading digits, whatever follows them.\<close>

lemma stoull_digits:
  assumes "list_all is_digit ds" "ds \<noteq> []" "rest = [] \<or> \<not> is_digit (hd rest)"
  shows "stoull (ds @ rest) = (if W64 \<le> dec_value ds then Inl (OutOfRange ''stoull'') else Inr (dec_value ds))"
proof -
  obtain c cs where ds: "ds = c # cs" using assms(2) by (cases ds) auto
  have c: "\<not> is_space c" "c \<noteq> CHR ''-''" "c \<noteq> CHR ''+''" using assms(1) ds digit_not_special [of c] by auto
  have "takeWhile is_digit (c # cs @ rest) = ds" using takeWhile_digits [OF assms(1,3)] ds by simp
  then show ?thesis using c ds by (simp add: stoull_def Let_def)
qed

lemma stoull_show_nat: "n < W64 \<Longrightarrow> stoull (show_nat n) = Inr n"
  using stoull_digits [OF show_nat_digits [of n], of "[]"] by (simp add: dec_value_string)

end
