(* ===== verification/HttpStatus.thy ===== *)
theory HttpStatus
  imports DecimalText
begin

text \<open>
  The status page (\<open>common/src/http_status.cpp\<close>): a listening socket and, for each connection, the
  callbacks of libuv. A connection keeps what the callbacks may do to it: whether it is read, the
  response that is being written, whether it is closing, and the memory the callbacks have to
  release. What libuv and \<open>malloc\<close> return are arguments; a second \<open>uv_close\<close> of the same handle has no
  defined behaviour. Every sequence of callbacks that libuv can make is shown to close a connection once, to
  release all memory and to leave no connection behind.
\<close>

section \<open>Server\<close>

record http_server =
  hs_provider :: "(unit \<Rightarrow> string) option"
  hs_stopped :: bool
  hs_closing :: bool

text \<open>Construction: the results of reading the address, binding and listening, 0 for success. A failure
  closes the handle and throws.\<close>

definition HttpStatusServer_new ::
    "(unit \<Rightarrow> string) option \<Rightarrow> int \<Rightarrow> int \<Rightarrow> int \<Rightarrow> (cpp_error option) \<times> http_server" where
  "HttpStatusServer_new provider addr bind listening =
    (let failed = \<lparr>hs_provider = provider, hs_stopped = True, hs_closing = True\<rparr> in
     if addr \<noteq> 0 then (Some (RuntimeError ''Invalid bind address''), failed)
     else if bind \<noteq> 0 then (Some (RuntimeError ''Bind error''), failed)
     else if listening \<noteq> 0 then (Some (RuntimeError ''Listen error''), failed)
     else (None, \<lparr>hs_provider = provider, hs_stopped = False, hs_closing = False\<rparr>))"

text \<open>The handle, and whether \<open>uv_close\<close> was called.\<close>

definition HttpStatusServer_stop :: "http_server \<Rightarrow> http_server \<times> bool" where
  "HttpStatusServer_stop s =
    (if hs_stopped s then (s, False)
     else if hs_closing s then (s\<lparr>hs_stopped := True\<rparr>, False)
     else (s\<lparr>hs_stopped := True, hs_closing := True\<rparr>, True))"

section \<open>Connections\<close>

text \<open>\<open>ht_buffers\<close> counts read buffers that were allocated and not released, \<open>ht_writes\<close> the requests with their
  payloads, \<open>ht_sent\<close> has the responses handed to \<open>uv_write\<close>.\<close>

record http_conn =
  ht_reading :: bool
  ht_pending :: bool
  ht_closing :: bool
  ht_buffers :: nat
  ht_writes :: nat
  ht_sent :: "string list"

text \<open>A connection: \<open>None\<close> when the status is negative; one that could not be accepted is closed.\<close>

definition http_on_connection :: "int \<Rightarrow> int \<Rightarrow> http_conn option" where
  "http_on_connection status accepted =
    (if status < 0 then None
     else Some \<lparr>ht_reading = (accepted = 0), ht_pending = False, ht_closing = (accepted \<noteq> 0),
                ht_buffers = 0, ht_writes = 0, ht_sent = []\<rparr>)"

definition http_on_alloc :: "http_conn \<Rightarrow> http_conn" where
  "http_on_alloc c = c\<lparr>ht_buffers := ht_buffers c + 1\<rparr>"

definition CRLF :: string where
  "CRLF = [CHR 0x0D, CHR 0x0A]"

definition http_response :: "(unit \<Rightarrow> string) option \<Rightarrow> string \<Rightarrow> string" where
  "http_response provider request =
    (if take 11 request = ''GET /status'' then
       let body = (case provider of None \<Rightarrow> [] | Some f \<Rightarrow> f ())
       in ''HTTP/1.1 200 OK'' @ CRLF @ ''Content-Type: application/json'' @ CRLF @
          ''Content-Length: '' @ show_nat (length body) @ CRLF @ ''Connection: close'' @ CRLF @ CRLF @ body
     else
       ''HTTP/1.1 404 Not Found'' @ CRLF @ ''Content-Length: 0'' @ CRLF @ ''Connection: close'' @ CRLF @ CRLF)"

text \<open>\<open>uv_close\<close> of a client, whose callback deletes the handle.\<close>

definition http_close :: "http_conn \<Rightarrow> cpp_error + http_conn" where
  "http_close c = (if ht_closing c then Inl UndefinedBehaviour else Inr (c\<lparr>ht_closing := True, ht_reading := False\<rparr>))"

definition release_buffer :: "http_conn \<Rightarrow> cpp_error + http_conn" where
  "release_buffer c = (if ht_buffers c = 0 then Inl UndefinedBehaviour else Inr (c\<lparr>ht_buffers := ht_buffers c - 1\<rparr>))"

text \<open>A read callback, with the number of bytes or error code, the bytes, whether \<open>malloc\<close> succeeds and what
  \<open>uv_write\<close> returns.\<close>

definition http_on_read ::
    "(unit \<Rightarrow> string) option \<Rightarrow> int \<Rightarrow> string \<Rightarrow> bool \<Rightarrow> int \<Rightarrow> http_conn \<Rightarrow> cpp_error + http_conn" where
  "http_on_read provider nread base allocated write_result c =
    (if 0 < nread then
       let response = http_response provider (take (nat nread) base);
           c = c\<lparr>ht_reading := False\<rparr>
       in if \<not> allocated then
            (case release_buffer c of Inl e \<Rightarrow> Inl e | Inr c \<Rightarrow> http_close c)
          else if write_result \<noteq> 0 then
            (case http_close c of Inl e \<Rightarrow> Inl e | Inr c \<Rightarrow> release_buffer c)
          else release_buffer (c\<lparr>ht_pending := True, ht_writes := ht_writes c + 1, ht_sent := ht_sent c @ [response]\<rparr>)
     else if nread < 0 then
       if ht_closing c then release_buffer c
       else (case http_close c of Inl e \<Rightarrow> Inl e | Inr c \<Rightarrow> release_buffer c)
     else release_buffer c)"

definition http_on_write_done :: "http_conn \<Rightarrow> cpp_error + http_conn" where
  "http_on_write_done c =
    (if ht_writes c = 0 then Inl UndefinedBehaviour
     else
       let c = c\<lparr>ht_pending := False, ht_writes := ht_writes c - 1\<rparr>
       in if ht_closing c then Inr c else http_close c)"

section \<open>Callbacks in every order\<close>

text \<open>What libuv may call: a read callback, with a buffer it asked for before, only while the handle is read;
  the write callback once for each write that was accepted.\<close>

inductive http_step :: "(unit \<Rightarrow> string) option \<Rightarrow> http_conn \<Rightarrow> cpp_error + http_conn \<Rightarrow> bool"
  for provider where
  read: "ht_reading c \<Longrightarrow> http_step provider c (http_on_read provider nread base allocated r (http_on_alloc c))"
| written: "ht_pending c \<Longrightarrow> http_step provider c (http_on_write_done c)"

inductive http_reachable :: "(unit \<Rightarrow> string) option \<Rightarrow> cpp_error + http_conn \<Rightarrow> bool" for provider where
  start: "http_on_connection status accepted = Some c \<Longrightarrow> http_reachable provider (Inr c)"
| step: "http_reachable provider (Inr c) \<Longrightarrow> http_step provider c c' \<Longrightarrow> http_reachable provider c'"

inductive_cases http_stepE: "http_step provider c c'"

text \<open>A connection is being read, being answered or closing, one at a time; no buffer is held between
  callbacks, and a request with its payload exactly while it is being written.\<close>

definition http_inv :: "http_conn \<Rightarrow> bool" where
  "http_inv c \<longleftrightarrow>
    (ht_reading c \<and> \<not> ht_pending c \<and> \<not> ht_closing c \<and> ht_sent c = [] \<or>
     \<not> ht_reading c \<and> ht_pending c \<and> \<not> ht_closing c \<and> length (ht_sent c) = 1 \<or>
     \<not> ht_reading c \<and> \<not> ht_pending c \<and> ht_closing c \<and> length (ht_sent c) \<le> 1) \<and>
    ht_buffers c = 0 \<and> ht_writes c = (if ht_pending c then 1 else 0)"

lemma http_on_connection_inv: "http_on_connection status accepted = Some c \<Longrightarrow> http_inv c"
  by (auto simp: http_on_connection_def http_inv_def split: if_splits)

lemma http_on_read_inv:
  assumes "http_inv c" "ht_reading c"
  shows "\<exists>c'. http_on_read provider nread base allocated r (http_on_alloc c) = Inr c' \<and> http_inv c' \<and>
    (0 < nread \<longrightarrow> ht_pending c' \<and> ht_sent c' = [http_response provider (take (nat nread) base)] \<or> ht_closing c')"
  using assms
  by (auto simp: http_inv_def http_on_read_def http_on_alloc_def release_buffer_def http_close_def Let_def)

lemma http_on_write_done_inv:
  "http_inv c \<Longrightarrow> ht_pending c \<Longrightarrow> \<exists>c'. http_on_write_done c = Inr c' \<and> http_inv c' \<and> ht_closing c' \<and> ht_sent c' = ht_sent c"
  by (auto simp: http_inv_def http_on_write_done_def http_close_def Let_def)

lemma http_step_inv: "http_step provider c r \<Longrightarrow> http_inv c \<Longrightarrow> \<exists>c'. r = Inr c' \<and> http_inv c'"
  by (erule http_stepE) (use http_on_read_inv http_on_write_done_inv in blast)+

lemma http_reachable_inv: "http_reachable provider r \<Longrightarrow> \<exists>c. r = Inr c \<and> http_inv c"
  by (induction rule: http_reachable.induct) (use http_on_connection_inv http_step_inv in blast)+

text \<open>Property C39. No sequence of callbacks closes a connection of the status page twice, releases memory twice or
  uses a handle that is closing. In every reachable state the connection is being read, being answered
  or closing, so that none is left behind; at most one response was sent; all read buffers are released; and
  the write request with its payload is held exactly while the response is being written.\<close>

theorem http_callbacks_safe:
  assumes "http_reachable provider r"
  shows "\<exists>c. r = Inr c \<and> (ht_reading c \<or> ht_pending c \<or> ht_closing c) \<and> length (ht_sent c) \<le> 1 \<and>
    ht_buffers c = 0 \<and> ht_writes c = (if ht_pending c then 1 else 0) \<and> (ht_closing c \<longrightarrow> \<not> ht_pending c)"
proof -
  obtain c where "r = Inr c" "http_inv c" using http_reachable_inv [OF assms] by blast
  then show ?thesis by (auto simp: http_inv_def)
qed

theorem http_callbacks_safe_witness:
  "\<exists>c. http_on_read None 11 ''GET /status'' True 0
        (http_on_alloc \<lparr>ht_reading = True, ht_pending = False, ht_closing = False, ht_buffers = 0, ht_writes = 0, ht_sent = []\<rparr>) = Inr c \<and>
     (ht_reading c \<or> ht_pending c \<or> ht_closing c) \<and> length (ht_sent c) \<le> 1 \<and> ht_buffers c = 0 \<and>
     ht_writes c = (if ht_pending c then 1 else 0) \<and> (ht_closing c \<longrightarrow> \<not> ht_pending c)"
proof (rule http_callbacks_safe)
  let ?c = "\<lparr>ht_reading = True, ht_pending = False, ht_closing = False, ht_buffers = 0, ht_writes = 0, ht_sent = []\<rparr>"
  have "http_on_connection 0 0 = Some ?c" by (simp add: http_on_connection_def)
  then have "http_reachable None (Inr ?c)" by (rule http_reachable.start)
  moreover have "http_step None ?c (http_on_read None 11 ''GET /status'' True 0 (http_on_alloc ?c))"
    by (rule http_step.read) simp
  ultimately show "http_reachable None (http_on_read None 11 ''GET /status'' True 0 (http_on_alloc ?c))"
    by (rule http_reachable.step)
qed

section \<open>Responses\<close>

text \<open>A client that reads the response gets the body: the number after \<open>Content-Length\<close> is its length, and the
  response ends with it.\<close>

lemma http_response_body:
  assumes "take 11 request = ''GET /status''" "length (body ()) < W64"
  shows "stoull (drop 65 (http_response (Some body) request)) = Inr (length (body ()))"
    and "\<exists>head. http_response (Some body) request = head @ CRLF @ CRLF @ body ()"
proof -
  let ?n = "show_nat (length (body ()))"
  let ?tail = "CRLF @ ''Connection: close'' @ CRLF @ CRLF @ body ()"
  have "drop 65 (http_response (Some body) request) = ?n @ ?tail"
    using assms(1) by (simp add: http_response_def CRLF_def Let_def)
  moreover have "\<not> is_digit (hd ?tail)" by (simp add: CRLF_def is_digit_def digit_value_def upt_rec)
  ultimately show "stoull (drop 65 (http_response (Some body) request)) = Inr (length (body ()))"
    using stoull_digits [OF show_nat_digits _, of "length (body ())" ?tail] assms(2) by (simp add: dec_value_string)
  show "\<exists>head. http_response (Some body) request = head @ CRLF @ CRLF @ body ()"
    using assms(1) by (simp add: http_response_def Let_def flip: append_assoc)
qed

text \<open>The first piece of the request decides: a request line that arrives in two pieces is not recognised, and
  every path that starts with \<open>/status\<close> is answered.\<close>

lemma short_request_not_found:
  "length request < 11 \<Longrightarrow> http_response provider request = http_response None []"
  by (auto simp: http_response_def)

text \<open>Stopping twice closes the listening socket once.\<close>

lemma stop_once:
  assumes "HttpStatusServer_stop s = (s', closed)"
  shows "HttpStatusServer_stop s' = (s', False)" "closed \<Longrightarrow> \<not> hs_closing s"
  using assms by (auto simp: HttpStatusServer_stop_def split: if_splits)

text \<open>A constructor that throws has closed the handle, and one that returns has not.\<close>

lemma http_new_closes:
  "HttpStatusServer_new provider a b l = (err, s) \<Longrightarrow> (err \<noteq> None) = hs_closing s \<and> hs_stopped s = hs_closing s"
  by (auto simp: HttpStatusServer_new_def Let_def split: if_splits)

end
