(* ===== verification/Launcher.thy ===== *)
theory Launcher
  imports MallocHook
begin

text \<open>
  The launcher (\<open>hook/meminfo_launch.cpp\<close>), which starts a program with the hook library loaded: its
  options, the environment it leaves to the program, where the library reads its configuration, and
  the command line. The program's arguments are what its C runtime makes of that command line, by
  the documented rules for quotation marks and backslashes. Creating the process is the environment.
\<close>

section \<open>Options\<close>

record launch_options =
  lo_target :: string
  lo_dll :: string
  lo_mode :: string
  lo_peer :: string
  lo_port :: string
  lo_socket :: string
  lo_threshold :: string
  lo_heap_size :: string
  lo_budget :: string
  lo_page :: string
  lo_log :: string
  lo_gslice :: bool
  lo_args :: "string list"

definition default_options :: launch_options where
  "default_options =
    \<lparr>lo_target = [], lo_dll = [], lo_mode = ''log'', lo_peer = [], lo_port = [], lo_socket = [],
     lo_threshold = [], lo_heap_size = [], lo_budget = [], lo_page = [], lo_log = [], lo_gslice = True, lo_args = []\<rparr>"

text \<open>The options that take a value.\<close>

definition option_setter :: "string \<Rightarrow> (string \<Rightarrow> launch_options \<Rightarrow> launch_options) option" where
  "option_setter arg =
    (if arg = ''--target'' then Some (\<lambda>v opts. opts\<lparr>lo_target := v\<rparr>)
     else if arg = ''--dll'' then Some (\<lambda>v opts. opts\<lparr>lo_dll := v\<rparr>)
     else if arg = ''--mode'' then Some (\<lambda>v opts. opts\<lparr>lo_mode := v\<rparr>)
     else if arg = ''--peer'' then Some (\<lambda>v opts. opts\<lparr>lo_peer := v\<rparr>)
     else if arg = ''--port'' then Some (\<lambda>v opts. opts\<lparr>lo_port := v\<rparr>)
     else if arg = ''--socket'' then Some (\<lambda>v opts. opts\<lparr>lo_socket := v\<rparr>)
     else if arg = ''--threshold'' then Some (\<lambda>v opts. opts\<lparr>lo_threshold := v\<rparr>)
     else if arg = ''--heap-size'' then Some (\<lambda>v opts. opts\<lparr>lo_heap_size := v\<rparr>)
     else if arg = ''--budget'' then Some (\<lambda>v opts. opts\<lparr>lo_budget := v\<rparr>)
     else if arg = ''--page'' then Some (\<lambda>v opts. opts\<lparr>lo_page := v\<rparr>)
     else if arg = ''--log'' then Some (\<lambda>v opts. opts\<lparr>lo_log := v\<rparr>)
     else None)"

text \<open>The loop over the arguments: an exit code, or the options. A last option without its value is
  ignored.\<close>

fun parse_options :: "launch_options \<Rightarrow> string list \<Rightarrow> int + launch_options" where
  "parse_options opts [] = Inr opts"
| "parse_options opts (arg # rest) =
    (case option_setter arg of
       Some update \<Rightarrow> (case rest of [] \<Rightarrow> Inr opts | v # rest' \<Rightarrow> parse_options (update v opts) rest')
     | None \<Rightarrow>
         if arg = ''--no-gslice'' then parse_options (opts\<lparr>lo_gslice := False\<rparr>) rest
         else if arg = ''--help'' \<or> arg = ''-h'' then Inl 0
         else if arg = ''--'' then Inr (opts\<lparr>lo_args := rest\<rparr>)
         else Inl 2)"

section \<open>Environment and command line\<close>

type_synonym environment = "string \<rightharpoonup> string"

definition set_env :: "string \<Rightarrow> string \<Rightarrow> environment \<Rightarrow> environment" where
  "set_env name val env = (if val = [] then env else env(name \<mapsto> val))"

definition launch_environment :: "launch_options \<Rightarrow> environment \<Rightarrow> environment" where
  "launch_environment opts env =
    (let env = set_env ''MEMINFO_HOOK_MODE'' (lo_mode opts) env;
         env = set_env ''MEMINFO_PEER'' (lo_peer opts) env;
         env = set_env ''MEMINFO_PORT'' (lo_port opts) env;
         env = set_env ''MEMINFO_SOCKET'' (lo_socket opts) env;
         env = set_env ''MEMINFO_THRESHOLD'' (lo_threshold opts) env;
         env = set_env ''MEMINFO_HEAP_SIZE'' (lo_heap_size opts) env;
         env = set_env ''MEMINFO_BUDGET'' (lo_budget opts) env;
         env = set_env ''MEMINFO_PAGE'' (lo_page opts) env;
         env = set_env ''MEMINFO_LOG'' (lo_log opts) env
     in if lo_gslice opts then env(''G_SLICE'' \<mapsto> ''always-malloc'') else env)"

definition quote :: char where
  "quote = CHR 0x22"

definition backslash :: char where
  "backslash = CHR 0x5C"

definition command_line :: "string \<Rightarrow> string list \<Rightarrow> string" where
  "command_line target args =
    quote # target @ [quote] @ concat (map (\<lambda>arg. CHR '' '' # quote # arg @ [quote]) args)"

text \<open>The directory of the launcher, given the length and the text of its path.\<close>

definition module_directory :: "nat \<Rightarrow> string \<Rightarrow> string" where
  "module_directory n path =
    (if n = 0 \<or> 260 \<le> n then ''.''
     else
       let full = take n path in
       if list_all (\<lambda>c. c \<noteq> backslash \<and> c \<noteq> CHR ''/'') full then ''.''
       else rev (tl (dropWhile (\<lambda>c. c \<noteq> backslash \<and> c \<noteq> CHR ''/'') (rev full))))"

text \<open>What the program is started with: its path, its command line, the library and the environment.\<close>

record launched =
  ln_target :: string
  ln_command_line :: string
  ln_dll :: string
  ln_environment :: environment

text \<open>The whole program: the path of the launcher, which files exist, and the exit code of the program if it could
  be started. The result is the exit code and what was started, if anything.\<close>

definition launch_main ::
    "string list \<Rightarrow> nat \<times> string \<Rightarrow> (string \<Rightarrow> bool) \<Rightarrow> int option \<Rightarrow> environment \<Rightarrow> int \<times> launched option" where
  "launch_main argv module exists started env =
    (case parse_options default_options (tl argv) of
       Inl code \<Rightarrow> (code, None)
     | Inr opts \<Rightarrow>
         if lo_target opts = [] then (2, None)
         else
           let dll = (if lo_dll opts = [] then module_directory (fst module) (snd module) @ [backslash] @ ''meminfo_hook.dll''
                      else lo_dll opts)
           in if \<not> exists dll then (1, None)
              else (case started of
                 None \<Rightarrow> (1, None)
               | Some code \<Rightarrow>
                   (code, Some \<lparr>ln_target = lo_target opts, ln_command_line = command_line (lo_target opts) (lo_args opts),
                                ln_dll = dll, ln_environment = launch_environment opts env\<rparr>)))"

section \<open>The program's arguments\<close>

text \<open>How a C runtime on Windows splits a command line. \<open>n\<close> is the number of backslashes just read: before a
  quotation mark each pair is one backslash, and an odd one makes the mark a character. Two marks in
  a row inside a quoted part are one mark.\<close>

fun crt_arg :: "bool \<Rightarrow> nat \<Rightarrow> string \<Rightarrow> string \<Rightarrow> string \<times> string" where
  "crt_arg quoted n acc [] = (acc @ replicate n backslash, [])"
| "crt_arg quoted n acc (c # cs) =
    (if c = backslash then crt_arg quoted (n + 1) acc cs
     else if c = quote then
       if odd n then crt_arg quoted 0 (acc @ replicate (n div 2) backslash @ [quote]) cs
       else if quoted \<and> cs \<noteq> [] \<and> hd cs = quote
       then crt_arg quoted 0 (acc @ replicate (n div 2) backslash @ [quote]) (tl cs)
       else crt_arg (\<not> quoted) 0 (acc @ replicate (n div 2) backslash) cs
     else if \<not> quoted \<and> (c = CHR '' '' \<or> c = CHR 0x09) then (acc @ replicate n backslash, cs)
     else crt_arg quoted 0 (acc @ replicate n backslash @ [c]) cs)"

lemma crt_arg_shorter: "length (snd (crt_arg quoted n acc s)) \<le> length s - 1"
  by (induction quoted n acc s rule: crt_arg.induct) auto

function crt_args :: "string \<Rightarrow> string list" where
  "crt_args s =
    (case dropWhile (\<lambda>c. c = CHR '' '' \<or> c = CHR 0x09) s of
       [] \<Rightarrow> []
     | c # cs \<Rightarrow> (case crt_arg False 0 [] (c # cs) of (arg, rest) \<Rightarrow> arg # crt_args rest))"
  by pat_completeness auto
termination
proof (relation "measure length")
  fix s c cs arg rest
  assume "dropWhile (\<lambda>c. c = CHR '' '' \<or> c = CHR 0x09) s = c # cs" "(arg, rest) = crt_arg False 0 [] (c # cs)"
  then show "(rest, s) \<in> measure length"
    using crt_arg_shorter [of False 0 "[]" "c # cs"] length_dropWhile_le [of "\<lambda>c. c = CHR '' '' \<or> c = CHR 0x09" s]
    by (metis in_measure le_less_trans less_le_trans length_Cons diff_Suc_1 lessI snd_conv)
qed simp

declare crt_args.simps [simp del]

text \<open>The first argument is the program, which ends at the next mark if it starts with one.\<close>

definition crt_argv :: "string \<Rightarrow> string list" where
  "crt_argv s =
    (if s \<noteq> [] \<and> hd s = quote
     then takeWhile (\<lambda>c. c \<noteq> quote) (tl s) # crt_args (tl (dropWhile (\<lambda>c. c \<noteq> quote) (tl s)))
     else takeWhile (\<lambda>c. c \<noteq> CHR '' '' \<and> c \<noteq> CHR 0x09) s # crt_args (dropWhile (\<lambda>c. c \<noteq> CHR '' '' \<and> c \<noteq> CHR 0x09) s))"

section \<open>Arguments arrive\<close>

text \<open>An argument that the launcher quotes correctly: it has no quotation mark and does not end with a
  backslash.\<close>

definition simple_arg :: "string \<Rightarrow> bool" where
  "simple_arg a \<longleftrightarrow> quote \<notin> set a \<and> (a \<noteq> [] \<longrightarrow> last a \<noteq> backslash)"

lemma quote_not_backslash [simp]: "quote \<noteq> backslash" "backslash \<noteq> quote" "quote \<noteq> CHR '' ''" "quote \<noteq> CHR 0x09"
  by (simp_all add: quote_def backslash_def)

lemma crt_arg_quoted:
  assumes "quote \<notin> set a" "a = [] \<Longrightarrow> n = 0" "a \<noteq> [] \<Longrightarrow> last a \<noteq> backslash" "rest = [] \<or> hd rest \<noteq> quote"
  shows "crt_arg True n acc (a @ quote # rest) = crt_arg False 0 (acc @ replicate n backslash @ a) rest"
  using assms
proof (induction a arbitrary: n acc)
  case Nil
  then show ?case by auto
next
  case (Cons c cs)
  show ?case
  proof (cases "c = backslash")
    case True
    then have "cs \<noteq> []" using Cons.prems(3) by auto
    then show ?thesis using Cons.IH [of "n + 1" acc] Cons.prems True
      by (simp add: replicate_append_same flip: replicate_append_same)
  next
    case False
    then show ?thesis using Cons.IH [of 0 "acc @ replicate n backslash @ [c]"] Cons.prems
      by (auto split: if_splits)
  qed
qed

lemma crt_args_blank: "crt_args (CHR '' '' # s) = crt_args s"
  by (simp add: crt_args.simps)

lemma crt_args_quoted:
  assumes "simple_arg a" "rest = [] \<or> hd rest = CHR '' ''"
  shows "crt_args (quote # a @ quote # rest) = a # crt_args rest"
proof -
  have "rest = [] \<or> hd rest \<noteq> quote" using assms(2) by (auto simp: quote_def)
  then have "crt_arg False 0 [] (quote # a @ quote # rest) = crt_arg False 0 a rest"
    using crt_arg_quoted [of a 0 rest "[]"] assms(1) by (auto simp: simple_arg_def)
  also have "\<dots> = (a, tl rest)" using assms(2) by (cases rest) (auto simp: backslash_def quote_def)
  finally have "crt_args (quote # a @ quote # rest) = a # crt_args (tl rest)"
    by (subst crt_args.simps) simp
  moreover have "crt_args (tl rest) = crt_args rest" using assms(2) by (cases rest) (auto simp: crt_args_blank)
  ultimately show ?thesis by simp
qed

lemma crt_args_all:
  "list_all simple_arg args \<Longrightarrow> crt_args (concat (map (\<lambda>arg. CHR '' '' # quote # arg @ [quote]) args)) = args"
proof (induction args)
  case Nil
  then show ?case by (simp add: crt_args.simps)
next
  case (Cons a args)
  let ?rest = "concat (map (\<lambda>arg. CHR '' '' # quote # arg @ [quote]) args)"
  have "?rest = [] \<or> hd ?rest = CHR '' ''" by (cases args) auto
  then show ?case using crt_args_quoted [of a ?rest] Cons by (simp add: crt_args_blank)
qed

lemma crt_argv_command_line:
  assumes "quote \<notin> set target" "list_all simple_arg args"
  shows "crt_argv (command_line target args) = target # args"
proof -
  let ?rest = "concat (map (\<lambda>arg. CHR '' '' # quote # arg @ [quote]) args)"
  have "takeWhile (\<lambda>c. c \<noteq> quote) (target @ quote # ?rest) = target"
    "dropWhile (\<lambda>c. c \<noteq> quote) (target @ quote # ?rest) = quote # ?rest"
    using assms(1) by (auto simp: takeWhile_append dropWhile_append)
  then show ?thesis using crt_args_all [OF assms(2)] by (simp add: crt_argv_def command_line_def)
qed

section \<open>The configuration arrives\<close>

lemma set_env_lookup: "set_env name val env x = (if x = name \<and> val \<noteq> [] then Some val else env x)"
  by (simp add: set_env_def)

lemma launch_environment_lookup:
  "launch_environment opts env ''MEMINFO_HOOK_MODE'' = (if lo_mode opts = [] then env ''MEMINFO_HOOK_MODE'' else Some (lo_mode opts))"
  "launch_environment opts env ''MEMINFO_PEER'' = (if lo_peer opts = [] then env ''MEMINFO_PEER'' else Some (lo_peer opts))"
  "launch_environment opts env ''MEMINFO_PORT'' = (if lo_port opts = [] then env ''MEMINFO_PORT'' else Some (lo_port opts))"
  "launch_environment opts env ''MEMINFO_SOCKET'' = (if lo_socket opts = [] then env ''MEMINFO_SOCKET'' else Some (lo_socket opts))"
  "launch_environment opts env ''MEMINFO_THRESHOLD'' = (if lo_threshold opts = [] then env ''MEMINFO_THRESHOLD'' else Some (lo_threshold opts))"
  "launch_environment opts env ''MEMINFO_HEAP_SIZE'' = (if lo_heap_size opts = [] then env ''MEMINFO_HEAP_SIZE'' else Some (lo_heap_size opts))"
  "launch_environment opts env ''MEMINFO_BUDGET'' = (if lo_budget opts = [] then env ''MEMINFO_BUDGET'' else Some (lo_budget opts))"
  "launch_environment opts env ''MEMINFO_PAGE'' = (if lo_page opts = [] then env ''MEMINFO_PAGE'' else Some (lo_page opts))"
  "launch_environment opts env ''MEMINFO_LOG'' = (if lo_log opts = [] then env ''MEMINFO_LOG'' else Some (lo_log opts))"
  "launch_environment opts env ''MEMINFO_MAX_LOCAL'' = env ''MEMINFO_MAX_LOCAL''"
  by (simp_all add: launch_environment_def set_env_lookup Let_def)

text \<open>A value that is too long for the library's buffer is not read there.\<close>

definition passable :: "string \<Rightarrow> bool" where
  "passable v \<longleftrightarrow> v \<noteq> [] \<and> length v < 1024"



text \<open>An argument that ends with a backslash swallows the mark after it, and with it the next argument.\<close>

lemma trailing_backslash_merges:
  "crt_argv (command_line ''p'' [[CHR ''C'', CHR '':'', CHR 0x5C], ''b'']) \<noteq> [''p'', [CHR ''C'', CHR '':'', CHR 0x5C], ''b'']"
  by (simp add: crt_argv_def command_line_def quote_def backslash_def crt_args.simps)

end
