(* ===== verification/MemoryMonitor.thy ===== *)
theory MemoryMonitor
  imports DecimalText
begin

text \<open>
  The memory monitors (\<open>platform/src/linux/memory_monitor_linux.cpp\<close> and its Windows and macOS
  counterparts): the figures of the machine, and the callback when little memory is left. On Linux the
  figures are read from the text of \<open>/proc/meminfo\<close> with stream extraction; elsewhere the system calls'
  results are arguments. The threads are modelled by what one turn of their loop does.
\<close>

record memory_stats =
  ms_total :: nat
  ms_free :: nat
  ms_available :: nat

definition no_stats :: memory_stats where
  "no_stats = \<lparr>ms_total = 0, ms_free = 0, ms_available = 0\<rparr>"

section \<open>Linux\<close>

text \<open>Extraction from a stream: the value and what is left, or failure.\<close>

definition extract_word :: "string \<Rightarrow> (string \<times> string) option" where
  "extract_word s =
    (let s1 = dropWhile is_space s; w = takeWhile (\<lambda>c. \<not> is_space c) s1
     in if w = [] then None else Some (w, dropWhile (\<lambda>c. \<not> is_space c) s1))"

definition extract_size :: "string \<Rightarrow> (nat \<times> string) option" where
  "extract_size s =
    (let s1 = dropWhile is_space s;
         neg = (s1 \<noteq> [] \<and> hd s1 = CHR ''-'');
         s2 = (if s1 \<noteq> [] \<and> (hd s1 = CHR ''-'' \<or> hd s1 = CHR ''+'') then tl s1 else s1);
         digits = takeWhile is_digit s2
     in if digits = [] \<or> W64 \<le> dec_value digits then None
        else Some (if neg then (W64 - dec_value digits) mod W64 else dec_value digits, dropWhile is_digit s2))"

definition line_entry :: "string \<Rightarrow> (string \<times> nat) option" where
  "line_entry line =
    (case extract_word line of
       None \<Rightarrow> None
     | Some (key, s1) \<Rightarrow>
         (case extract_size s1 of
            None \<Rightarrow> None
          | Some (val, s2) \<Rightarrow> (case extract_word s2 of None \<Rightarrow> None | Some (unit_name, _) \<Rightarrow> Some (key, val))))"

definition update_stats :: "memory_stats \<Rightarrow> string \<times> nat \<Rightarrow> memory_stats" where
  "update_stats stats entry =
    (if fst entry = ''MemTotal:'' then stats\<lparr>ms_total := u64_mul (snd entry) 1024\<rparr>
     else if fst entry = ''MemFree:'' then stats\<lparr>ms_free := u64_mul (snd entry) 1024\<rparr>
     else if fst entry = ''MemAvailable:'' then stats\<lparr>ms_available := u64_mul (snd entry) 1024\<rparr>
     else stats)"

text \<open>The lines \<open>std::getline\<close> gives.\<close>

function lines_of :: "string \<Rightarrow> string list" where
  "lines_of s =
    (if s = [] then []
     else takeWhile (\<lambda>c. c \<noteq> CHR 0x0A) s # lines_of (tl (dropWhile (\<lambda>c. c \<noteq> CHR 0x0A) s)))"
  by pat_completeness auto
termination
proof (relation "measure length")
  fix s :: string assume s: "s \<noteq> []"
  have "length (dropWhile (\<lambda>c. c \<noteq> CHR 0x0A) s) \<le> length s" by (rule length_dropWhile_le)
  then show "(tl (dropWhile (\<lambda>c. c \<noteq> CHR 0x0A) s), s) \<in> measure length" using s by (cases s) auto
qed simp

declare lines_of.simps [simp del]

definition linux_get_stats :: "string \<Rightarrow> memory_stats" where
  "linux_get_stats text =
    foldl (\<lambda>stats line. case line_entry line of None \<Rightarrow> stats | Some e \<Rightarrow> update_stats stats e)
      no_stats (lines_of text)"

definition kPressureThreshold :: nat where
  "kPressureThreshold = 500 * 1024 * 1024"

text \<open>A turn of the polling loop that is not stopped: whether the callback is called.\<close>

definition linux_poll :: "bool \<Rightarrow> string \<Rightarrow> bool" where
  "linux_poll has_callback text \<longleftrightarrow> has_callback \<and> ms_available (linux_get_stats text) < kPressureThreshold"

section \<open>Windows and macOS\<close>

text \<open>The physical memory and what is available of it, if the call succeeds.\<close>

definition win_get_stats :: "(nat \<times> nat) option \<Rightarrow> memory_stats" where
  "win_get_stats status =
    (case status of
       None \<Rightarrow> no_stats
     | Some (phys, avail) \<Rightarrow> \<lparr>ms_total = phys, ms_free = avail, ms_available = avail\<rparr>)"

definition win_poll :: "bool \<Rightarrow> (nat \<times> nat) option \<Rightarrow> bool" where
  "win_poll has_callback status \<longleftrightarrow> has_callback \<and> ms_available (win_get_stats status) < 500 * 1024 * 1024"

text \<open>The counters of free and inactive pages have 32 bits and are added as such.\<close>

definition mac_get_stats :: "nat \<Rightarrow> (uint32 \<times> uint32) option \<Rightarrow> nat \<Rightarrow> memory_stats" where
  "mac_get_stats pagesize counts physical =
    (case counts of
       None \<Rightarrow> no_stats
     | Some (free_count, inactive_count) \<Rightarrow>
         \<lparr>ms_total = physical, ms_free = u64_mul (unat free_count) pagesize,
          ms_available = u64_mul (unat (free_count + inactive_count)) pagesize\<rparr>)"

section \<open>Reading the file\<close>

text \<open>A line as the kernel prints it.\<close>

definition meminfo_line :: "nat \<Rightarrow> string \<times> nat \<Rightarrow> string" where
  "meminfo_line pad entry = fst entry @ replicate (Suc pad) (CHR '' '') @ show_nat (snd entry) @ '' kB''"

definition plain_key :: "string \<Rightarrow> bool" where
  "plain_key key \<longleftrightarrow> key \<noteq> [] \<and> list_all (\<lambda>c. \<not> is_space c) key"

lemma space_is_space [simp]: "is_space (CHR '' '')"
  by (simp add: is_space_def)

lemma dropWhile_blanks: "s = [] \<or> \<not> is_space (hd s) \<Longrightarrow> dropWhile is_space (replicate n (CHR '' '') @ s) = s"
  by (induction n) (auto, cases s, auto)

lemma extract_word_plain:
  assumes "plain_key w" "rest = [] \<or> is_space (hd rest)"
  shows "extract_word (w @ rest) = Some (w, rest)"
proof -
  have "takeWhile (\<lambda>c. \<not> is_space c) (w @ rest) = w" "dropWhile (\<lambda>c. \<not> is_space c) (w @ rest) = rest"
    using assms by (auto simp: plain_key_def list_all_iff takeWhile_append dropWhile_append, (cases rest; auto)+)
  moreover have "dropWhile is_space (w @ rest) = w @ rest" using assms(1) by (cases w) (auto simp: plain_key_def)
  ultimately show ?thesis using assms(1) by (simp add: extract_word_def Let_def plain_key_def)
qed

lemma extract_size_digits:
  assumes "n < W64"
  shows "extract_size (replicate k (CHR '' '') @ show_nat n @ '' kB'') = Some (n, '' kB'')"
proof -
  obtain c cs where ds: "show_nat n = c # cs" using show_nat_nonempty [of n] by (cases "show_nat n") auto
  have c: "\<not> is_space c" "c \<noteq> CHR ''-''" "c \<noteq> CHR ''+''"
    using show_nat_digits [of n] ds digit_not_special [of c] by auto
  have sp: "\<not> is_digit (CHR '' '')" by (simp add: is_digit_def digit_value_def upt_rec)
  have "takeWhile is_digit (show_nat n @ '' kB'') = show_nat n"
    using takeWhile_digits [OF show_nat_digits, of "'' kB''" n] sp by simp
  moreover have "dropWhile is_digit (show_nat n @ '' kB'') = '' kB''"
    using show_nat_digits [of n] sp by (simp add: dropWhile_append list_all_iff)
  moreover have "dropWhile is_space (replicate k (CHR '' '') @ show_nat n @ '' kB'') = show_nat n @ '' kB''"
    using dropWhile_blanks [of "show_nat n @ '' kB''" k] c(1) ds by simp
  moreover have "hd (show_nat n @ '' kB'') = c" by (simp add: ds)
  ultimately show ?thesis using assms c(2,3) by (simp add: extract_size_def Let_def dec_value_string)
qed

lemma line_entry_line:
  assumes "plain_key (fst e)" "snd e < W64"
  shows "line_entry (meminfo_line pad e) = Some e"
proof -
  have "extract_word (meminfo_line pad e) =
      Some (fst e, replicate (Suc pad) (CHR '' '') @ show_nat (snd e) @ '' kB'')"
    unfolding meminfo_line_def using assms(1) by (intro extract_word_plain) simp_all
  moreover have "extract_word '' kB'' \<noteq> None" by (simp add: extract_word_def is_space_def Let_def)
  ultimately show ?thesis
    using extract_size_digits [OF assms(2), of "Suc pad"]
    by (auto simp: line_entry_def simp del: replicate_Suc split: option.split)
qed

lemma line_without_newline: "plain_key (fst e) \<Longrightarrow> CHR 0x0A \<notin> set (meminfo_line pad e)"
proof -
  assume "plain_key (fst e)"
  moreover have "CHR 0x0A \<notin> set (show_nat n)" for n
    using show_nat_digits [of n] digit_not_special [of "CHR 0x0A"] by (auto simp: list_all_iff is_space_def)
  ultimately show ?thesis by (auto simp: meminfo_line_def plain_key_def list_all_iff is_space_def)
qed

lemma lines_of_lines:
  "list_all (\<lambda>l. CHR 0x0A \<notin> set l) ls \<Longrightarrow> lines_of (concat (map (\<lambda>l. l @ [CHR 0x0A]) ls)) = ls"
proof (induction ls)
  case (Cons l ls)
  let ?rest = "concat (map (\<lambda>l. l @ [CHR 0x0A]) ls)"
  have "takeWhile (\<lambda>c. c \<noteq> CHR 0x0A) (l @ CHR 0x0A # ?rest) = l"
    "dropWhile (\<lambda>c. c \<noteq> CHR 0x0A) (l @ CHR 0x0A # ?rest) = CHR 0x0A # ?rest"
    using Cons.prems by (auto simp: takeWhile_append dropWhile_append)
  then show ?case using Cons by (subst lines_of.simps) simp
qed (simp add: lines_of.simps)

lemma foldl_update_stats:
  "distinct (map fst es) \<Longrightarrow>
   foldl update_stats stats es =
     \<lparr>ms_total = (case map_of es ''MemTotal:'' of None \<Rightarrow> ms_total stats | Some n \<Rightarrow> u64_mul n 1024),
      ms_free = (case map_of es ''MemFree:'' of None \<Rightarrow> ms_free stats | Some n \<Rightarrow> u64_mul n 1024),
      ms_available = (case map_of es ''MemAvailable:'' of None \<Rightarrow> ms_available stats | Some n \<Rightarrow> u64_mul n 1024)\<rparr>"
proof (induction es arbitrary: stats)
  case (Cons e es)
  obtain k n where e: "e = (k, n)" by (cases e)
  have none: "map_of es k = None" using Cons.prems e by (simp add: map_of_eq_None_iff)
  have ih: "foldl update_stats stats (e # es) =
     \<lparr>ms_total = (case map_of es ''MemTotal:'' of None \<Rightarrow> ms_total (update_stats stats e) | Some n \<Rightarrow> u64_mul n 1024),
      ms_free = (case map_of es ''MemFree:'' of None \<Rightarrow> ms_free (update_stats stats e) | Some n \<Rightarrow> u64_mul n 1024),
      ms_available = (case map_of es ''MemAvailable:'' of None \<Rightarrow> ms_available (update_stats stats e) | Some n \<Rightarrow> u64_mul n 1024)\<rparr>"
    using Cons by simp
  consider "k = ''MemTotal:''" | "k = ''MemFree:''" | "k = ''MemAvailable:''"
    | "k \<noteq> ''MemTotal:''" "k \<noteq> ''MemFree:''" "k \<noteq> ''MemAvailable:''" by blast
  then show ?case unfolding ih by cases (use none in \<open>simp_all add: e update_stats_def split: option.split\<close>)
qed simp

text \<open>The figures read are those the kernel printed, in bytes.\<close>

lemma linux_get_stats_reads:
  assumes "distinct (map fst es)" "list_all (\<lambda>e. plain_key (fst e) \<and> snd e < W64) es"
  shows "linux_get_stats (concat (map (\<lambda>e. meminfo_line pad e @ [CHR 0x0A]) es)) =
    \<lparr>ms_total = (case map_of es ''MemTotal:'' of None \<Rightarrow> 0 | Some n \<Rightarrow> u64_mul n 1024),
     ms_free = (case map_of es ''MemFree:'' of None \<Rightarrow> 0 | Some n \<Rightarrow> u64_mul n 1024),
     ms_available = (case map_of es ''MemAvailable:'' of None \<Rightarrow> 0 | Some n \<Rightarrow> u64_mul n 1024)\<rparr>"
proof -
  have "list_all (\<lambda>l. CHR 0x0A \<notin> set l) (map (meminfo_line pad) es)"
    using assms(2) line_without_newline by (auto simp: list_all_iff)
  from lines_of_lines [OF this]
  have "lines_of (concat (map (\<lambda>e. meminfo_line pad e @ [CHR 0x0A]) es)) = map (meminfo_line pad) es"
    by (simp add: comp_def)
  moreover have "foldl (\<lambda>stats line. case line_entry line of None \<Rightarrow> stats | Some e \<Rightarrow> update_stats stats e) st
      (map (meminfo_line pad) es) = foldl update_stats st es" for st
    using assms(2) by (induction es arbitrary: st) (auto simp: line_entry_line)
  ultimately show ?thesis 
    by (simp add: linux_get_stats_def foldl_update_stats [OF assms(1)] no_stats_def split: option.split)
qed

text \<open>When the file cannot be read the figures are 0, and memory counts as short.\<close>

lemma unreadable_counts_as_pressure: "linux_poll True []" "win_poll True None"
  by (simp_all add: linux_poll_def linux_get_stats_def lines_of.simps no_stats_def kPressureThreshold_def
      win_poll_def win_get_stats_def)

end
