(* ===== verification/HeapProbe.thy ===== *)
theory HeapProbe
  imports DecimalText
begin

text \<open>
  The probe tool (\<open>tools/remote_heap_probe.cpp\<close>): how it reads sizes, the pattern it writes through the
  pointer of a remote heap, and the pass that reads the region back. The options are parsed by a
  third-party library and the figures it prints are left out.
\<close>

section \<open>Sizes\<close>

definition multiplier_of :: "char \<Rightarrow> nat option" where
  "multiplier_of suffix =
    (if suffix = CHR ''K'' \<or> suffix = CHR ''k'' then Some 1024
     else if suffix = CHR ''M'' \<or> suffix = CHR ''m'' then Some (1024 * 1024)
     else if suffix = CHR ''G'' \<or> suffix = CHR ''g'' then Some (1024 * 1024 * 1024)
     else None)"

text \<open>The size, if the text is accepted. The product wraps.\<close>

definition parse_size :: "string \<Rightarrow> nat option" where
  "parse_size s =
    (if s = [] then None
     else
       let digits = (if multiplier_of (last s) = None then s else butlast s);
           multiplier = (case multiplier_of (last s) of None \<Rightarrow> 1 | Some m \<Rightarrow> m)
       in case stoull digits of
            Inl e \<Rightarrow> None
          | Inr v \<Rightarrow> let out = u64_mul v multiplier in if out = 0 then None else Some out)"

section \<open>The passes\<close>

definition expected_byte :: "nat \<Rightarrow> byte" where
  "expected_byte index = ucast (drop_bit 16 (of_nat index * 1103515245 + 12345 :: uint64))"

text \<open>The write pass stores to every byte in turn.\<close>

function probe_write :: "nat \<Rightarrow> nat \<Rightarrow> bytes \<Rightarrow> bytes" where
  "probe_write i region_size bs =
    (if region_size \<le> i then bs else probe_write (i + 1) region_size (bs[i := expected_byte i]))"
  by pat_completeness auto
termination
  by (relation "measure (\<lambda>(i, region_size, bs). region_size - i)") auto

declare probe_write.simps [simp del]

text \<open>The read pass: the number of bytes that differ and the first offset that does.\<close>

fun verify_pass :: "nat \<Rightarrow> bytes \<Rightarrow> nat \<times> nat \<Rightarrow> nat \<times> nat" where
  "verify_pass i [] r = r"
| "verify_pass i (b # bs) (mismatches, first) =
    (if b \<noteq> expected_byte i
     then verify_pass (i + 1) bs (mismatches + 1, if mismatches = 0 then i else first)
     else verify_pass (i + 1) bs (mismatches, first))"

text \<open>The exit code, given the three sizes as text, whether client and heap could be set up, and what the region
  reads after the write pass and the eviction of all pages.\<close>

definition probe_main :: "string \<Rightarrow> string \<Rightarrow> string \<Rightarrow> bool \<Rightarrow> (bytes \<Rightarrow> bytes) \<Rightarrow> (nat \<Rightarrow> nat) \<Rightarrow> int" where
  "probe_main size_text budget_text page_text usable region heap_size =
    (case parse_size size_text of
       None \<Rightarrow> 2
     | Some size_bytes \<Rightarrow>
         if parse_size budget_text = None \<or> parse_size page_text = None then 2
         else if \<not> usable then 1
         else
           let region_size = heap_size size_bytes;
               written = probe_write 0 region_size (replicate region_size 0)
           in if fst (verify_pass 0 (region written) (0, 0)) \<noteq> 0 then 1 else 0)"

section \<open>Properties\<close>

lemma not_suffix: "is_digit c \<Longrightarrow> multiplier_of c = None"
  by (auto simp: is_digit_def digit_value_def multiplier_of_def upt_rec split: if_splits)

text \<open>A plain number is read as such; with a suffix it is multiplied, and what does not fit 64 bits is reduced
  without notice.\<close>

lemma parse_size_plain: "0 < n \<Longrightarrow> n < W64 \<Longrightarrow> parse_size (show_nat n) = Some n"
proof -
  assume n: "0 < n" "n < W64"
  have "is_digit (last (show_nat n))"
    using show_nat_digits [of n] by (simp add: list_all_iff)
  then have "multiplier_of (last (show_nat n)) = None" by (rule not_suffix)
  then show ?thesis using n by (simp add: parse_size_def stoull_show_nat u64_mul_def)
qed

lemma parse_size_suffix:
  assumes "n < W64" "multiplier_of c = Some m"
  shows "parse_size (show_nat n @ [c]) = (if n * m mod W64 = 0 then None else Some (n * m mod W64))"
  using assms by (simp add: parse_size_def stoull_show_nat u64_mul_def Let_def)

lemma parse_size_wraps: "parse_size (show_nat (2 ^ 34 + 1) @ ''G'') = Some (2 ^ 30)"
proof -
  have small: "2 ^ 30 < W64" "2 ^ 34 + 1 < W64" by (simp_all add: W64_def)
  have "(2 ^ 34 + 1) * 2 ^ 30 = 2 ^ 30 + W64" by (simp add: W64_def)
  then have "(2 ^ 34 + 1) * 2 ^ 30 mod W64 = 2 ^ 30" by (simp only: mod_add_self2 mod_less [OF small(1)])
  moreover have "multiplier_of (CHR ''G'') = Some (2 ^ 30)" by (simp add: multiplier_of_def)
  ultimately show ?thesis using parse_size_suffix [of "2 ^ 34 + 1" "CHR ''G''" "2 ^ 30"] small(2)
    by (simp only: if_False power_eq_0_iff refl) simp
qed

text \<open>The read pass counts exactly the bytes that differ from the pattern, so that the tool succeeds only when
  the region returns all of it.\<close>

lemma verify_pass_count:
  "fst (verify_pass i bs (k, f)) = k + length (filter (\<lambda>(j, b). b \<noteq> expected_byte j) (enumerate i bs))"
  by (induction bs arbitrary: i k f) simp_all

lemma length_probe_write: "length (probe_write i region_size bs) = length bs"
  by (induction i region_size bs rule: probe_write.induct) (subst probe_write.simps, simp)

lemma probe_write_nth:
  "length bs = region_size \<Longrightarrow> j < region_size \<Longrightarrow> probe_write i region_size bs ! j = (if i \<le> j then expected_byte j else bs ! j)"
proof (induction i region_size bs rule: probe_write.induct)
  case (1 i region_size bs)
  show ?case
  proof (cases "region_size \<le> i")
    case True
    then show ?thesis using 1(3) by (subst probe_write.simps) simp
  next
    case False
    then have "probe_write i region_size bs ! j = probe_write (i + 1) region_size (bs[i := expected_byte i]) ! j"
      by (subst probe_write.simps) simp
    also have "\<dots> = (if i + 1 \<le> j then expected_byte j else bs[i := expected_byte i] ! j)"
      using 1(1) [OF False] 1(2,3) by simp
    finally show ?thesis using 1(2,3) False by (cases "j = i") auto
  qed
qed

lemma verify_pass_exact: "fst (verify_pass 0 bs (0, 0)) = 0 \<longleftrightarrow> (\<forall>j < length bs. bs ! j = expected_byte j)"
proof -
  have "fst (verify_pass 0 bs (0, 0)) = 0 \<longleftrightarrow> (\<forall>(j, b) \<in> set (enumerate 0 bs). b = expected_byte j)"
    by (auto simp: verify_pass_count filter_empty_conv)
  also have "\<dots> \<longleftrightarrow> (\<forall>j < length bs. bs ! j = expected_byte j)"
    by (auto simp: in_set_enumerate_eq)
  finally show ?thesis .
qed

text \<open>A heap that keeps its contents passes, one that loses a byte does not.\<close>

lemma probe_detects_loss:
  assumes "parse_size st = Some n" "parse_size bt \<noteq> None" "parse_size pt \<noteq> None"
    and "\<And>bs. length (region bs) = length bs"
  shows "probe_main st bt pt True region hs = 0 \<longleftrightarrow>
    region (probe_write 0 (hs n) (replicate (hs n) 0)) = probe_write 0 (hs n) (replicate (hs n) 0)"
proof -
  let ?w = "probe_write 0 (hs n) (replicate (hs n) 0)"
  have w: "length ?w = hs n" "\<And>j. j < hs n \<Longrightarrow> ?w ! j = expected_byte j"
    by (simp_all add: length_probe_write probe_write_nth)
  have "fst (verify_pass 0 (region ?w) (0, 0)) = 0 \<longleftrightarrow> region ?w = ?w"
    unfolding verify_pass_exact using w assms(4) [of ?w] by (auto intro: nth_equalityI)
  then show ?thesis using assms(1-3) by (auto simp: probe_main_def Let_def)
qed

end
