(* ===== verification/CommonIo.thy ===== *)
theory CommonIo
  imports DecimalText
begin

text \<open>
  Two operations of the common layer that meet the system: opening a configuration file
  (\<open>common/src/config.cpp\<close>), where the TOML parser is a parameter, and drawing random bytes on Linux
  (\<open>platform/src/linux/random_linux.cpp\<close>), where the results of \<open>getrandom\<close> are a script. The second
  discharges what the generation of identifiers relies on.
\<close>

section \<open>Configuration files\<close>

text \<open>The parser returns the line and description of an error, or the table.\<close>

definition Config_load ::
    "(string \<Rightarrow> (nat \<times> string) + 'node toml_table) \<Rightarrow> string \<Rightarrow> cpp_error + 'node toml_table" where
  "Config_load parse_file filepath =
    (case parse_file filepath of
       Inl (line, description) \<Rightarrow>
         Inl (RuntimeError (''TOML Parse Error at '' @ filepath @ '':'' @ show_nat line @ '': '' @ description))
     | Inr table \<Rightarrow> Inr table)"

text \<open>\<open>get_string\<close> is a lookup at the type of strings.\<close>

definition Config_get_string ::
    "'node toml_table \<Rightarrow> ('node \<Rightarrow> string option) \<Rightarrow> string \<Rightarrow> string \<Rightarrow> string \<Rightarrow> string" where
  "Config_get_string table value_as sect key default_val =
    (case table sect key of
       Some node \<Rightarrow> (case value_as node of Some v \<Rightarrow> v | None \<Rightarrow> default_val)
     | None \<Rightarrow> default_val)"

lemma Config_get_string_get: "Config_get_string table value_as = Config_get table value_as"
  by (intro ext) (simp add: Config_get_string_def Config_get_def)

text \<open>The message tells the line: two errors in different lines of a file are told apart.\<close>

lemma Config_load_names_line:
  assumes "Config_load p1 f = Inl e" "Config_load p2 f = Inl e" "p1 f = Inl (l1, d1)" "p2 f = Inl (l2, d2)"
  shows "l1 = l2"
proof -
  have "show_nat l1 @ '': '' @ d1 = show_nat l2 @ '': '' @ d2"
    using assms by (auto simp: Config_load_def)
  moreover have "\<not> is_digit (CHR '':'')" by (simp add: is_digit_def digit_value_def upt_rec)
  ultimately have "show_nat l1 = show_nat l2"
    using takeWhile_digits [OF show_nat_digits, of "'': '' @ d1" l1] takeWhile_digits [OF show_nat_digits, of "'': '' @ d2" l2]
    by simp
  then show ?thesis by (rule show_nat_inject)
qed

section \<open>Random bytes\<close>

datatype random_event = Drawn bytes | RandomInterrupted | RandomFailed

text \<open>The bytes drawn so far are in \<open>buffer\<close>. A script that ends is a call that does not return.\<close>

fun generate_random_bytes :: "random_event list \<Rightarrow> nat \<Rightarrow> bytes \<Rightarrow> cpp_error + bytes" where
  "generate_random_bytes [] sz buffer = (if length buffer < sz then Inl Nontermination else Inr buffer)"
| "generate_random_bytes (ev # evs) sz buffer =
    (if \<not> length buffer < sz then Inr buffer
     else case ev of
       RandomFailed \<Rightarrow> Inl (RuntimeError ''getrandom failed'')
     | RandomInterrupted \<Rightarrow> generate_random_bytes evs sz buffer
     | Drawn bs \<Rightarrow> generate_random_bytes evs sz (buffer @ take (sz - length buffer) bs))"

lemma generate_random_bytes_length:
  "generate_random_bytes evs sz buffer = Inr bs \<Longrightarrow> length buffer \<le> sz \<Longrightarrow> length bs = sz"
  by (induction evs sz buffer rule: generate_random_bytes.induct)
    (auto split: if_splits random_event.splits)

text \<open>The loop returns once enough bytes were drawn, whatever interrupts it.\<close>

fun drawn :: "random_event list \<Rightarrow> nat" where
  "drawn [] = 0"
| "drawn (Drawn bs # evs) = length bs + drawn evs"
| "drawn (_ # evs) = drawn evs"

lemma generate_random_bytes_returns:
  "RandomFailed \<notin> set evs \<Longrightarrow> sz \<le> length buffer + drawn evs \<Longrightarrow> \<exists>bs. generate_random_bytes evs sz buffer = Inr bs"
proof (induction evs sz buffer rule: generate_random_bytes.induct)
  case (2 ev evs sz buffer)
  then show ?case by (cases ev) auto
qed simp

text \<open>An identifier made from the system's bytes has the form of version 4.\<close>

lemma system_uuid_version_4:
  assumes "generate_random_bytes evs 16 [] = Inr bs"
  shows "drop_bit 4 (generate_uuid (\<lambda>_. bs) ! 6) = 4" "drop_bit 6 (generate_uuid (\<lambda>_. bs) ! 8) = 2"
  using generate_uuid_version_4 [of "\<lambda>_. bs"] generate_random_bytes_length [OF assms] by simp_all

end
