(* ===== verification/Spec2Isabelle.thy ===== *)
theory Spec2Isabelle
  imports MemoryDaemon Cluster MallocHook PageFaultLinux PageFaultWin PageFaultMac Discovery Gpu LocalIpcWin LanPaging LanGpu
    HttpStatus Launcher MemoryMonitor HeapProbe CommonIo
begin

text \<open>
  MemInfo shares RAM and GPU memory over a LAN. A node that offers memory runs \<open>memoryd\<close>, which
  cuts a pool into pages and serves blocks of it over TCP; \<open>discoveryd\<close> announces the node by
  multicast and keeps a table of the others; \<open>gpud\<close> executes CUDA calls for remote clients. A
  program that uses remote memory links \<open>memclient\<close>: a client with a local LRU cache that evicts
  blocks to peers, a remote heap that turns such a block into ordinary memory through page
  faults, and an arena that cuts the region into allocations. The malloc hook puts an unmodified
  Windows program, started by the launcher, on top of that arena. \<open>windows-lan-sharing\<close> is a second,
  independent pair of programs: paging to a server's pool, and a library that forwards CUDA calls.

  \<^bold>\<open>Conventions.\<close> \<open>size_t\<close> and \<open>uint64_t\<close> quantities are natural numbers with the wrap-around
  written out (\<open>u64_add\<close>, \<open>u64_sub\<close>, \<open>u64_mul\<close>); message fields and bit manipulation use words.
  Exceptions are values of \<open>cpp_error\<close>, with \<open>UndefinedBehaviour\<close> for what the language leaves
  undefined. A mutex makes an operation one step. FlatBuffers, libuv, CUDA, Detours, the C
  runtimes, the TOML parser and the kernel are parameters: codecs, results of system calls and
  scripts of events; what is relied on is a named hypothesis, and \<open>Wire\<close> builds codecs that
  satisfy the laws assumed of FlatBuffers.

  \<^bold>\<open>Theories and sources.\<close>
  \<^item> \<open>Prelude\<close>: 64-bit arithmetic, byte buffers, errors. \<open>OrderedMap\<close>: \<open>std::map\<close>. \<open>Wire\<close>: codecs.
  \<^item> \<open>Crc32c\<close>, \<open>Common\<close> (\<open>common/src\<close>): checksum in its software and SSE 4.2 forms, node
    identifiers, protocol version, configuration lookup. The table-driven and the hardware loop
    equal the bit-serial register, and a corrupted byte is always detected.
  \<^item> \<open>SlabAllocator\<close>, \<open>PageTracker\<close> (\<open>memoryd/src\<close>): the pool and the blocks on it. Pages are
    conserved and cleared; the tracker refines an abstract store of byte blocks with owners, with
    the slab reached through the locale \<open>page_pool\<close>.
  \<^item> \<open>MemoryProtocol\<close>, \<open>ClientSession\<close>, \<open>MemoryDaemon\<close>, \<open>Control\<close> (\<open>memoryd/src\<close>,
    \<open>common/schemas\<close>): request handling, framing and the daemon as a step relation. Every run is
    free of undefined behaviour, sessions are isolated, and the pool is whole again when the last
    session is gone.
  \<^item> \<open>LruCache\<close>, \<open>HeapArena\<close> (\<open>memclient/src\<close>): eviction order and byte count of the cache;
    soundness, completeness and coalescing of the arena.
  \<^item> \<open>ClientPeers\<close>, \<open>ClientRemote\<close>, \<open>ClientApi\<close> (\<open>memclient/src/client_api.cpp\<close>): connections and
    response matching, striped placement and transfer, and the operations with eviction and
    rollback. The loops over stripes end for every placed block; eviction loses no block.
  \<^item> \<open>PeerMemory\<close>, \<open>ClientMemory\<close>, \<open>Cluster\<close>: the composition of the client with daemons. \<open>PeerMemory\<close>
    states what the client relies on as the locale \<open>peer_memory\<close>: a peer keeps what was written to a block
    until it is freed. \<open>ClientMemory\<close> derives that the client's operations, with all evictions and
    reloads, are those of a table of byte blocks. \<open>Cluster\<close> runs the session code of \<open>memoryd\<close> for every
    peer, shows the laws of the locale for it and concludes that the whole is a memory.
  \<^item> \<open>RemoteHeap\<close> (\<open>memclient/src/remote_heap.cpp\<close>): residency and write-back; a fault is serviced
    within the budget. The loop is a partial function, so that its divergence when no write
    succeeds is a theorem.
  \<^item> \<open>PageFaultLinux\<close> (\<open>platform/src/linux/page_fault_linux.cpp\<close>): the userfaultfd backend as a step
    relation with the kernel's pages beside it; no page with memory is reported clean. \<open>PageFaultWin\<close> and
    \<open>PageFaultMac\<close> are the backends that use page protection, over the regions of \<open>PageRegions\<close> and the
    page states of \<open>PageProtection\<close>; a store to a page is recorded as dirty. The locale
    \<open>fault_backend\<close> is the contract \<open>RemoteHeap\<close> relies on, interpreted on all three.
  \<^item> \<open>MallocHook\<close> (\<open>hook/meminfo_hook.cpp\<close>): configuration, hooks, slots and detours. \<open>Launcher\<close>
    (\<open>hook/meminfo_launch.cpp\<close>): a launched program gets its arguments, by the rules of the C runtime for
    command lines, and the library in it the configuration.
  \<^item> \<open>Discovery\<close> (\<open>discoveryd/src\<close>): peer table, announcer, listener, pool probe, control socket.
  \<^item> \<open>Gpu\<close> (\<open>gpud/src\<close>): stub executor, request handler, sessions, daemon and client.
  \<^item> \<open>LocalIpc\<close>, \<open>LocalIpcWin\<close> (\<open>platform/src\<close>): the control channel over a Unix socket with partial reads and
    writes, and over a message pipe; both satisfy the locale \<open>local_ipc\<close>.
  \<^item> \<open>DecimalText\<close>, \<open>CommonIo\<close>, \<open>HttpStatus\<close> (\<open>common/src\<close>): numbers as text, configuration files and random
    bytes, and the status page, whose callbacks are safe in every order. \<open>MemoryMonitor\<close>
    (\<open>platform/src\<close>): the parser of \<open>/proc/meminfo\<close> returns what the kernel printed. \<open>HeapProbe\<close>
    (\<open>tools/remote_heap_probe.cpp\<close>): sizes, and a read pass that finds every lost byte.
  \<^item> \<open>WinSocket\<close>, \<open>LanPaging\<close>, \<open>LanGpu\<close> (\<open>windows-lan-sharing\<close>): transfer loops, the paging client, fault
    handler and server, the CUDA proxy, pointer table and server. Client and paging server together
    are a memory of clusters, and the proxy's calls those of the server's runtime, however the
    network cuts the streams; the copies from the device, which do not work, are lemmas of their own.

  \<^bold>\<open>Fuel and bounds.\<close> No definition has fuel: loops end by a measure or are partial functions with
  a proof that they return. Premises such as a size below 2^64 are bounds of the machine types.

  \<^bold>\<open>Not modelled.\<close> Memory order and data races below the granularity of a locked operation; log
  output, signal handles and the teardown of libuv handles, which have no state the other parts
  read; the real CUDA executor (\<open>gpud/src/cuda_executor_real.cpp\<close>), each operation of which is one call
  of the CUDA runtime; the random sources of Windows and macOS, which are single system calls; the
  programs' \<open>main\<close> functions, which parse options with a third-party library; generated code; the
  classes that are declared without behaviour (\<open>striper\<close>, \<open>peer_connector\<close>, \<open>remote_ptr\<close>,
  \<open>gpu_server\<close>); \<open>tools/win_veh_probe.cpp\<close>, an experiment; tests, scripts and the web dashboard.
\<close>

end
